(* ===== verification/Ziti_Prelude.thy ===== *)
theory Ziti_Prelude
  imports Main "HOL-Library.Word" "HOL-Library.AList" "HOL-Library.Signed_Division"
begin

text \<open>
  Shared vocabulary of the development: the Go machine integers, the concurrent maps the
  controller and the router keep their tables in, and the generic facts on association
  lists, folds and words that the component theories use.
\<close>

section \<open>Machine integers\<close>

text \<open>
  The unsigned integers of the source are words of their width. The signed 64 bit values
  (costs, latencies, milliseconds) are kept as \<^typ>\<open>int\<close> and every addition of the source
  goes through \<open>wrap64\<close>, the two's complement wrap-around.
\<close>

type_synonym u8 = "8 word"
type_synonym u16 = "16 word"
type_synonym u32 = "32 word"
type_synonym u64 = "64 word"

definition maxInt32 :: int where
  "maxInt32 = 2147483647"

definition maxInt64 :: int where
  "maxInt64 = 9223372036854775807"

definition wrap64 :: "int \<Rightarrow> int" where
  "wrap64 x = (x + 9223372036854775808) mod 18446744073709551616 - 9223372036854775808"

lemma wrap64_id:
  assumes "- 9223372036854775808 \<le> x" and "x \<le> maxInt64"
  shows "wrap64 x = x"
  using assms by (simp add: wrap64_def maxInt64_def)

lemma wrap64_le_maxInt64: "wrap64 x \<le> maxInt64"
proof -
  have "(x + 9223372036854775808) mod 18446744073709551616 < 18446744073709551616"
    by simp
  then show ?thesis by (simp add: wrap64_def maxInt64_def)
qed

lemma wrap64_0 [simp]: "wrap64 0 = 0"
  by (simp add: wrap64_def)

lemma unat_u32_less: "unat (x :: u32) < 4294967296"
proof -
  have "unat x < 2 ^ LENGTH(32)" by (rule unsigned_less)
  then show ?thesis by simp
qed

lemma unat_u16_less: "unat (x :: u16) < 65536"
proof -
  have "unat x < 2 ^ LENGTH(16)" by (rule unsigned_less)
  then show ?thesis by simp
qed

lemma unat_ucast_u32_u64 [simp]: "unat (ucast (x :: u32) :: u64) = unat x"
  using unat_u32_less [of x] by (simp add: unsigned_ucast_eq take_bit_nat_eq_self_iff)

lemma unat_ucast_u16_u32 [simp]: "unat (ucast (x :: u16) :: u32) = unat x"
  using unat_u16_less [of x] by (simp add: unsigned_ucast_eq take_bit_nat_eq_self_iff)

section \<open>Concurrent maps\<close>

text \<open>
  A concurrent map of the source (\<^verbatim>\<open>cmap.ConcurrentMap[string, V]\<close>) is an association list
  with distinct keys; the order of the list is the order in which an iteration meets the
  entries. \<open>Get\<close> is \<^const>\<open>map_of\<close>, \<open>Set\<close> is \<^const>\<open>AList.update\<close> and \<open>Remove\<close> is
  \<^const>\<open>AList.delete\<close>; \<open>RemoveCb\<close>, \<open>Upsert\<close> and \<open>SetIfAbsent\<close> are the compound operations.
\<close>

type_synonym 'v cmap = "(string \<times> 'v) list"

definition cmap_remove_cb :: "'v cmap \<Rightarrow> string \<Rightarrow> ('v option \<Rightarrow> bool) \<Rightarrow> 'v cmap \<times> bool" where
  "cmap_remove_cb m k cb =
     (let r = cb (map_of m k) in (if r then AList.delete k m else m, r))"

definition cmap_upsert :: "'v cmap \<Rightarrow> string \<Rightarrow> ('v option \<Rightarrow> 'v) \<Rightarrow> 'v cmap" where
  "cmap_upsert m k cb = AList.update k (cb (map_of m k)) m"

definition cmap_set_if_absent :: "'v cmap \<Rightarrow> string \<Rightarrow> 'v \<Rightarrow> 'v cmap \<times> bool" where
  "cmap_set_if_absent m k v =
     (case map_of m k of None \<Rightarrow> (AList.update k v m, True) | Some _ \<Rightarrow> (m, False))"

definition cmap_keys :: "'v cmap \<Rightarrow> string set" where
  "cmap_keys m = set (map fst m)"

named_theorems cmap_simps \<open>lookup after every operation of a concurrent map\<close>

text \<open>
  What the components rely on: lookup after an insert and a removal, and that an iteration
  meets exactly the entries a lookup finds.
\<close>

locale concurrent_map =
  fixes get :: "'m \<Rightarrow> 'k \<Rightarrow> 'v option"
    and put :: "'k \<Rightarrow> 'v \<Rightarrow> 'm \<Rightarrow> 'm"
    and remove :: "'k \<Rightarrow> 'm \<Rightarrow> 'm"
    and items :: "'m \<Rightarrow> ('k \<times> 'v) list"
    and invar :: "'m \<Rightarrow> bool"
  assumes get_put: "get (put k v m) = (get m)(k \<mapsto> v)"
    and get_remove: "get (remove k m) = (get m)(k := None)"
    and items_get: "invar m \<Longrightarrow> (k, v) \<in> set (items m) \<longleftrightarrow> get m k = Some v"
    and items_distinct: "invar m \<Longrightarrow> distinct (map fst (items m))"
    and invar_put: "invar m \<Longrightarrow> invar (put k v m)"
    and invar_remove: "invar m \<Longrightarrow> invar (remove k m)"
begin

lemma get_put_same [simp]: "get (put k v m) k = Some v"
  by (simp add: get_put)

lemma get_put_other: "k' \<noteq> k \<Longrightarrow> get (put k v m) k' = get m k'"
  by (simp add: get_put)

lemma get_remove_same [simp]: "get (remove k m) k = None"
  by (simp add: get_remove)

lemma get_remove_other: "k' \<noteq> k \<Longrightarrow> get (remove k m) k' = get m k'"
  by (simp add: get_remove)

lemma dom_put: "dom (get (put k v m)) = insert k (dom (get m))"
  by (simp add: get_put)

lemma dom_remove: "dom (get (remove k m)) = dom (get m) - {k}"
  by (simp add: get_remove)

lemma items_values: "invar m \<Longrightarrow> snd ` set (items m) = ran (get m)"
  using items_get [of m] by (force simp: ran_def)

lemma items_keys: "invar m \<Longrightarrow> fst ` set (items m) = dom (get m)"
  using items_get [of m] by (force simp: dom_def)

end

interpretation cm: concurrent_map
  "map_of :: 'v cmap \<Rightarrow> string \<Rightarrow> 'v option" AList.update AList.delete
  "\<lambda>m. m" "\<lambda>m. distinct (map fst m)"
proof (unfold_locales, goal_cases)
  case (1 k v m) show ?case by (rule update_conv')
next
  case (2 k m) show ?case by (rule delete_conv')
next
  case (3 m k v) then show ?case by simp
next
  case (4 m) then show ?case by simp
next
  case (5 m k v) then show ?case by (rule distinct_update)
next
  case (6 m k) then show ?case by (rule distinct_delete)
qed

lemmas cmap_get_simps [cmap_simps] =
  cm.get_put cm.get_remove

lemma cmap_remove_cb_get [cmap_simps]:
  "map_of (fst (cmap_remove_cb m k cb)) =
     (if cb (map_of m k) then (map_of m)(k := None) else map_of m)"
  by (simp add: cmap_remove_cb_def Let_def cm.get_remove)

lemma cmap_remove_cb_result [simp]: "snd (cmap_remove_cb m k cb) = cb (map_of m k)"
  by (simp add: cmap_remove_cb_def Let_def)

lemma cmap_upsert_get [cmap_simps]:
  "map_of (cmap_upsert m k cb) = (map_of m)(k \<mapsto> cb (map_of m k))"
  by (simp add: cmap_upsert_def cm.get_put)

lemma cmap_set_if_absent_get [cmap_simps]:
  "map_of (fst (cmap_set_if_absent m k v)) =
     (if map_of m k = None then (map_of m)(k \<mapsto> v) else map_of m)"
  by (simp add: cmap_set_if_absent_def cm.get_put split: option.splits)

lemma cmap_set_if_absent_result [simp]:
  "snd (cmap_set_if_absent m k v) \<longleftrightarrow> map_of m k = None"
  by (simp add: cmap_set_if_absent_def split: option.splits)

lemma distinct_cmap_remove_cb:
  "distinct (map fst m) \<Longrightarrow> distinct (map fst (fst (cmap_remove_cb m k cb)))"
  by (simp add: cmap_remove_cb_def Let_def cm.invar_remove)

lemma distinct_cmap_upsert:
  "distinct (map fst m) \<Longrightarrow> distinct (map fst (cmap_upsert m k cb))"
  by (simp add: cmap_upsert_def cm.invar_put)

lemma distinct_cmap_set_if_absent:
  "distinct (map fst m) \<Longrightarrow> distinct (map fst (fst (cmap_set_if_absent m k v)))"
  by (simp add: cmap_set_if_absent_def cm.invar_put split: option.split)

section \<open>Iteration order of Go maps\<close>

text \<open>
  The order in which \<^verbatim>\<open>range\<close> visits a built-in map is unspecified and may differ from one
  loop to the next. A loop over a map takes a rank, an arbitrary function from elements to
  numbers, and visits the elements in the order of their ranks: every permutation of a
  list of distinct elements arises from some rank, so a theorem for all ranks is a theorem
  for all iteration orders.
\<close>

definition range_order :: "('a \<Rightarrow> nat) \<Rightarrow> 'a list \<Rightarrow> 'a list" where
  "range_order rank xs = sort_key rank xs"

lemma set_range_order [simp]: "set (range_order rank xs) = set xs"
  by (simp add: range_order_def)

lemma distinct_range_order [simp]: "distinct (range_order rank xs) = distinct xs"
  by (simp add: range_order_def)

lemma range_order_Nil [simp]: "range_order rank xs = [] \<longleftrightarrow> xs = []"
  by (metis set_empty set_range_order)

lemma range_order_any_permutation:
  assumes "distinct ys" and "set ys = set xs" and "distinct xs"
  shows "\<exists>rank. range_order rank xs = ys"
proof -
  define rank where "rank = (\<lambda>x. THE i. i < length ys \<and> ys ! i = x)"
  have rank_nth: "rank (ys ! i) = i" if "i < length ys" for i
    unfolding rank_def using assms(1) that
    by (intro the_equality) (auto simp: nth_eq_iff_index_eq)
  have sorted_ys: "sorted (map rank ys)"
    by (simp add: sorted_iff_nth_mono rank_nth)
  have inj: "inj_on rank (set ys)"
    by (rule inj_onI) (metis in_set_conv_nth rank_nth)
  have "map rank (sort_key rank xs) = map rank ys"
    using assms inj sorted_ys
    by (intro sorted_distinct_set_unique) (auto simp: distinct_map)
  then have "sort_key rank xs = ys"
    using inj assms(2) by (intro map_inj_on [of rank]) auto
  then show ?thesis unfolding range_order_def by blast
qed

end
