(* ===== verification/Event_Cache.thy ===== *)
theory Event_Cache
  imports Ziti_Prelude
begin

text \<open>
  The controller's replay log of data model changes, \<^verbatim>\<open>common/event_cache.go\<close>: a ring buffer
  of change set indexes beside a map from indexes to change sets. Routers that reconnect
  ask for the changes from an index on; the cache answers with the changes, or tells the
  router to take a full snapshot.

  The ring is \<open>Log\<close> with its newest entry at \<open>HeadLogIndex\<close>. The abstraction \<open>ring\<close> reads
  it from the oldest to the newest entry and \<open>history\<close> is the list of change sets that can
  still be replayed. The lemmas show that storing appends to \<open>history\<close> and drops from its
  front only, and that a replay returns exactly the accepted changes from the requested
  index on.
\<close>

section \<open>Model\<close>

record 'e change_set =
  cs_Index :: u64
  cs_PreviousIndex :: u64
  cs_IsSynthetic :: bool
  cs_Changes :: "'e list"

datatype replay_result =
  ReplayResultSuccess | ReplayResultFullSyncRequired | ReplayResultRequestFromFuture

datatype cache_error = OutOfOrderEvent u64 u64 | CachePanic

record 'e event_cache =
  HeadLogIndex :: nat
  MinEntryIndex :: u64
  LogSize :: nat
  Log :: "u64 list"
  Events :: "u64 \<rightharpoonup> 'e change_set"

definition NewLoggingEventCache :: "nat \<Rightarrow> 'e event_cache" where
  "NewLoggingEventCache logSize =
     \<lparr>HeadLogIndex = 0, MinEntryIndex = 0, LogSize = logSize,
      Log = replicate logSize 0, Events = Map.empty\<rparr>"

definition SetCurrentIndex :: "'e event_cache \<Rightarrow> u64 \<Rightarrow> cache_error + 'e event_cache" where
  "SetCurrentIndex c index =
     (let log = replicate (LogSize c) 0
      in if log = [] then Inl CachePanic
         else Inr (c\<lparr>HeadLogIndex := 0, Log := log[0 := index], Events := Map.empty\<rparr>))"

definition currentIndex :: "'e event_cache \<Rightarrow> cache_error + u64" where
  "currentIndex c =
     (if HeadLogIndex c < length (Log c) then Inr (Log c ! HeadLogIndex c) else Inl CachePanic)"

definition CurrentIndex :: "'e event_cache \<Rightarrow> cache_error + u64" where
  "CurrentIndex c = currentIndex c"

text \<open>
  \<open>storeLocked\<close> returns the new cache and the arguments its success callback is called
  with. A missing slot or a ring of size zero is the run time panic of the index
  expression and of the remainder.
\<close>

definition storeLocked ::
  "'e event_cache \<Rightarrow> 'e change_set \<Rightarrow> cache_error + ('e event_cache \<times> u64 \<times> 'e change_set)" where
  "storeLocked c event =
     (if cs_IsSynthetic event then Inr (c, cs_Index event, event)
      else case currentIndex c of
        Inl e \<Rightarrow> Inl e
      | Inr current \<Rightarrow>
          if current \<ge> cs_Index event then Inl (OutOfOrderEvent current (cs_Index event))
          else if LogSize c = 0 then Inl CachePanic
          else
            let event' = event\<lparr>cs_PreviousIndex := current\<rparr>;
                target = (HeadLogIndex c + 1) mod LogSize c
            in if target \<ge> length (Log c) then Inl CachePanic
               else
                 let prevCached = Log c ! target;
                     c1 = (if prevCached \<noteq> 0
                           then c\<lparr>Events := (Events c)(prevCached := None),
                                  MinEntryIndex := prevCached + 1\<rparr>
                           else c);
                     c2 = c1\<lparr>Log := (Log c1)[target := cs_Index event],
                             Events := (Events c1)(cs_Index event \<mapsto> event'),
                             HeadLogIndex := target\<rparr>;
                     c3 = (if MinEntryIndex c2 = 0
                           then c2\<lparr>MinEntryIndex := cs_Index event\<rparr> else c2)
                 in Inr (c3, cs_Index event, event'))"

definition Store ::
  "'e event_cache \<Rightarrow> 'e change_set \<Rightarrow> cache_error + ('e event_cache \<times> u64 \<times> 'e change_set)" where
  "Store c event = storeLocked c event"

text \<open>The loop that moves the requested index to the next index that has an event.\<close>

partial_function (option) replay_seek ::
  "'e event_cache \<Rightarrow> u64 \<Rightarrow> u64 \<Rightarrow> (replay_result + u64) option" where
  "replay_seek c headIndex startIndex =
     (if Events c startIndex \<noteq> None then Some (Inr startIndex)
      else if startIndex > headIndex then Some (Inl ReplayResultRequestFromFuture)
      else if startIndex < MinEntryIndex c then Some (Inl ReplayResultFullSyncRequired)
      else if startIndex + 1 > headIndex then Some (Inl ReplayResultFullSyncRequired)
      else replay_seek c headIndex (startIndex + 1))"

text \<open>One of the two search loops over the ring, over the slots of an interval.\<close>

primrec log_scan :: "u64 list \<Rightarrow> u64 \<Rightarrow> nat list \<Rightarrow> cache_error + nat option" where
  "log_scan log k [] = Inr None"
| "log_scan log k (i # is) =
     (if i \<ge> length log then Inl CachePanic
      else if log ! i = k then Inr (Some i)
      else log_scan log k is)"

definition replay_locate :: "'e event_cache \<Rightarrow> u64 \<Rightarrow> u64 \<Rightarrow> cache_error + nat option" where
  "replay_locate c headIndex startIndex =
     (let tryOffset = sint (headIndex - startIndex);
          tryStartIndex = (if int (HeadLogIndex c) - tryOffset \<ge> 0
                           then nat (int (HeadLogIndex c) - tryOffset) else 0)
      in case log_scan (Log c) startIndex [tryStartIndex ..< length (Log c)] of
           Inl e \<Rightarrow> Inl e
         | Inr (Some i) \<Rightarrow> Inr (Some i)
         | Inr None \<Rightarrow>
             if tryStartIndex > 0 then log_scan (Log c) startIndex [0 ..< tryStartIndex]
             else Inr None)"

text \<open>
  A replayed entry is an option: the map lookup of the source yields a nil change set for
  an index without an event.
\<close>

definition ReplayFrom ::
  "'e event_cache \<Rightarrow> u64 \<Rightarrow> (cache_error + ('e change_set option list \<times> replay_result)) option" where
  "ReplayFrom c startIndex =
     (case currentIndex c of
        Inl e \<Rightarrow> Some (Inl e)
      | Inr headIndex \<Rightarrow>
          (case replay_seek c headIndex startIndex of
             None \<Rightarrow> None
           | Some (Inl r) \<Rightarrow> Some (Inr ([], r))
           | Some (Inr start) \<Rightarrow>
               Some (case replay_locate c headIndex start of
                       Inl e \<Rightarrow> Inl e
                     | Inr None \<Rightarrow> Inr ([], ReplayResultFullSyncRequired)
                     | Inr (Some startLog) \<Rightarrow>
                         let h = HeadLogIndex c
                         in if startLog \<le> h
                            then Inr (map (Events c) (drop startLog (take (h + 1) (Log c))),
                                      ReplayResultSuccess)
                            else Inr (map (Events c) (drop startLog (Log c)) @
                                      map (Events c) (take (h + 1) (Log c)),
                                      ReplayResultSuccess))))"

section \<open>Abstraction and invariant\<close>

text \<open>The ring from its oldest to its newest slot, and the change sets it can replay.\<close>

definition ring :: "'e event_cache \<Rightarrow> u64 list" where
  "ring c = drop (HeadLogIndex c + 1) (Log c) @ take (HeadLogIndex c + 1) (Log c)"

definition history :: "'e event_cache \<Rightarrow> 'e change_set list" where
  "history c = map (\<lambda>k. the (Events c k)) (filter (\<lambda>k. Events c k \<noteq> None) (ring c))"

definition ring_before :: "u64 \<Rightarrow> u64 \<Rightarrow> bool" where
  "ring_before a b \<longleftrightarrow> a < b \<or> (a = 0 \<and> b = 0)"

definition cache_inv :: "'e event_cache \<Rightarrow> bool" where
  "cache_inv c \<longleftrightarrow>
     0 < LogSize c \<and> length (Log c) = LogSize c \<and> HeadLogIndex c < LogSize c \<and>
     sorted_wrt ring_before (ring c) \<and>
     dom (Events c) \<subseteq> set (ring c) - {0} \<and>
     (\<forall>k e. Events c k = Some e \<longrightarrow> cs_Index e = k) \<and>
     sorted_wrt (\<lambda>a b. Events c a \<noteq> None \<longrightarrow> Events c b \<noteq> None) (ring c)"

text \<open>
  The accepted change sets \<open>acc\<close>, all above the index \<open>base\<close> the log was started at, and
  the cache agree: the cache has forgotten a prefix of them only, what it forgot lies below
  \<open>MinEntryIndex\<close>, and so does everything up to \<open>base\<close>.
\<close>

definition replayable :: "u64 \<Rightarrow> 'e change_set list \<Rightarrow> 'e event_cache \<Rightarrow> bool" where
  "replayable base acc c \<longleftrightarrow>
     cache_inv c \<and>
     (\<exists>dropped. acc = dropped @ history c \<and>
        (\<forall>e \<in> set dropped. cs_Index e < MinEntryIndex c)) \<and>
     (\<forall>e \<in> set (history c). MinEntryIndex c \<le> cs_Index e) \<and>
     (acc \<noteq> [] \<longrightarrow> base < MinEntryIndex c) \<and>
     (acc = [] \<longrightarrow> MinEntryIndex c = 0) \<and>
     (\<forall>k \<in> set (ring c). Events c k = None \<longrightarrow> (k = 0 \<or> k = base) \<and> acc = history c) \<and>
     (acc \<noteq> [] \<longrightarrow> Events c (last (ring c)) \<noteq> None) \<and>
     base \<le> last (ring c)"

text \<open>What overwriting the oldest slot with the change set \<open>e'\<close> does to the abstract ring.\<close>

definition ring_overwrite :: "'e event_cache \<Rightarrow> 'e change_set \<Rightarrow> 'e event_cache \<Rightarrow> bool" where
  "ring_overwrite c e' c' \<longleftrightarrow>
     ring c' = tl (ring c) @ [cs_Index e'] \<and>
     Events c' = (Events c)(hd (ring c) := None, cs_Index e' \<mapsto> e') \<and>
     MinEntryIndex c' =
       (let m = (if hd (ring c) \<noteq> 0 then hd (ring c) + 1 else MinEntryIndex c)
        in if m = 0 then cs_Index e' else m) \<and>
     LogSize c' = LogSize c \<and> length (Log c') = length (Log c) \<and> HeadLogIndex c' < LogSize c"

text \<open>A run: the sender stores every change set and goes on after a refused one.\<close>

fun cache_run ::
  "'e event_cache \<Rightarrow> 'e change_set list \<Rightarrow> 'e event_cache \<times> 'e change_set list" where
  "cache_run c [] = (c, [])"
| "cache_run c (e # es) =
     (case Store c e of
        Inl _ \<Rightarrow> cache_run c es
      | Inr (c', _, e') \<Rightarrow>
          (let (c'', acc) = cache_run c' es
           in (c'', if cs_IsSynthetic e then acc else e' # acc)))"

section \<open>The ring\<close>

lemma ring_nonempty: "cache_inv c \<Longrightarrow> ring c \<noteq> []"
  by (auto simp: cache_inv_def ring_def)

lemma ring_last: "cache_inv c \<Longrightarrow> last (ring c) = Log c ! HeadLogIndex c"
  by (auto simp: cache_inv_def ring_def last_append take_Suc_conv_app_nth)

lemma currentIndex_ring: "cache_inv c \<Longrightarrow> currentIndex c = Inr (last (ring c))"
  by (simp add: ring_last) (simp add: cache_inv_def currentIndex_def)

lemma ring_advance:
  assumes "length log = n" "h < n" "t = (h + 1) mod n"
  shows "drop (h + 1) log @ take (h + 1) log = log ! t # tl (drop (h + 1) log @ take (h + 1) log)"
    and "drop (t + 1) (log[t := x]) @ take (t + 1) (log[t := x]) =
         tl (drop (h + 1) log @ take (h + 1) log) @ [x]"
proof -
  have *: "h + 1 = n \<or> h + 1 < n" using assms(2) by linarith
  show "drop (h + 1) log @ take (h + 1) log = log ! t # tl (drop (h + 1) log @ take (h + 1) log)"
    using * assms by (cases log) (auto simp: Cons_nth_drop_Suc [symmetric] take_Suc_conv_app_nth)
  show "drop (t + 1) (log[t := x]) @ take (t + 1) (log[t := x]) =
         tl (drop (h + 1) log @ take (h + 1) log) @ [x]"
    using * assms
    by (cases log) (auto simp: Cons_nth_drop_Suc [symmetric] take_Suc_conv_app_nth)
qed

lemma ring_uncons: "cache_inv c \<Longrightarrow> ring c = hd (ring c) # tl (ring c)"
  by (simp add: ring_nonempty)

lemma Events_0: "cache_inv c \<Longrightarrow> Events c 0 = None"
  by (auto simp: cache_inv_def)

lemma storeLocked_accepts:
  assumes inv: "cache_inv c" and ns: "\<not> cs_IsSynthetic e" and gt: "last (ring c) < cs_Index e"
  obtains c' where
    "storeLocked c e = Inr (c', cs_Index e, e\<lparr>cs_PreviousIndex := last (ring c)\<rparr>)"
    "ring_overwrite c (e\<lparr>cs_PreviousIndex := last (ring c)\<rparr>) c'"
proof -
  define t where "t = (HeadLogIndex c + 1) mod LogSize c"
  have size: "length (Log c) = LogSize c" "HeadLogIndex c < LogSize c" "0 < LogSize c"
    using inv by (auto simp: cache_inv_def)
  have t: "t < LogSize c" and tS: "Suc (HeadLogIndex c) mod LogSize c = t"
    using size by (simp_all add: t_def)
  note adv = ring_advance [OF size(1,2) t_def]
  have hd_eq: "hd (ring c) = Log c ! t"
    using adv(1) by (metis list.sel(1) ring_def)
  have ev0: "Log c ! t = 0 \<Longrightarrow> (Events c)(0 := None) = Events c"
    using Events_0 [OF inv] by auto
  define e' where "e' = e\<lparr>cs_PreviousIndex := last (ring c)\<rparr>"
  define m where "m = (if hd (ring c) \<noteq> 0 then hd (ring c) + 1 else MinEntryIndex c)"
  define c' where "c' = c\<lparr>HeadLogIndex := t, MinEntryIndex := (if m = 0 then cs_Index e else m),
     Log := (Log c)[t := cs_Index e],
     Events := (Events c)(hd (ring c) := None, cs_Index e \<mapsto> e')\<rparr>"
  have "\<not> cs_Index e \<le> last (ring c)" using gt by simp
  then have "storeLocked c e = Inr (c', cs_Index e, e')"
    using size t ns ev0
    by (simp add: storeLocked_def currentIndex_ring [OF inv] Let_def tS
        e'_def [symmetric] hd_eq c'_def m_def)
  moreover have "ring c' = tl (ring c) @ [cs_Index e]"
    using adv(2) [of "cs_Index e"] by (simp add: c'_def ring_def)
  ultimately show ?thesis
    using t size
    by (intro that [of c']) (simp_all add: ring_overwrite_def c'_def e'_def m_def Let_def)
qed

lemma ring_le_last:
  assumes "cache_inv c" and "k \<in> set (ring c)"
  shows "k \<le> last (ring c)"
proof -
  have split: "ring c = butlast (ring c) @ [last (ring c)]"
    using ring_nonempty [OF assms(1)] by simp
  have "sorted_wrt ring_before (butlast (ring c) @ [last (ring c)])"
    using assms(1) split by (simp add: cache_inv_def)
  then have "\<forall>a \<in> set (butlast (ring c)). ring_before a (last (ring c))"
    by (simp add: sorted_wrt_append)
  moreover have "k \<in> set (butlast (ring c)) \<or> k = last (ring c)"
    using assms(2) split by (metis Un_iff empty_iff insert_iff list.set(1,2) set_append)
  ultimately show ?thesis by (auto simp: ring_before_def)
qed

lemma ring_step:
  assumes inv: "cache_inv c" and gt: "last (ring c) < cs_Index e'" and ow: "ring_overwrite c e' c'"
  shows "\<forall>a \<in> set (tl (ring c)). Events c' a = Events c a" (is ?keep)
    and "cache_inv c'"
    and "history c' = (if Events c (hd (ring c)) \<noteq> None then tl (history c) else history c) @ [e']"
proof -
  define k where "k = cs_Index e'"
  have ring': "ring c' = tl (ring c) @ [k]" and ev': "Events c' = (Events c)(hd (ring c) := None, k \<mapsto> e')"
    and sz: "LogSize c' = LogSize c" "length (Log c') = length (Log c)" "HeadLogIndex c' < LogSize c"
    using ow by (simp_all add: ring_overwrite_def k_def)
  note gt = gt [folded k_def] and kidx = k_def [symmetric]
  obtain x xs where r: "ring c = x # xs" using ring_uncons [OF inv] by blast
  have sorted: "sorted_wrt ring_before (x # xs)"
    and domE: "dom (Events c) \<subseteq> set (x # xs) - {0}"
    and idx: "\<forall>k e. Events c k = Some e \<longrightarrow> cs_Index e = k"
    and mono: "sorted_wrt (\<lambda>a b. Events c a \<noteq> None \<longrightarrow> Events c b \<noteq> None) (x # xs)"
    using inv by (auto simp: cache_inv_def r)
  have lt: "a < k" if "a \<in> set (x # xs)" for a
    using ring_le_last [OF inv, of a] gt that by (simp add: r)
  have ax: "a \<noteq> x \<or> Events c a = None" if "a \<in> set xs" for a
    using sorted that Events_0 [OF inv] by (auto simp: ring_before_def)
  show keep: ?keep
  proof
    fix a assume a: "a \<in> set (tl (ring c))"
    then have "a \<noteq> k" using lt [of a] by (auto simp: r)
    then show "Events c' a = Events c a" using ax [of a] a by (auto simp: r ev')
  qed
  have k0: "k \<noteq> 0" using gt by auto
  have rb: "ring_before a k" if "a \<in> set xs" for a
    using lt [of a] that by (simp add: ring_before_def)
  have m1: "sorted_wrt (\<lambda>a b. Events c' a \<noteq> None \<longrightarrow> Events c' b \<noteq> None) xs"
  proof (rule sorted_wrt_mono_rel)
    show "sorted_wrt (\<lambda>a b. Events c a \<noteq> None \<longrightarrow> Events c b \<noteq> None) xs"
      using mono by simp
    show "Events c' a \<noteq> None \<longrightarrow> Events c' b \<noteq> None"
      if "a \<in> set xs" "b \<in> set xs" "Events c a \<noteq> None \<longrightarrow> Events c b \<noteq> None" for a b
      using keep that by (simp add: r)
  qed
  have m2: "dom (Events c') \<subseteq> set (xs @ [k]) - {0}"
    using domE k0 ev' by (auto simp: r split: if_splits)
  have m3: "\<forall>k e. Events c' k = Some e \<longrightarrow> cs_Index e = k"
    using idx kidx ev' by auto
  have m4: "sorted_wrt ring_before (xs @ [k])"
    using sorted rb by (simp add: sorted_wrt_append)
  have m5: "sorted_wrt (\<lambda>a b. Events c' a \<noteq> None \<longrightarrow> Events c' b \<noteq> None) (xs @ [k])"
    using m1 by (simp add: sorted_wrt_append ev')
  have ring_xs: "ring c' = xs @ [k]" using ring' r by simp
  have m6: "0 < LogSize c'" "length (Log c') = LogSize c'" "HeadLogIndex c' < LogSize c'"
    using inv sz by (simp_all add: cache_inv_def)
  show "cache_inv c'"
    unfolding cache_inv_def ring_xs using m2 m3 m4 m5 m6 by blast
  have "filter (\<lambda>k. Events c' k \<noteq> None) xs = filter (\<lambda>k. Events c k \<noteq> None) xs"
    using keep by (intro filter_cong) (auto simp: r)
  moreover have "map (\<lambda>a. the (Events c' a)) (filter (\<lambda>k. Events c k \<noteq> None) xs) =
                 map (\<lambda>a. the (Events c a)) (filter (\<lambda>k. Events c k \<noteq> None) xs)"
    using keep by (intro map_cong) (auto simp: r)
  ultimately show "history c' =
      (if Events c (hd (ring c)) \<noteq> None then tl (history c) else history c) @ [e']"
    by (simp add: history_def ring' r ev')
qed

section \<open>What stays replayable\<close>

lemma history_tl:
  assumes "cache_inv c" and "Events c (hd (ring c)) = Some e"
  shows "history c = e # tl (history c)"
proof -
  obtain x xs where "ring c = x # xs" using ring_uncons [OF assms(1)] by blast
  then show ?thesis using assms(2) by (simp add: history_def)
qed

lemma cache_inv_event:
  assumes "cache_inv c" and "Events c k = Some e"
  shows "k \<in> set (ring c)" and "k \<noteq> 0" and "cs_Index e = k"
proof -
  have "dom (Events c) \<subseteq> set (ring c) - {0}" and "\<forall>k e. Events c k = Some e \<longrightarrow> cs_Index e = k"
    using assms(1) unfolding cache_inv_def by simp_all
  then show "k \<in> set (ring c)" "k \<noteq> 0" "cs_Index e = k" using assms(2) by auto
qed

lemma history_set:
  assumes "cache_inv c"
  shows "e \<in> set (history c) \<longleftrightarrow> Events c (cs_Index e) = Some e"
proof -
  show ?thesis
  proof
    assume "e \<in> set (history c)"
    then obtain k where "Events c k = Some e" by (auto simp: history_def)
    then show "Events c (cs_Index e) = Some e" using cache_inv_event(3) [OF assms] by simp
  next
    assume a: "Events c (cs_Index e) = Some e"
    then have "cs_Index e \<in> set (ring c)" by (rule cache_inv_event(1) [OF assms])
    then have "the (Events c (cs_Index e)) \<in> set (history c)"
      using a by (force simp: history_def)
    then show "e \<in> set (history c)" using a by simp
  qed
qed

lemma word_inc:
  fixes a b :: u64
  assumes "a < b"
  shows "a + 1 \<le> b" "a < a + 1" "a + 1 \<noteq> 0"
  using assms by (unat_arith; auto)+

lemma replayableD:
  assumes "replayable base acc c"
  shows "cache_inv c"
    and "acc \<noteq> [] \<Longrightarrow> base < MinEntryIndex c" and "acc = [] \<Longrightarrow> MinEntryIndex c = 0"
    and "base \<le> last (ring c)"
    and "acc \<noteq> [] \<Longrightarrow> Events c (last (ring c)) \<noteq> None"
    and "acc \<noteq> [] \<Longrightarrow> MinEntryIndex c \<le> last (ring c)"
    and "Events c k = Some e \<Longrightarrow> cs_Index e = k \<and> k \<noteq> 0 \<and> MinEntryIndex c \<le> k \<and> acc \<noteq> []"
    and "k \<in> set (ring c) \<Longrightarrow> Events c k = None \<Longrightarrow> (k = 0 \<or> k = base) \<and> acc = history c"
proof -
  show inv: "cache_inv c" and "acc \<noteq> [] \<Longrightarrow> base < MinEntryIndex c"
    and "acc = [] \<Longrightarrow> MinEntryIndex c = 0"
    and "base \<le> last (ring c)" and ls: "acc \<noteq> [] \<Longrightarrow> Events c (last (ring c)) \<noteq> None"
    and "k \<in> set (ring c) \<Longrightarrow> Events c k = None \<Longrightarrow> (k = 0 \<or> k = base) \<and> acc = history c"
    using assms by (simp_all add: replayable_def)
  have hi: "\<forall>e \<in> set (history c). MinEntryIndex c \<le> cs_Index e \<and> acc \<noteq> []"
    using assms by (auto simp: replayable_def)
  have ev: "cs_Index e = k \<and> k \<noteq> 0 \<and> MinEntryIndex c \<le> k \<and> acc \<noteq> []" if "Events c k = Some e" for k e
  proof -
    have "cs_Index e = k" "k \<noteq> 0" using cache_inv_event [OF inv that] by simp_all
    with that show ?thesis using hi history_set [OF inv, of e] by auto
  qed
  then show "Events c k = Some e \<Longrightarrow> cs_Index e = k \<and> k \<noteq> 0 \<and> MinEntryIndex c \<le> k \<and> acc \<noteq> []"
    by blast
  show "acc \<noteq> [] \<Longrightarrow> MinEntryIndex c \<le> last (ring c)"
    using ls ev by blast
qed

text \<open>The lower end of the replayable range after the oldest slot is overwritten.\<close>

lemma min_step:
  assumes r: "replayable base acc c" and gt: "last (ring c) < k"
    and mn: "m' = (let m = (if hd (ring c) \<noteq> 0 then hd (ring c) + 1 else MinEntryIndex c)
                   in if m = 0 then k else m)"
  shows "m' \<le> k" and "base < m'"
    and "e \<in> set (history c) \<Longrightarrow> cs_Index e \<in> set (tl (ring c)) \<Longrightarrow> m' \<le> cs_Index e"
    and "hd (ring c) \<noteq> 0 \<Longrightarrow> m' = hd (ring c) + 1"
    and "hd (ring c) = 0 \<Longrightarrow> acc \<noteq> [] \<Longrightarrow> m' = MinEntryIndex c"
proof -
  note R = replayableD [OF r]
  let ?x = "hd (ring c)"
  have xin: "?x \<in> set (ring c)" using ring_nonempty [OF R(1)] by simp
  have x_k: "?x < k" using ring_le_last [OF R(1) xin] gt by simp
  have x_tl: "?x < j" if "j \<in> set (tl (ring c))" "?x \<noteq> 0" for j
    using R(1) that ring_uncons [OF R(1)]
    by (metis cache_inv_def ring_before_def sorted_wrt.simps(2))
  show m1: "?x \<noteq> 0 \<Longrightarrow> m' = ?x + 1" and m2: "?x = 0 \<Longrightarrow> acc \<noteq> [] \<Longrightarrow> m' = MinEntryIndex c"
    using word_inc [OF x_k] R(2) by (auto simp: mn Let_def)
  have "MinEntryIndex c \<le> k" if "acc \<noteq> []"
    using R(6) [OF that] gt by simp
  then show "m' \<le> k"
    using word_inc [OF x_k] R(3) by (cases "acc = []") (auto simp: mn Let_def)
  show "base < m'"
  proof (cases "?x = 0")
    case True
    then show ?thesis using R(2,3,4) gt by (auto simp: mn Let_def)
  next
    case False
    have "base \<le> ?x"
      using R(8) [OF xin] False R(7) R(2) by (cases "Events c ?x") fastforce+
    then show ?thesis using word_inc [OF x_k] m1 False by auto
  qed
  show "m' \<le> cs_Index e" if "e \<in> set (history c)" "cs_Index e \<in> set (tl (ring c))"
  proof (cases "?x = 0")
    case True
    then show ?thesis using m2 R(7) history_set [OF R(1), of e] that(1) by blast
  next
    case False
    then show ?thesis using m1 x_tl [OF that(2)] word_inc by auto
  qed
qed

lemma min_hist_step:
  assumes r: "replayable base acc c" and gt: "last (ring c) < cs_Index e'" and ow: "ring_overwrite c e' c'"
    and d: "d \<in> set (history c')"
  shows "MinEntryIndex c' \<le> cs_Index d"
proof (cases "d = e'")
  case True
  then show ?thesis using min_step(1) [OF r gt] ow by (simp add: ring_overwrite_def)
next
  case False
  note inv = replayableD(1) [OF r]
  note inv' = ring_step(2) [OF inv gt ow]
  have ev': "Events c' = (Events c)(hd (ring c) := None, cs_Index e' \<mapsto> e')"
    and ring': "ring c' = tl (ring c) @ [cs_Index e']"
    and mn: "MinEntryIndex c' = (let m = (if hd (ring c) \<noteq> 0 then hd (ring c) + 1 else MinEntryIndex c)
        in if m = 0 then cs_Index e' else m)"
    using ow by (simp_all add: ring_overwrite_def)
  have ev_d: "Events c' (cs_Index d) = Some d" using d history_set [OF inv'] by simp
  then have ne: "cs_Index d \<noteq> cs_Index e'" using False by (auto simp: ev')
  have "Events c (cs_Index d) = Some d" using ev_d ne by (simp add: ev' split: if_splits)
  then have "d \<in> set (history c)" using history_set [OF inv] by simp
  moreover have "cs_Index d \<in> set (tl (ring c))"
    using cache_inv_event(1) [OF inv' ev_d] ne by (simp add: ring')
  ultimately show ?thesis by (rule min_step(3) [OF r gt mn])
qed

lemma dropped_step:
  assumes r: "replayable base acc c" and gt: "last (ring c) < cs_Index e'" and ow: "ring_overwrite c e' c'"
  shows "\<exists>d. acc @ [e'] = d @ history c' \<and> (\<forall>e \<in> set d. cs_Index e < MinEntryIndex c')"
proof -
  note R = replayableD [OF r]
  let ?x = "hd (ring c)"
  have mn: "MinEntryIndex c' = (let m = (if ?x \<noteq> 0 then ?x + 1 else MinEntryIndex c)
      in if m = 0 then cs_Index e' else m)"
    using ow by (simp add: ring_overwrite_def)
  note M = min_step [OF r gt mn] and step = ring_step [OF R(1) gt ow]
  obtain dropped where acc: "acc = dropped @ history c"
    and dr: "\<forall>e \<in> set dropped. cs_Index e < MinEntryIndex c"
    using r by (auto simp: replayable_def)
  show ?thesis
  proof (cases "Events c ?x")
    case None
    then have "dropped = []" using R(8) [of ?x] ring_nonempty [OF R(1)] acc by auto
    then show ?thesis using step(3) None acc by auto
  next
    case (Some ex)
    have x: "cs_Index ex = ?x" "?x \<noteq> 0" "MinEntryIndex c \<le> ?x" using R(7) [OF Some] by simp_all
    have "?x < ?x + 1"
      using word_inc(2) [of ?x "cs_Index e'"] ring_le_last [OF R(1), of ?x] ring_nonempty [OF R(1)] gt
      by simp
    then have "\<forall>e \<in> set (dropped @ [ex]). cs_Index e < MinEntryIndex c'"
      using x M(4) dr by fastforce
    moreover have "acc @ [e'] = (dropped @ [ex]) @ history c'"
      using step(3) Some acc history_tl [OF R(1) Some] by simp
    ultimately show ?thesis by blast
  qed
qed

lemma holes_step:
  assumes r: "replayable base acc c" and gt: "last (ring c) < cs_Index e'" and ow: "ring_overwrite c e' c'"
    and k: "k \<in> set (ring c')" "Events c' k = None"
  shows "(k = 0 \<or> k = base) \<and> acc @ [e'] = history c'"
proof -
  note R = replayableD [OF r] and step = ring_step [OF replayableD(1) [OF r] gt ow]
  have tl: "k \<in> set (tl (ring c))" using k ow by (auto simp: ring_overwrite_def)
  have none: "Events c k = None" using step(1) tl k(2) by simp
  have "sorted_wrt (\<lambda>a b. Events c a \<noteq> None \<longrightarrow> Events c b \<noteq> None) (hd (ring c) # tl (ring c))"
    using R(1) ring_uncons [OF R(1)] by (simp add: cache_inv_def)
  then have "Events c (hd (ring c)) = None" using tl none by auto
  then have "history c' = history c @ [e']" using step(3) by simp
  moreover have "k \<in> set (ring c)" using tl ring_uncons [OF R(1)] by (metis list.set_intros(2))
  ultimately show ?thesis using R(8) [OF _ none] by auto
qed

lemma replayable_overwrite:
  assumes r: "replayable base acc c" and gt: "last (ring c) < cs_Index e'" and ow: "ring_overwrite c e' c'"
  shows "replayable base (acc @ [e']) c'"
proof -
  have ring': "ring c' = tl (ring c) @ [cs_Index e']"
    and ev': "Events c' = (Events c)(hd (ring c) := None, cs_Index e' \<mapsto> e')"
    and mn: "MinEntryIndex c' = (let m = (if hd (ring c) \<noteq> 0 then hd (ring c) + 1 else MinEntryIndex c)
        in if m = 0 then cs_Index e' else m)"
    using ow by (simp_all add: ring_overwrite_def)
  note R = replayableD [OF r]
  show ?thesis
    unfolding replayable_def
  proof (intro conjI impI ballI)
    show "base \<le> last (ring c')" using R(4) gt by (simp add: ring')
    show "Events c' (last (ring c')) \<noteq> None" by (simp add: ring' ev')
    show "cache_inv c'" by (rule ring_step(2) [OF R(1) gt ow])
    show "base < MinEntryIndex c'" by (rule min_step(2) [OF r gt mn])
    show "\<exists>d. acc @ [e'] = d @ history c' \<and> (\<forall>e \<in> set d. cs_Index e < MinEntryIndex c')"
      by (rule dropped_step [OF r gt ow])
  qed (use min_hist_step [OF r gt ow] holes_step [OF r gt ow] in auto)
qed

section \<open>Replay\<close>

lemma seek_hit: "Events c s \<noteq> None \<Longrightarrow> replay_seek c h s = Some (Inr s)"
  by (subst replay_seek.simps) simp

lemma seek_future: "Events c s = None \<Longrightarrow> h < s \<Longrightarrow> replay_seek c h s = Some (Inl ReplayResultRequestFromFuture)"
  by (subst replay_seek.simps) simp

lemma seek_below: "Events c s = None \<Longrightarrow> s \<le> h \<Longrightarrow> s < MinEntryIndex c \<Longrightarrow>
    replay_seek c h s = Some (Inl ReplayResultFullSyncRequired)"
  by (subst replay_seek.simps) simp

lemma seek_next: "Events c s = None \<Longrightarrow> MinEntryIndex c \<le> s \<Longrightarrow> s < h \<Longrightarrow>
    replay_seek c h s = replay_seek c h (s + 1)"
  using word_inc(1) [of s h] by (subst replay_seek.simps) auto

lemma seek_last: "Events c h = None \<Longrightarrow> MinEntryIndex c \<le> h \<Longrightarrow> h \<noteq> - 1 \<Longrightarrow>
    replay_seek c h h = Some (Inl ReplayResultFullSyncRequired)"
proof -
  assume a: "Events c h = None" "MinEntryIndex c \<le> h" "h \<noteq> - 1"
  have "h < h + 1" using a(3) by (metis word_inc(2) word_order.not_eq_extremum)
  then show ?thesis using a by (subst replay_seek.simps) auto
qed

lemma seek_found:
  assumes "Events c h \<noteq> None" and "MinEntryIndex c \<le> s" and "s \<le> h"
  shows "\<exists>k. replay_seek c h s = Some (Inr k) \<and> Events c k \<noteq> None \<and> s \<le> k \<and>
             (\<forall>j. Events c j \<noteq> None \<longrightarrow> s \<le> j \<longrightarrow> k \<le> j)"
  using assms
proof (induction "unat h - unat s" arbitrary: s rule: less_induct)
  case less
  show ?case
  proof (cases "Events c s = None")
    case False
    then show ?thesis using seek_hit [of c s h] by auto
  next
    case True
    have sh: "s < h" using less.prems True by (metis order_le_less)
    note inc = word_inc [OF sh]
    have "unat h - unat (s + 1) < unat h - unat s"
      using inc(1,2) sh by (simp add: word_less_nat_alt word_le_nat_alt)
    moreover have "MinEntryIndex c \<le> s + 1" using less.prems(2) inc(2) by simp
    ultimately obtain k where k: "replay_seek c h (s + 1) = Some (Inr k)" "Events c k \<noteq> None"
      "s + 1 \<le> k" "\<forall>j. Events c j \<noteq> None \<longrightarrow> s + 1 \<le> j \<longrightarrow> k \<le> j"
      using less.hyps [of "s + 1"] less.prems inc(1) by blast
    have "k \<le> j" if "Events c j \<noteq> None" "s \<le> j" for j
    proof -
      have "s < j" using that True by (metis order_le_less)
      then show ?thesis using k(4) that(1) word_inc(1) by blast
    qed
    moreover have "s \<le> k" using k(3) inc(2) by simp
    ultimately show ?thesis using k(1,2) seek_next [OF True less.prems(2) sh] by auto
  qed
qed

lemma seek_none:
  assumes "\<forall>j. Events c j = None" and "MinEntryIndex c = 0" and "s \<le> h" and "h \<noteq> - 1"
  shows "replay_seek c h s = Some (Inl ReplayResultFullSyncRequired)"
  using assms
proof (induction "unat h - unat s" arbitrary: s rule: less_induct)
  case less
  show ?case
  proof (cases "s = h")
    case True
    then show ?thesis using less.prems seek_last [of c h] by simp
  next
    case False
    then have sh: "s < h" using less.prems(3) by simp
    note inc = word_inc [OF sh]
    have "unat h - unat (s + 1) < unat h - unat s"
      using inc(1,2) sh by (simp add: word_less_nat_alt word_le_nat_alt)
    then show ?thesis
      using less.hyps [of "s + 1"] less.prems inc(1) seek_next [OF _ _ sh, of c] by simp
  qed
qed

lemma log_scan_found:
  assumes "a \<le> i" "i < b" "i < length log" "log ! i = k"
  shows "\<exists>j < length log. log_scan log k [a ..< b] = Inr (Some j) \<and> log ! j = k"
  using assms
proof (induction "b - a" arbitrary: a)
  case (Suc n)
  show ?case
  proof (cases "log ! a = k")
    case True
    then show ?thesis using Suc.prems by (auto simp: upt_conv_Cons)
  next
    case False
    then have "Suc a \<le> i" using Suc.prems by (metis Suc_leI le_eq_less_or_eq)
    then show ?thesis using Suc.hyps(1) [of "Suc a"] Suc.hyps(2) Suc.prems False
      by (auto simp: upt_conv_Cons)
  qed
qed simp

lemma log_scan_missing:
  assumes "b \<le> length log" and "\<forall>i. a \<le> i \<longrightarrow> i < b \<longrightarrow> log ! i \<noteq> k"
  shows "log_scan log k [a ..< b] = Inr None"
  using assms
proof (induction "b - a" arbitrary: a)
  case (Suc n)
  then have "log_scan log k [Suc a ..< b] = Inr None" by (intro Suc.hyps(1)) auto
  then show ?case using Suc by (auto simp: upt_conv_Cons)
qed simp

lemma replay_locate_found:
  assumes "k \<in> set (Log c)"
  shows "\<exists>j < length (Log c). replay_locate c h k = Inr (Some j) \<and> Log c ! j = k"
proof -
  define t where "t = (if int (HeadLogIndex c) - sint (h - k) \<ge> 0
                       then nat (int (HeadLogIndex c) - sint (h - k)) else 0)"
  have loc: "replay_locate c h k =
      (case log_scan (Log c) k [t ..< length (Log c)] of
         Inl e \<Rightarrow> Inl e
       | Inr (Some i) \<Rightarrow> Inr (Some i)
       | Inr None \<Rightarrow> if t > 0 then log_scan (Log c) k [0 ..< t] else Inr None)"
    unfolding replay_locate_def Let_def t_def ..
  obtain i where i: "i < length (Log c)" "Log c ! i = k" using assms by (metis in_set_conv_nth)
  show ?thesis
  proof (cases "\<exists>i. t \<le> i \<and> i < length (Log c) \<and> Log c ! i = k")
    case True
    then obtain j where "j < length (Log c)" "Log c ! j = k"
      "log_scan (Log c) k [t ..< length (Log c)] = Inr (Some j)"
      using log_scan_found [of t _ "length (Log c)" "Log c" k] by blast
    then show ?thesis by (auto simp: loc)
  next
    case False
    then have "i < t" using i by (metis not_le)
    moreover have "log_scan (Log c) k [t ..< length (Log c)] = Inr None"
      using False by (intro log_scan_missing) auto
    ultimately show ?thesis using log_scan_found [of 0 i t "Log c" k] i
      by (auto simp: loc)
  qed
qed

lemma ring_suffix:
  assumes "sorted_wrt ring_before (pre @ k # vs)" and "k \<noteq> 0"
  shows "filter (\<lambda>j. k \<le> j) (pre @ k # vs) = k # vs"
proof -
  have "filter (\<lambda>j. k \<le> j) pre = []"
    using assms by (auto simp: sorted_wrt_append ring_before_def filter_empty_conv)
  moreover have "filter (\<lambda>j. k \<le> j) vs = vs"
    using assms by (auto simp: sorted_wrt_append ring_before_def filter_id_conv)
  ultimately show ?thesis by simp
qed

lemma ring_slice:
  assumes inv: "cache_inv c" and j: "j < length (Log c)" "Log c ! j = k" "k \<noteq> 0"
  shows "(if j \<le> HeadLogIndex c then drop j (take (HeadLogIndex c + 1) (Log c))
          else drop j (Log c) @ take (HeadLogIndex c + 1) (Log c)) = filter (\<lambda>i. k \<le> i) (ring c)"
    (is "?slice = _")
proof -
  let ?h = "HeadLogIndex c"
  have h: "?h < length (Log c)" and srt: "sorted_wrt ring_before (ring c)"
    using inv by (simp_all add: cache_inv_def)
  define sl where "sl = ?slice"
  have cons: "sl = k # tl sl"
    unfolding sl_def using j h by (auto simp: Cons_nth_drop_Suc [symmetric])
  have "\<exists>pre. ring c = pre @ sl"
  proof (cases "j \<le> ?h")
    case True
    have "take (?h + 1) (Log c) = take j (Log c) @ drop j (take (?h + 1) (Log c))"
      using append_take_drop_id [of j "take (?h + 1) (Log c)"] True by (simp add: min_def)
    then have "ring c = (drop (?h + 1) (Log c) @ take j (Log c)) @ sl"
      using True by (simp add: ring_def sl_def)
    then show ?thesis by blast
  next
    case False
    then have "drop (?h + 1) (Log c) = take (j - ?h - 1) (drop (?h + 1) (Log c)) @ drop j (Log c)"
      using append_take_drop_id [of "j - ?h - 1" "drop (?h + 1) (Log c)"] by simp
    then have "ring c = take (j - ?h - 1) (drop (?h + 1) (Log c)) @ sl"
      using False by (simp add: ring_def sl_def)
    then show ?thesis by blast
  qed
  then obtain pre where "ring c = pre @ k # tl sl" using cons by auto
  then have "filter (\<lambda>i. k \<le> i) (ring c) = sl"
    using ring_suffix [of pre k "tl sl"] srt j(3) cons by simp
  then show ?thesis by (simp only: sl_def)
qed


lemma cache_inv_sorted:
  assumes "cache_inv c" and "ring c = pre @ k # vs"
  shows "\<forall>a \<in> set pre. ring_before a k"
    and "Events c k \<noteq> None \<Longrightarrow> \<forall>b \<in> set vs. Events c b \<noteq> None"
proof -
  have "sorted_wrt ring_before (ring c)"
    and ev: "sorted_wrt (\<lambda>a b. Events c a \<noteq> None \<longrightarrow> Events c b \<noteq> None) (ring c)"
    using assms(1) unfolding cache_inv_def by blast+
  then show "\<forall>a \<in> set pre. ring_before a k"
    unfolding assms(2) by (simp only: sorted_wrt_append list.set) blast
  show "Events c k \<noteq> None \<Longrightarrow> \<forall>b \<in> set vs. Events c b \<noteq> None"
    using ev unfolding assms(2) by (simp only: sorted_wrt_append sorted_wrt.simps) blast
qed

lemma events_above:
  assumes inv: "cache_inv c" and k: "Events c k \<noteq> None" and j: "j \<in> set (ring c)" "k \<le> j"
  shows "Events c j \<noteq> None"
proof -
  obtain e where e: "Events c k = Some e" using k by auto
  note ev = cache_inv_event [OF inv e]
  obtain pre vs where split: "ring c = pre @ k # vs" using split_list [OF ev(1)] by blast
  note S = cache_inv_sorted [OF inv split]
  have "j \<notin> set pre"
  proof
    assume "j \<in> set pre"
    then have "ring_before j k" using S(1) by blast
    then show False using j(2) ev(2) unfolding ring_before_def by (metis leD)
  qed
  then have "j = k \<or> j \<in> set vs" using j(1) unfolding split by simp
  then show ?thesis using S(2) k by blast
qed

lemma replay_slice_events:
  assumes r: "replayable base acc c" and s: "MinEntryIndex c \<le> s"
    and k: "Events c k \<noteq> None" "s \<le> k" "\<forall>j. Events c j \<noteq> None \<longrightarrow> s \<le> j \<longrightarrow> k \<le> j"
  shows "map (Events c) (filter (\<lambda>j. k \<le> j) (ring c)) =
         map Some (filter (\<lambda>e. s \<le> cs_Index e) acc)"
proof -
  note R = replayableD [OF r]
  obtain dropped where acc: "acc = dropped @ history c"
    and dr: "\<forall>e \<in> set dropped. cs_Index e < MinEntryIndex c"
    using r by (auto simp: replayable_def)
  have "filter (\<lambda>e. s \<le> cs_Index e) dropped = []"
    using dr s by (auto simp: filter_empty_conv)
  moreover have "filter (\<lambda>e. s \<le> cs_Index e) (history c) =
      map (\<lambda>j. the (Events c j)) (filter (\<lambda>j. Events c j \<noteq> None \<and> s \<le> j) (ring c))"
    unfolding history_def filter_map filter_filter comp_def
    using R(7) by (intro arg_cong [where f = "map _"] filter_cong) auto
  moreover have eq: "filter (\<lambda>j. Events c j \<noteq> None \<and> s \<le> j) (ring c) = filter (\<lambda>j. k \<le> j) (ring c)"
    using events_above [OF R(1) k(1)] k(2,3) by (intro filter_cong) auto
  moreover have "\<forall>j \<in> set (filter (\<lambda>j. k \<le> j) (ring c)). Events c j = Some (the (Events c j))"
    using events_above [OF R(1) k(1)] by auto
  ultimately show ?thesis
    using acc by (auto intro!: map_cong)
qed

lemma ReplayFrom_exact:
  assumes r: "replayable base acc c" and mx: "last (ring c) \<noteq> - 1"
  shows "ReplayFrom c s = Some (Inr (
    if last (ring c) < s then ([], ReplayResultRequestFromFuture)
    else if acc = [] \<or> s < MinEntryIndex c then ([], ReplayResultFullSyncRequired)
    else (map Some (filter (\<lambda>e. s \<le> cs_Index e) acc), ReplayResultSuccess)))"
proof -
  note R = replayableD [OF r]
  let ?h = "last (ring c)"
  have cur: "currentIndex c = Inr ?h" by (rule currentIndex_ring [OF R(1)])
  consider "?h < s" | "s \<le> ?h" "acc = []" | "s \<le> ?h" "s < MinEntryIndex c"
    | "s \<le> ?h" "acc \<noteq> []" "MinEntryIndex c \<le> s" by force
  then show ?thesis
  proof cases
    case 1
    then have "Events c s = None" using cache_inv_event(1) [OF R(1)] ring_le_last [OF R(1)]
      by (metis leD not_None_eq)
    then show ?thesis using 1 cur by (simp add: ReplayFrom_def seek_future)
  next
    case 2
    then have "\<forall>j. Events c j = None" using R(7) by (metis not_None_eq)
    then show ?thesis using 2 cur R(3) mx by (simp add: ReplayFrom_def seek_none)
  next
    case 3
    then have "Events c s = None" using R(7) by (metis leD not_None_eq)
    then show ?thesis using 3 cur by (simp add: ReplayFrom_def seek_below)
  next
    case 4
    obtain k where k: "replay_seek c ?h s = Some (Inr k)" "Events c k \<noteq> None" "s \<le> k"
      "\<forall>j. Events c j \<noteq> None \<longrightarrow> s \<le> j \<longrightarrow> k \<le> j"
      using seek_found [OF R(5) [OF 4(2)] 4(3) 4(1)] by blast
    then obtain e where e: "Events c k = Some e" by auto
    note ev = cache_inv_event [OF R(1) e]
    have "k \<in> set (Log c)" using ev(1) by (auto simp: ring_def dest: in_set_takeD in_set_dropD)
    then obtain j where j: "j < length (Log c)" "replay_locate c ?h k = Inr (Some j)" "Log c ! j = k"
      using replay_locate_found by blast
    show ?thesis
      using replay_slice_events [OF r 4(3) k(2-4)] ring_slice [OF R(1) j(1,3) ev(2)] 4 cur k(1) j(2)
      by (auto simp: ReplayFrom_def Let_def map_append [symmetric] simp del: map_append split: if_splits)
  qed
qed

lemma replayable_start:
  assumes "0 < n" and "SetCurrentIndex (NewLoggingEventCache n) base = Inr c"
  shows "replayable base [] c" and "last (ring c) = base"
proof -
  obtain m where n: "n = Suc m" using assms(1) by (cases n) auto
  have c: "c = \<lparr>HeadLogIndex = 0, MinEntryIndex = 0, LogSize = n,
                Log = base # replicate m 0, Events = Map.empty\<rparr>"
    using assms(2) n by (simp add: SetCurrentIndex_def NewLoggingEventCache_def Let_def)
  have ring: "ring c = replicate m 0 @ [base]" by (simp add: ring_def c)
  show "last (ring c) = base" by (simp add: ring)
  have "sorted_wrt ring_before (replicate m 0)"
    by (induction m) (auto simp: ring_before_def)
  moreover have "ring_before 0 base" by (auto simp: ring_before_def word_gt_0)
  ultimately have "sorted_wrt ring_before (ring c)" by (auto simp: ring sorted_wrt_append)
  moreover have f: "Events c = Map.empty" "MinEntryIndex c = 0" "LogSize c = n"
    "length (Log c) = n" "HeadLogIndex c = 0"
    by (simp_all add: c n)
  moreover have "sorted_wrt (\<lambda>a b. Events c a \<noteq> None \<longrightarrow> Events c b \<noteq> None) (ring c)"
    by (simp add: f)
  ultimately have "cache_inv c" using assms(1) by (simp add: cache_inv_def)
  then show "replayable base [] c"
    by (auto simp: replayable_def history_def ring f)
qed

lemma ring_overwrite_last: "ring_overwrite c e c' \<Longrightarrow> last (ring c') = cs_Index e"
  by (simp add: ring_overwrite_def)

text \<open>The accepted change sets form a chain: each one names its predecessor's index.\<close>

fun linked :: "u64 \<Rightarrow> 'e change_set list \<Rightarrow> bool" where
  "linked prev [] \<longleftrightarrow> True"
| "linked prev (e # es) \<longleftrightarrow>
     cs_PreviousIndex e = prev \<and> prev < cs_Index e \<and> linked (cs_Index e) es"

lemma cache_run_Cons_cases:
  assumes "cache_inv c" and "cache_run c (e # evs) = (c', acc')"
  obtains (skip) "cache_run c evs = (c', acc')"
  | (store) e1 c1 acc2 where "e1 = e\<lparr>cs_PreviousIndex := last (ring c)\<rparr>"
      "last (ring c) < cs_Index e" "ring_overwrite c e1 c1"
      "cache_run c1 evs = (c', acc2)" "acc' = e1 # acc2"
proof -
  note cur = currentIndex_ring [OF assms(1)]
  consider "cs_IsSynthetic e" | "\<not> cs_IsSynthetic e" "cs_Index e \<le> last (ring c)"
    | "\<not> cs_IsSynthetic e" "last (ring c) < cs_Index e" by force
  then show thesis
  proof cases
    case 1
    then have "cache_run c evs = (c', acc')"
      using assms(2) by (cases "cache_run c evs") (simp add: Store_def storeLocked_def)
    then show thesis by (rule skip)
  next
    case 2
    then have "Store c e = Inl (OutOfOrderEvent (last (ring c)) (cs_Index e))"
      by (simp add: Store_def storeLocked_def cur)
    then have "cache_run c evs = (c', acc')" using assms(2) by simp
    then show thesis by (rule skip)
  next
    case 3
    obtain c1 where st: "storeLocked c e = Inr (c1, cs_Index e, e\<lparr>cs_PreviousIndex := last (ring c)\<rparr>)"
      and ow: "ring_overwrite c (e\<lparr>cs_PreviousIndex := last (ring c)\<rparr>) c1"
      using storeLocked_accepts [OF assms(1) 3] by blast
    obtain acc2 where "cache_run c1 evs = (c', acc2)"
      "acc' = e\<lparr>cs_PreviousIndex := last (ring c)\<rparr> # acc2"
      using assms(2) 3(1) by (cases "cache_run c1 evs") (simp add: Store_def st)
    then show thesis using store [OF refl 3(2) ow] by blast
  qed
qed

lemma cache_run_replayable:
  assumes "replayable base acc c" and "cache_run c evs = (c', acc')"
    and "last (ring c) \<noteq> - 1" and "\<forall>e \<in> set evs. cs_Index e \<noteq> - 1"
  shows "replayable base (acc @ acc') c' \<and> last (ring c') \<noteq> - 1 \<and>
    linked (last (ring c)) acc' \<and> last (ring c') = last (last (ring c) # map cs_Index acc') \<and>
    LogSize c' = LogSize c"
  using assms
proof (induction evs arbitrary: acc c acc')
  case Nil
  then show ?case by simp
next
  case (Cons e evs)
  note R = replayableD [OF Cons.prems(1)]
  from R(1) Cons.prems(2) show ?case
  proof (cases rule: cache_run_Cons_cases)
    case skip
    then show ?thesis using Cons.IH [OF Cons.prems(1) _ Cons.prems(3)] Cons.prems(4)
      by (metis list.set_intros(2))
  next
    case (store e1 c1 acc2)
    then have e1: "cs_Index e1 = cs_Index e" "cs_PreviousIndex e1 = last (ring c)" by simp_all
    have r1: "replayable base (acc @ [e1]) c1"
      using replayable_overwrite [OF Cons.prems(1) _ store(3)] store(2) e1 by simp
    have l1: "last (ring c1) = cs_Index e1" "LogSize c1 = LogSize c"
      using ring_overwrite_last [OF store(3)] store(3) by (simp_all add: ring_overwrite_def)
    then have "last (ring c1) \<noteq> - 1" using e1 Cons.prems(4) by simp
    from Cons.IH [OF r1 store(4) this] Cons.prems(4) l1 e1 store(2,5) show ?thesis
      by (auto split: if_splits)
  qed
qed

lemma history_length:
  assumes "replayable base acc c"
  shows "min (LogSize c) (length acc) \<le> length (history c)"
proof (cases "\<forall>k \<in> set (ring c). Events c k \<noteq> None")
  case True
  then have "length (history c) = length (ring c)" by (simp add: history_def)
  moreover have "length (ring c) = LogSize c"
    using replayableD(1) [OF assms] by (simp add: cache_inv_def ring_def)
  ultimately show ?thesis by simp
next
  case False
  then have "acc = history c" using assms unfolding replayable_def by blast
  then show ?thesis by simp
qed

lemma recent_retained:
  assumes r: "replayable base acc c" and e: "e \<in> set (drop (length acc - LogSize c) acc)"
  shows "MinEntryIndex c \<le> cs_Index e"
proof -
  obtain dropped where acc: "acc = dropped @ history c"
    using r unfolding replayable_def by blast
  have "length dropped \<le> length acc - LogSize c"
    using history_length [OF r] acc by simp
  then have "set (drop (length acc - LogSize c) acc) \<subseteq> set (history c)"
    unfolding acc by (simp add: set_drop_subset)
  then show ?thesis using e r unfolding replayable_def by blast
qed

section \<open>Properties\<close>

text \<open>
  C10. A replay is exact. Take a new cache of positive size whose index is set once, to the index \<open>base\<close> of
  the data it starts from, and then any sequence of change sets offered to it. For an index that is not
  ahead of the newest one, \<open>ReplayFrom\<close> always returns; it answers with the accepted change sets from the
  requested index on, all of them and in order, or else asks for a full sync with the empty list, because
  a change set from that index on may have been forgotten. Only indexes above \<open>base\<close> are ever answered,
  and the last \<open>n\<close> accepted change sets always are.
\<close>

theorem ReplayFrom_complete:
  assumes "0 < n" and "SetCurrentIndex (NewLoggingEventCache n) base = Inr c0"
    and "cache_run c0 evs = (c, acc)" and "base \<noteq> - 1" and "\<forall>e \<in> set evs. cs_Index e \<noteq> - 1"
    and "s \<le> last (base # map cs_Index acc)"
  shows "ReplayFrom c s = Some (Inr (
        if acc = [] \<or> s < MinEntryIndex c then ([], ReplayResultFullSyncRequired)
        else (map Some (filter (\<lambda>e. s \<le> cs_Index e) acc), ReplayResultSuccess))) \<and>
    (acc \<noteq> [] \<longrightarrow> base < MinEntryIndex c) \<and>
    (\<forall>e \<in> set (drop (length acc - n) acc). MinEntryIndex c \<le> cs_Index e)"
proof -
  note S = replayable_start [OF assms(1,2)]
  have "LogSize c0 = n"
    using assms(1,2) by (auto simp: SetCurrentIndex_def NewLoggingEventCache_def Let_def)
  then have r: "replayable base acc c" and l: "last (ring c) \<noteq> - 1"
    and h: "last (ring c) = last (base # map cs_Index acc)" and n: "LogSize c = n"
    using cache_run_replayable [OF S(1) assms(3)] S(2) assms(4,5) by (metis append_Nil)+
  have "\<not> last (ring c) < s" using assms(6) by (simp only: h not_less)
  then show ?thesis
    using ReplayFrom_exact [OF r l, of s] recent_retained [OF r] n r
    unfolding if_not_P [OF \<open>\<not> last (ring c) < s\<close>] replayable_def by blast
qed

text \<open>
  C11. Gap detection is sound: the accepted change sets have strictly increasing indexes above
  \<open>base\<close>, and each carries the index of the one accepted before it (\<open>base\<close> for the first) as its
  previous index. The cache's current index is that of the newest accepted change set.
\<close>

theorem Store_linked:
  assumes "0 < n" and "SetCurrentIndex (NewLoggingEventCache n) base = Inr c0"
    and "cache_run c0 evs = (c, acc)" and "base \<noteq> - 1" and "\<forall>e \<in> set evs. cs_Index e \<noteq> - 1"
  shows "linked base acc \<and> CurrentIndex c = Inr (last (base # map cs_Index acc))"
proof -
  note S = replayable_start [OF assms(1,2)]
  have "replayable base acc c" "linked base acc" "last (ring c) = last (base # map cs_Index acc)"
    using cache_run_replayable [OF S(1) assms(3)] S(2) assms(4,5) by simp_all
  then show ?thesis
    using currentIndex_ring [OF replayableD(1)] by (metis CurrentIndex_def)
qed

text \<open>A log of three slots started at index 10, offered four changes and a stale one.\<close>

definition sample_change :: "u64 \<Rightarrow> unit change_set" where
  "sample_change i = \<lparr>cs_Index = i, cs_PreviousIndex = 0, cs_IsSynthetic = False, cs_Changes = []\<rparr>"

definition sample_cache :: "unit event_cache" where
  "sample_cache = \<lparr>HeadLogIndex = 0, MinEntryIndex = 0, LogSize = 3, Log = [10, 0, 0], Events = Map.empty\<rparr>"

definition sample_changes :: "unit change_set list" where
  "sample_changes = map sample_change [11, 12, 12, 14, 15]"

lemmas sample_defs = sample_change_def sample_cache_def sample_changes_def

lemma sample_start: "SetCurrentIndex (NewLoggingEventCache 3) 10 = Inr sample_cache"
  by (simp add: SetCurrentIndex_def NewLoggingEventCache_def sample_cache_def Let_def numeral_3_eq_3)

theorem ReplayFrom_complete_witness:
  "ReplayFrom (fst (cache_run sample_cache sample_changes)) 13 =
     Some (Inr (map Some (filter (\<lambda>e. 13 \<le> cs_Index e) (snd (cache_run sample_cache sample_changes))),
                ReplayResultSuccess)) \<and>
   map cs_Index (snd (cache_run sample_cache sample_changes)) = [11, 12, 14, 15]"
proof -
  have run: "map cs_Index (snd (cache_run sample_cache sample_changes)) = [11, 12, 14, 15]"
    and min: "MinEntryIndex (fst (cache_run sample_cache sample_changes)) = 12"
    by (simp_all add: sample_defs Store_def storeLocked_def currentIndex_def Let_def)
  have ne: "snd (cache_run sample_cache sample_changes) \<noteq> []" using run by auto
  have "\<forall>e \<in> set sample_changes. cs_Index e \<noteq> - 1" by (simp add: sample_defs)
  from ReplayFrom_complete [OF _ sample_start prod.collapse [symmetric] _ this, of 13]
  show ?thesis using run min ne by (simp add: last_map [symmetric])
qed

theorem Store_linked_witness:
  "linked 10 (snd (cache_run sample_cache sample_changes))"
proof -
  have "\<forall>e \<in> set sample_changes. cs_Index e \<noteq> - 1" by (simp add: sample_defs)
  from Store_linked [OF _ sample_start prod.collapse [symmetric] _ this]
  show ?thesis by simp
qed

end
