(* ===== verification/Link_Manager.thy ===== *)
theory Link_Manager
  imports Ziti_Prelude
begin

text \<open>
  The controller's view of routers and links: \<^verbatim>\<open>controller/model/link_model.go\<close>,
  \<^verbatim>\<open>controller/model/link_manager.go\<close>, the connection registry and the \<open>RouterLinks\<close> index of
  \<^verbatim>\<open>controller/model/router_manager.go\<close>, and the operations of \<^verbatim>\<open>controller/network/network.go\<close> and
  \<^verbatim>\<open>controller/network/assembly.go\<close> that change them.

  Routers and links are shared mutable objects compared by identity, so they live in two heaps and
  the tables hold addresses. An operation of the source that runs under the connect lock of a router
  is one step of the model.
\<close>

section \<open>Links\<close>

datatype link_mode = LinkConnected | LinkFailed | LinkDuplicate

record link_state =
  ls_Mode :: link_mode
  ls_Timestamp :: int

record conn_state =
  cs_StateIteration :: u32
  cs_Conns :: "(string \<times> string \<times> string) list"

record link =
  l_Id :: string
  l_SrcLatency :: int
  l_DstLatency :: int
  l_Cost :: int
  l_Iteration :: u32
  l_Src :: nat
  l_DstId :: string
  l_Dst :: "nat option"
  l_Protocol :: string
  l_DialAddress :: string
  l_state :: link_state
  l_down :: bool
  l_StaticCost :: int
  l_connState :: "conn_state option"
  l_usable :: bool

definition RecalculateCost :: "link \<Rightarrow> link" where
  "RecalculateCost l =
     l\<lparr>l_Cost := wrap64 (wrap64 (l_StaticCost l + l_SrcLatency l sdiv 1000000) + l_DstLatency l sdiv 1000000)\<rparr>"

definition recalculateUsable :: "link \<Rightarrow> link" where
  "recalculateUsable l =
     (if l_down l then l\<lparr>l_usable := False\<rparr>
      else if ls_Mode (l_state l) \<noteq> LinkConnected then l\<lparr>l_usable := False\<rparr>
      else l\<lparr>l_usable := True\<rparr>)"

definition newLink :: "string \<Rightarrow> string \<Rightarrow> string \<Rightarrow> int \<Rightarrow> int \<Rightarrow> link" where
  "newLink lid linkProtocol dialAddress initialLatency now =
     recalculateUsable (RecalculateCost
       \<lparr>l_Id = lid, l_SrcLatency = initialLatency, l_DstLatency = initialLatency, l_Cost = 0,
        l_Iteration = 0, l_Src = 0, l_DstId = '''', l_Dst = None, l_Protocol = linkProtocol,
        l_DialAddress = dialAddress, l_state = \<lparr>ls_Mode = LinkConnected, ls_Timestamp = now\<rparr>,
        l_down = False, l_StaticCost = 1, l_connState = None, l_usable = False\<rparr>)"

definition SetState :: "link_mode \<Rightarrow> int \<Rightarrow> link \<Rightarrow> link" where
  "SetState m now l = recalculateUsable (l\<lparr>l_state := \<lparr>ls_Mode = m, ls_Timestamp = now\<rparr>\<rparr>)"

text \<open>A missing state has iteration zero, the value of the getter on a nil message.\<close>

definition SetConnsState :: "conn_state option \<Rightarrow> link \<Rightarrow> link" where
  "SetConnsState state l =
     (case l_connState l of
        None \<Rightarrow> l\<lparr>l_connState := state\<rparr>
      | Some current \<Rightarrow>
          if (case state of None \<Rightarrow> 0 | Some s \<Rightarrow> cs_StateIteration s) > cs_StateIteration current
          then l\<lparr>l_connState := state\<rparr> else l)"

definition SetDown :: "bool \<Rightarrow> link \<Rightarrow> link" where
  "SetDown down l = recalculateUsable (l\<lparr>l_down := down\<rparr>)"

definition SetStaticCost :: "int \<Rightarrow> link \<Rightarrow> link" where
  "SetStaticCost cost l = RecalculateCost (l\<lparr>l_StaticCost := cost\<rparr>)"

definition SetSrcLatency :: "int \<Rightarrow> link \<Rightarrow> link" where
  "SetSrcLatency latency l = RecalculateCost (l\<lparr>l_SrcLatency := latency\<rparr>)"

definition SetDstLatency :: "int \<Rightarrow> link \<Rightarrow> link" where
  "SetDstLatency latency l = RecalculateCost (l\<lparr>l_DstLatency := latency\<rparr>)"

section \<open>Routers and their link index\<close>

record router =
  r_Id :: string
  r_Connected :: bool
  r_Cost :: u16
  r_NoTraversal :: bool
  r_hasControl :: bool
  r_ctrlClosed :: bool
  r_allLinks :: "nat list"
  r_linkByRouter :: "string \<Rightarrow> nat list"

definition RouterLinks_Add :: "nat \<Rightarrow> string \<Rightarrow> router \<Rightarrow> router" where
  "RouterLinks_Add a other r =
     r\<lparr>r_allLinks := r_allLinks r @ [a],
       r_linkByRouter := (r_linkByRouter r)(other := a # r_linkByRouter r other)\<rparr>"

definition RouterLinks_Remove :: "nat \<Rightarrow> string \<Rightarrow> router \<Rightarrow> router" where
  "RouterLinks_Remove a other r =
     r\<lparr>r_allLinks := filter (\<lambda>l. a \<noteq> l) (r_allLinks r),
       r_linkByRouter := (r_linkByRouter r)(other := filter (\<lambda>l. l \<noteq> a) (r_linkByRouter r other))\<rparr>"

definition RouterLinks_Clear :: "router \<Rightarrow> router" where
  "RouterLinks_Clear r = r\<lparr>r_allLinks := [], r_linkByRouter := (\<lambda>_. [])\<rparr>"

section \<open>The network state\<close>

record net =
  net_routers :: "nat \<Rightarrow> router"
  net_links :: "nat \<Rightarrow> link"
  net_next :: nat
  linkTable :: "nat cmap"
  connected :: "nat cmap"
  initialLatency :: int

definition mod_router :: "nat \<Rightarrow> (router \<Rightarrow> router) \<Rightarrow> net \<Rightarrow> net" where
  "mod_router r f n = n\<lparr>net_routers := (net_routers n)(r := f (net_routers n r))\<rparr>"

definition mod_link :: "nat \<Rightarrow> (link \<Rightarrow> link) \<Rightarrow> net \<Rightarrow> net" where
  "mod_link a f n = n\<lparr>net_links := (net_links n)(a := f (net_links n a))\<rparr>"

abbreviation router_id :: "net \<Rightarrow> nat \<Rightarrow> string" where
  "router_id n r \<equiv> r_Id (net_routers n r)"

subsection \<open>RouterManager\<close>

definition GetConnected :: "net \<Rightarrow> string \<Rightarrow> nat option" where
  "GetConnected n i = map_of (connected n) i"

definition IsConnected :: "net \<Rightarrow> string \<Rightarrow> bool" where
  "IsConnected n i \<longleftrightarrow> map_of (connected n) i \<noteq> None"

definition AllConnected :: "net \<Rightarrow> nat list" where
  "AllConnected n = map snd (connected n)"

definition MarkConnected :: "nat \<Rightarrow> net \<Rightarrow> net" where
  "MarkConnected r n =
     (let n1 = mod_router r (\<lambda>x. x\<lparr>r_Connected := True\<rparr>) n
      in n1\<lparr>connected := AList.update (router_id n1 r) r (connected n1)\<rparr>)"

definition MarkDisconnected :: "nat \<Rightarrow> net \<Rightarrow> net" where
  "MarkDisconnected r n =
     (let (m, removed) = cmap_remove_cb (connected n) (router_id n r) (\<lambda>v. v = Some r)
      in if removed
         then mod_router r RouterLinks_Clear
                (mod_router r (\<lambda>x. x\<lparr>r_Connected := False\<rparr>) (n\<lparr>connected := m\<rparr>))
         else n)"

subsection \<open>LinkManager\<close>

definition linkTable_remove :: "nat \<Rightarrow> net \<Rightarrow> net \<times> bool" where
  "linkTable_remove a n =
     (let (m, removed) = cmap_remove_cb (linkTable n) (l_Id (net_links n a))
            (\<lambda>v. case v of None \<Rightarrow> False
                          | Some b \<Rightarrow> l_Iteration (net_links n b) = l_Iteration (net_links n a))
      in (n\<lparr>linkTable := m\<rparr>, removed))"

definition Link_Get :: "net \<Rightarrow> string \<Rightarrow> nat option" where
  "Link_Get n lid = map_of (linkTable n) lid"

definition Link_has :: "net \<Rightarrow> nat \<Rightarrow> bool" where
  "Link_has n a \<longleftrightarrow> map_of (linkTable n) (l_Id (net_links n a)) \<noteq> None"

definition Link_All :: "net \<Rightarrow> nat list" where
  "Link_All n = map snd (linkTable n)"

definition LinksInMode :: "net \<Rightarrow> link_mode \<Rightarrow> nat list" where
  "LinksInMode n m = filter (\<lambda>a. ls_Mode (l_state (net_links n a)) = m) (map snd (linkTable n))"

definition Link_Add :: "nat \<Rightarrow> net \<Rightarrow> net" where
  "Link_Add a n =
     (let l = net_links n a;
          n1 = n\<lparr>linkTable := AList.update (l_Id l) a (linkTable n)\<rparr>;
          n2 = mod_router (l_Src l) (RouterLinks_Add a (l_DstId l)) n1
      in case l_Dst l of
           None \<Rightarrow> n2
         | Some d \<Rightarrow> mod_router d (RouterLinks_Add a (router_id n (l_Src l))) n2)"

definition Link_Remove :: "nat \<Rightarrow> net \<Rightarrow> net" where
  "Link_Remove a n =
     (let l = net_links n a; (n1, removed) = linkTable_remove a n
      in if removed
         then let n2 = mod_router (l_Src l) (RouterLinks_Remove a (l_DstId l)) n1
              in case l_Dst l of
                   None \<Rightarrow> n2
                 | Some d \<Rightarrow> mod_router d (RouterLinks_Remove a (router_id n (l_Src l))) n2
         else n1)"

primrec build_router_links :: "nat \<Rightarrow> nat list \<Rightarrow> net \<Rightarrow> net" where
  "build_router_links r [] n = n"
| "build_router_links r (a # as) n =
     build_router_links r as
       (if l_DstId (net_links n a) = router_id n r
        then mod_link a (\<lambda>l. l\<lparr>l_Dst := Some r\<rparr>)
               (mod_router r (RouterLinks_Add a (router_id n (l_Src (net_links n a)))) n)
        else n)"

definition BuildRouterLinks :: "nat \<Rightarrow> net \<Rightarrow> net" where
  "BuildRouterLinks r n = build_router_links r (map snd (linkTable n)) n"

definition remove_links :: "nat list \<Rightarrow> net \<Rightarrow> net" where
  "remove_links as n = fold Link_Remove as n"

definition ScanForDeadLinks :: "net \<Rightarrow> net" where
  "ScanForDeadLinks n =
     remove_links (filter (\<lambda>a. \<not> r_Connected (net_routers n (l_Src (net_links n a)))) (map snd (linkTable n))) n"

record reported_link =
  rl_Id :: string
  rl_LinkProtocol :: string
  rl_DialAddress :: string
  rl_DestRouterId :: string
  rl_Iteration :: u32
  rl_ConnState :: "conn_state option"

definition RouterReportedLink ::
  "reported_link \<Rightarrow> nat \<Rightarrow> nat option \<Rightarrow> int \<Rightarrow> net \<Rightarrow> net \<times> nat \<times> bool" where
  "RouterReportedLink rep src dst now n =
     (let create = (\<lambda>n0.
            let a = net_next n0;
                l = newLink (rl_Id rep) (rl_LinkProtocol rep) (rl_DialAddress rep) (initialLatency n0) now;
                l1 = l\<lparr>l_Iteration := rl_Iteration rep, l_Src := src, l_Dst := dst,
                       l_DstId := rl_DestRouterId rep\<rparr>;
                l2 = SetConnsState (rl_ConnState rep) (SetState LinkConnected now l1);
                n1 = n0\<lparr>net_links := (net_links n0)(a := l2), net_next := a + 1\<rparr>
            in (Link_Add a n1, a, True))
      in case Link_Get n (rl_Id rep) of
           Some b \<Rightarrow>
             if l_Iteration (net_links n b) \<ge> rl_Iteration rep then (n, b, False)
             else create (Link_Remove b n)
         | None \<Rightarrow> create n)"

text \<open>
  The neighbour map is keyed by router id, a later link overwriting an earlier one; the loop that
  collects its values visits the map in the order of \<open>rank\<close>.
\<close>

definition neighbor_step :: "net \<Rightarrow> nat \<Rightarrow> nat \<Rightarrow> nat cmap \<Rightarrow> nat cmap" where
  "neighbor_step n r a m =
     (let l = net_links n a
      in case l_Dst l of
           None \<Rightarrow> m
         | Some d \<Rightarrow>
             if r_Connected (net_routers n d) \<and> l_usable l then
               let m1 = (if router_id n (l_Src l) \<noteq> router_id n r
                         then AList.update (router_id n (l_Src l)) (l_Src l) m else m)
               in if l_DstId l \<noteq> router_id n r then AList.update (l_DstId l) d m1 else m1
             else m)"

definition ConnectedNeighborsOfRouter :: "(string \<times> nat \<Rightarrow> nat) \<Rightarrow> net \<Rightarrow> nat \<Rightarrow> nat list" where
  "ConnectedNeighborsOfRouter rank n r =
     map snd (range_order rank (fold (neighbor_step n r) (r_allLinks (net_routers n r)) []))"

definition least_step :: "net \<Rightarrow> nat \<Rightarrow> nat \<Rightarrow> nat option \<times> int \<Rightarrow> nat option \<times> int" where
  "least_step n b a best =
     (let l = net_links n a; (selected, cost) = best
      in if l_usable l then
           if l_DstId l = router_id n b then if l_Cost l < cost then (Some a, l_Cost l) else best
           else if router_id n (l_Src l) = router_id n b then if l_Cost l < cost then (Some a, l_Cost l) else best
           else best
         else best)"

definition LeastExpensiveLink :: "net \<Rightarrow> nat \<Rightarrow> nat \<Rightarrow> nat option" where
  "LeastExpensiveLink n a b =
     fst (fold (least_step n b) (r_linkByRouter (net_routers n a) (router_id n b)) (None, maxInt64))"

subsection \<open>Network\<close>

datatype connect_error = ErrConnectRejected | ErrConnectChannelClosed

definition isCurrentConnection :: "net \<Rightarrow> nat \<Rightarrow> bool" where
  "isCurrentConnection n r \<longleftrightarrow> GetConnected n (router_id n r) = Some r \<and> r_Connected (net_routers n r)"

text \<open>
  Disconnecting returns the links whose circuits are to be rerouted, in the order the source starts
  their reroutes.
\<close>

primrec disconnect_links :: "nat \<Rightarrow> nat list \<Rightarrow> net \<Rightarrow> net \<times> nat list" where
  "disconnect_links r [] n = (n, [])"
| "disconnect_links r (a # as) n =
     (let wasConnected = (ls_Mode (l_state (net_links n a)) = LinkConnected);
          n1 = (if router_id n (l_Src (net_links n a)) = router_id n r then Link_Remove a n else n);
          (n2, rest) = disconnect_links r as n1
      in (n2, if wasConnected then a # rest else rest))"

definition DisconnectRouter :: "nat \<Rightarrow> net \<Rightarrow> net \<times> nat list" where
  "DisconnectRouter r n =
     (if \<not> isCurrentConnection n r then (n, [])
      else disconnect_links r (r_allLinks (net_routers n r)) (MarkDisconnected r n))"

definition displaceConnection :: "nat \<Rightarrow> net \<Rightarrow> net \<times> nat list" where
  "displaceConnection cur n =
     DisconnectRouter cur
       (mod_router cur (\<lambda>x. if r_hasControl x \<and> \<not> r_ctrlClosed x then x\<lparr>r_ctrlClosed := True\<rparr> else x) n)"

definition ConnectRouter :: "nat \<Rightarrow> net \<Rightarrow> net \<times> connect_error option \<times> nat list" where
  "ConnectRouter r n =
     (let accept = (if \<not> r_hasControl (net_routers n r) \<or> r_ctrlClosed (net_routers n r) then (n, Some ErrConnectChannelClosed, [])
                    else (MarkConnected r (BuildRouterLinks r n), None, []))
      in case GetConnected n (router_id n r) of
           None \<Rightarrow> accept
         | Some cur \<Rightarrow>
             if cur \<noteq> r then let (n', rer) = displaceConnection cur n in (n', Some ErrConnectRejected, rer)
             else accept)"

definition NotifyExistingLink :: "nat \<Rightarrow> reported_link \<Rightarrow> int \<Rightarrow> net \<Rightarrow> net \<times> (nat \<times> bool) option" where
  "NotifyExistingLink srcRouter rep now n =
     (case GetConnected n (router_id n srcRouter) of
        None \<Rightarrow> (n, None)
      | Some src \<Rightarrow>
          if src \<noteq> srcRouter \<or> \<not> r_Connected (net_routers n srcRouter) then (n, None)
          else
            let (n', a, created) = RouterReportedLink rep src (GetConnected n (rl_DestRouterId rep)) now n
            in (n', Some (a, created)))"

definition LinkFaulted :: "nat \<Rightarrow> int \<Rightarrow> net \<Rightarrow> net \<times> nat list" where
  "LinkFaulted a now n =
     (let wasUsable = l_usable (net_links n a);
          n1 = Link_Remove a (mod_link a (SetState LinkFailed now) n)
      in (n1, if wasUsable then [a] else []))"

text \<open>Removing a link by id: the routers a fault is sent to, and the links to reroute.\<close>

definition RemoveLink :: "string \<Rightarrow> net \<Rightarrow> net \<times> nat list \<times> nat list" where
  "RemoveLink lid n =
     (case Link_Get n lid of
        Some a \<Rightarrow>
          let l = net_links n a
          in (Link_Remove a n,
              filter (\<lambda>r. r_hasControl (net_routers n r))
                (case l_Dst l of None \<Rightarrow> [l_Src l] | Some d \<Rightarrow> [l_Src l, d]), [a])
      | None \<Rightarrow> (n, filter (\<lambda>r. r_hasControl (net_routers n r)) (AllConnected n), []))"

definition clean :: "int \<Rightarrow> net \<Rightarrow> net" where
  "clean now n =
     remove_links
       (filter (\<lambda>a. now - ls_Timestamp (l_state (net_links n a)) \<ge> 30000)
          (LinksInMode n LinkFailed @ LinksInMode n LinkDuplicate)) n"

text \<open>
  Metrics of a router: the latency and the queue time of its links, the means of the histograms
  converted to integers, are looked up by metric name.
\<close>

definition metric_step :: "(string \<Rightarrow> int option) \<Rightarrow> string \<Rightarrow> nat \<Rightarrow> net \<Rightarrow> net" where
  "metric_step hist rid a n =
     (let l = net_links n a
      in case hist (''link.'' @ l_Id l @ ''.latency'') of
           None \<Rightarrow> n
         | Some latency \<Rightarrow>
             let latencyCost = (case hist (''link.'' @ l_Id l @ ''.queue_time'') of
                                  None \<Rightarrow> latency | Some q \<Rightarrow> wrap64 (latency + q))
             in if router_id n (l_Src l) = rid then mod_link a (SetSrcLatency latencyCost) n
                else if l_DstId l = rid then mod_link a (SetDstLatency latencyCost) n
                else n)"

definition GetAllLinksForRouter :: "net \<Rightarrow> string \<Rightarrow> nat list" where
  "GetAllLinksForRouter n rid =
     (case GetConnected n rid of None \<Rightarrow> [] | Some r \<Rightarrow> r_allLinks (net_routers n r))"

text \<open>Metrics of the controller itself and of routers the database does not know are ignored.\<close>

definition AcceptMetricsMsg ::
  "string \<Rightarrow> (string \<Rightarrow> bool) \<Rightarrow> (string \<Rightarrow> int option) \<Rightarrow> string \<Rightarrow> net \<Rightarrow> net" where
  "AcceptMetricsMsg nodeId known hist sourceId n =
     (if sourceId = nodeId \<or> \<not> known sourceId then n
      else fold (metric_step hist sourceId) (GetAllLinksForRouter n sourceId) n)"

subsection \<open>Handlers\<close>

text \<open>
  The link report of a router: a full report first faults the links of the router that it does not
  name. The second component is the list of links to reroute.
\<close>

primrec fault_links :: "nat list \<Rightarrow> int \<Rightarrow> net \<Rightarrow> net \<times> nat list" where
  "fault_links [] now n = (n, [])"
| "fault_links (a # as) now n =
     (let (n1, rer) = LinkFaulted a now n; (n2, rest) = fault_links as now n1 in (n2, rer @ rest))"

primrec notify_links :: "nat \<Rightarrow> reported_link list \<Rightarrow> int \<Rightarrow> net \<Rightarrow> net" where
  "notify_links r [] now n = n"
| "notify_links r (rep # reps) now n = notify_links r reps now (fst (NotifyExistingLink r rep now n))"

definition HandleLinks :: "nat \<Rightarrow> bool \<Rightarrow> reported_link list \<Rightarrow> int \<Rightarrow> net \<Rightarrow> net \<times> nat list" where
  "HandleLinks r fullRefresh reps now n =
     (let toRemove = (if fullRefresh
            then filter (\<lambda>a. router_id n (l_Src (net_links n a)) = router_id n r \<and>
                             l_Id (net_links n a) \<notin> rl_Id ` set reps) (map snd (linkTable n))
            else []);
          (n1, rer) = fault_links toRemove now n
      in (notify_links r reps now n1, rer))"

text \<open>
  A link fault reported by router \<open>r\<close>: the new state, the links to reroute and the router the fault
  is forwarded to.
\<close>

definition handleFaultedLink ::
  "nat \<Rightarrow> string \<Rightarrow> u32 \<Rightarrow> int \<Rightarrow> net \<Rightarrow> net \<times> nat list \<times> nat option" where
  "handleFaultedLink r linkId iteration now n =
     (case Link_Get n linkId of
        None \<Rightarrow> (n, [], None)
      | Some a \<Rightarrow>
          let l = net_links n a
          in if iteration \<noteq> 0 \<and> l_Iteration l \<noteq> 0 \<and> iteration < l_Iteration l then (n, [], None)
             else
               let wasConnected = l_usable l;
                   (n1, rer) = LinkFaulted a now n;
                   other = (if router_id n (l_Src l) = router_id n r then l_Dst l else Some (l_Src l));
                   forward = (case other of
                                None \<Rightarrow> None
                              | Some o' \<Rightarrow>
                                  if wasConnected \<and> r_hasControl (net_routers n1 o') \<and> r_Connected (net_routers n1 o')
                                  then Some o' else None)
               in (n1, rer, forward))"

text \<open>
  The management call that changes a link: the new state and the links to reroute. The cost is the 32
  bit value the handler converts the requested cost to.
\<close>

definition PatchLink :: "string \<Rightarrow> int option \<Rightarrow> bool option \<Rightarrow> net \<Rightarrow> (net \<times> nat list) option" where
  "PatchLink lid staticCost down n =
     (case Link_Get n lid of
        None \<Rightarrow> None
      | Some a \<Rightarrow>
          let n1 = (case staticCost of None \<Rightarrow> n | Some c \<Rightarrow> mod_link a (SetStaticCost c) n);
              n2 = (case down of None \<Rightarrow> n1 | Some d \<Rightarrow> mod_link a (SetDown d) n1)
          in Some (n2, [a]))"

section \<open>The invariant\<close>

definition tab :: "net \<Rightarrow> nat set" where
  "tab n = ran (map_of (linkTable n))"

definition current :: "net \<Rightarrow> nat \<Rightarrow> bool" where
  "current n r \<longleftrightarrow> map_of (connected n) (router_id n r) = Some r"

definition table_ok :: "net \<Rightarrow> bool" where
  "table_ok n \<longleftrightarrow> distinct (map fst (linkTable n)) \<and>
     (\<forall>i a. map_of (linkTable n) i = Some a \<longrightarrow> l_Id (net_links n a) = i \<and> a < net_next n)"

definition conn_ok :: "net \<Rightarrow> bool" where
  "conn_ok n \<longleftrightarrow> distinct (map fst (connected n)) \<and>
     (\<forall>i r. map_of (connected n) i = Some r \<longrightarrow> router_id n r = i \<and> r_Connected (net_routers n r))"

text \<open>
  The links a router should have in its index under the id of another router: those it started to
  that router, and those that router started to it.
\<close>

definition index_links :: "net \<Rightarrow> nat \<Rightarrow> string \<Rightarrow> nat set" where
  "index_links n r k =
     {a \<in> tab n. l_Src (net_links n a) = r \<and> k = l_DstId (net_links n a) \<or>
                 l_DstId (net_links n a) = router_id n r \<and> k = router_id n (l_Src (net_links n a))}"

definition router_index :: "net \<Rightarrow> nat \<Rightarrow> bool" where
  "router_index n r \<longleftrightarrow>
     (if current n r
      then (\<forall>k. set (r_linkByRouter (net_routers n r) k) = index_links n r k) \<and>
           set (r_allLinks (net_routers n r)) = (\<Union>k. index_links n r k) \<and>
           (\<forall>a \<in> tab n. l_DstId (net_links n a) = router_id n r \<longrightarrow> l_Dst (net_links n a) = Some r)
      else (\<forall>k. r_linkByRouter (net_routers n r) k = []) \<and> r_allLinks (net_routers n r) = [])"

text \<open>The links of \<open>P\<close> are about to be removed: their source router may be gone already.\<close>

definition net_inv :: "nat set \<Rightarrow> net \<Rightarrow> bool" where
  "net_inv P n \<longleftrightarrow> table_ok n \<and> conn_ok n \<and> (\<forall>r. router_index n r) \<and>
     (\<forall>a \<in> tab n - P. current n (l_Src (net_links n a)))"

named_theorems net_simps \<open>what the primitive updates of the network state change\<close>

lemma mod_router_simps [net_simps]:
  "net_routers (mod_router r f n) = (net_routers n)(r := f (net_routers n r))"
  "net_links (mod_router r f n) = net_links n" "net_next (mod_router r f n) = net_next n"
  "linkTable (mod_router r f n) = linkTable n" "connected (mod_router r f n) = connected n"
  by (simp_all add: mod_router_def)

lemma mod_link_simps [net_simps]:
  "net_routers (mod_link a g n) = net_routers n"
  "net_links (mod_link a g n) = (net_links n)(a := g (net_links n a))"
  "net_next (mod_link a g n) = net_next n"
  "linkTable (mod_link a g n) = linkTable n" "connected (mod_link a g n) = connected n"
  by (simp_all add: mod_link_def)

lemma router_fields [net_simps]:
  "r_Id (RouterLinks_Add a k r) = r_Id r" "r_Connected (RouterLinks_Add a k r) = r_Connected r"
  "r_Id (RouterLinks_Remove a k r) = r_Id r" "r_Connected (RouterLinks_Remove a k r) = r_Connected r"
  "r_Id (RouterLinks_Clear r) = r_Id r" "r_Connected (RouterLinks_Clear r) = r_Connected r"
  by (simp_all add: RouterLinks_Add_def RouterLinks_Remove_def RouterLinks_Clear_def)

lemma index_sets [net_simps]:
  "set (r_allLinks (RouterLinks_Add a k r)) = insert a (set (r_allLinks r))"
  "set (r_allLinks (RouterLinks_Remove a k r)) = set (r_allLinks r) - {a}"
  "set (r_linkByRouter (RouterLinks_Add a k r) j) =
     (if j = k then insert a (set (r_linkByRouter r j)) else set (r_linkByRouter r j))"
  "set (r_linkByRouter (RouterLinks_Remove a k r) j) =
     (if j = k then set (r_linkByRouter r j) - {a} else set (r_linkByRouter r j))"
  by (auto simp: RouterLinks_Add_def RouterLinks_Remove_def)

lemma tab_iff: "table_ok n \<Longrightarrow> a \<in> tab n \<longleftrightarrow> map_of (linkTable n) (l_Id (net_links n a)) = Some a"
  unfolding tab_def ran_def table_ok_def by blast

text \<open>What removing a link leaves alone.\<close>

definition same_ids :: "net \<Rightarrow> net \<Rightarrow> bool" where
  "same_ids n n' \<longleftrightarrow> net_links n' = net_links n \<and> connected n' = connected n \<and> net_next n' = net_next n \<and>
     (\<forall>r. router_id n' r = router_id n r \<and> r_Connected (net_routers n' r) = r_Connected (net_routers n r))"

lemma current_same_ids: "same_ids n n' \<Longrightarrow> current n' r = current n r"
  by (simp add: same_ids_def current_def)

lemma Link_Remove_fields:
  assumes ok: "table_ok n" and a: "a \<in> tab n"
  shows "same_ids n (Link_Remove a n)"
    and "map_of (linkTable (Link_Remove a n)) = (map_of (linkTable n))(l_Id (net_links n a) := None)"
    and "distinct (map fst (linkTable (Link_Remove a n)))"
    and "net_routers (Link_Remove a n) r =
      (if l_Dst (net_links n a) = Some r then RouterLinks_Remove a (router_id n (l_Src (net_links n a))) else (\<lambda>x. x))
        ((if l_Src (net_links n a) = r then RouterLinks_Remove a (l_DstId (net_links n a)) else (\<lambda>x. x)) (net_routers n r))"
proof -
  have t: "map_of (linkTable n) (l_Id (net_links n a)) = Some a" using tab_iff [OF ok] a by simp
  have r: "linkTable_remove a n = (n\<lparr>linkTable := AList.delete (l_Id (net_links n a)) (linkTable n)\<rparr>, True)"
    using t by (simp add: linkTable_remove_def cmap_remove_cb_def)
  have d: "distinct (map fst (linkTable n))" using ok by (simp add: table_ok_def)
  show "same_ids n (Link_Remove a n)"
    by (simp add: Link_Remove_def r same_ids_def net_simps Let_def split: option.split)
  show "map_of (linkTable (Link_Remove a n)) = (map_of (linkTable n))(l_Id (net_links n a) := None)"
    by (simp add: Link_Remove_def r net_simps Let_def cm.get_remove split: option.split)
  show "distinct (map fst (linkTable (Link_Remove a n)))"
    using d by (simp add: Link_Remove_def r net_simps Let_def cm.invar_remove split: option.split)
  show "net_routers (Link_Remove a n) r =
      (if l_Dst (net_links n a) = Some r then RouterLinks_Remove a (router_id n (l_Src (net_links n a))) else (\<lambda>x. x))
        ((if l_Src (net_links n a) = r then RouterLinks_Remove a (l_DstId (net_links n a)) else (\<lambda>x. x)) (net_routers n r))"
    by (auto simp add: Link_Remove_def r net_simps Let_def split: option.split)
qed

lemma Link_Remove_absent:
  "map_of (linkTable n) (l_Id (net_links n a)) = None \<Longrightarrow> Link_Remove a n = n"
  by (simp add: Link_Remove_def linkTable_remove_def cmap_remove_cb_def)

lemma ran_delete:
  assumes "m k = Some a" and "\<And>i b. m i = Some b \<Longrightarrow> key b = i"
  shows "ran (m(k := None)) = ran m - {a}"
proof -
  have "(\<exists>i. (m(k := None)) i = Some b) \<longleftrightarrow> (\<exists>i. m i = Some b) \<and> b \<noteq> a" for b
    using assms by (metis fun_upd_other fun_upd_same option.distinct(1) option.inject)
  then show ?thesis unfolding ran_def by blast
qed

lemma Link_Remove_tab:
  assumes ok: "table_ok n" and a: "a \<in> tab n"
  shows "table_ok (Link_Remove a n)" and "tab (Link_Remove a n) = tab n - {a}"
proof -
  note F = Link_Remove_fields [OF ok a]
  have t: "\<forall>i b. map_of (linkTable n) i = Some b \<longrightarrow> l_Id (net_links n b) = i \<and> b < net_next n"
    using ok unfolding table_ok_def by blast
  then have "\<forall>i b. map_of (linkTable (Link_Remove a n)) i = Some b \<longrightarrow> l_Id (net_links n b) = i \<and> b < net_next n"
    unfolding F(2) fun_upd_apply by (metis option.distinct(1))
  then show "table_ok (Link_Remove a n)"
    using F(1,3) unfolding table_ok_def same_ids_def by metis
  have "map_of (linkTable n) (l_Id (net_links n a)) = Some a" using tab_iff [OF ok] a by simp
  then show "tab (Link_Remove a n) = tab n - {a}"
    unfolding tab_def F(2) using t by (intro ran_delete [where key = "\<lambda>b. l_Id (net_links n b)"]) blast+
qed

lemma index_sets_twice:
  "set (r_linkByRouter ((if p then RouterLinks_Remove a k1 else (\<lambda>x. x))
       ((if q then RouterLinks_Remove a k2 else (\<lambda>x. x)) x)) k) =
     set (r_linkByRouter x k) - {b. b = a \<and> (p \<and> k = k1 \<or> q \<and> k = k2)}"
  "set (r_allLinks ((if p then RouterLinks_Remove a k1 else (\<lambda>x. x))
       ((if q then RouterLinks_Remove a k2 else (\<lambda>x. x)) x))) =
     set (r_allLinks x) - {b. b = a \<and> (p \<or> q)}"
  by (auto simp: net_simps)

lemma index_links_remove:
  assumes "same_ids n n'" and "tab n' = tab n - {a}"
  shows "index_links n' r k = index_links n r k - {a}"
  using assms unfolding index_links_def same_ids_def by auto

lemma Link_Remove_index:
  assumes ok: "table_ok n" and a: "a \<in> tab n" and r: "router_index n r"
  shows "router_index (Link_Remove a n) r"
proof -
  let ?n = "Link_Remove a n" and ?l = "net_links n a"
  note F = Link_Remove_fields [OF ok a]
  note T = Link_Remove_tab [OF ok a]
  note I = index_links_remove [OF F(1) T(2)]
  show ?thesis
  proof (cases "current n r")
    case True
    then have bk: "\<And>k. set (r_linkByRouter (net_routers n r) k) = index_links n r k"
      and al: "set (r_allLinks (net_routers n r)) = (\<Union>k. index_links n r k)"
      and ds: "\<forall>b \<in> tab n. l_DstId (net_links n b) = router_id n r \<longrightarrow> l_Dst (net_links n b) = Some r"
      using r by (simp_all add: router_index_def)
    have key: "a \<in> index_links n r k \<Longrightarrow>
        l_Src ?l = r \<and> k = l_DstId ?l \<or> l_Dst ?l = Some r \<and> k = router_id n (l_Src ?l)" for k
      using ds a unfolding index_links_def by auto
    have "set (r_linkByRouter (net_routers ?n r) k) = index_links ?n r k" for k
      unfolding I F(4) index_sets_twice bk using key [of k] by blast
    moreover have "set (r_allLinks (net_routers ?n r)) = (\<Union>k. index_links ?n r k)"
    proof -
      have "a \<notin> (\<Union>k. index_links n r k)" if "l_Src ?l \<noteq> r" "l_Dst ?l \<noteq> Some r"
        using key that by blast
      then show ?thesis unfolding I F(4) index_sets_twice al by blast
    qed
    moreover have "\<forall>b \<in> tab ?n. l_DstId (net_links ?n b) = router_id ?n r \<longrightarrow> l_Dst (net_links ?n b) = Some r"
      using ds T(2) F(1) by (simp add: same_ids_def)
    ultimately show ?thesis
      using True current_same_ids [OF F(1), of r] by (simp add: router_index_def)
  next
    case False
    then have e: "r_allLinks (net_routers n r) = []" "\<And>k. r_linkByRouter (net_routers n r) k = []"
      using r by (simp_all add: router_index_def)
    then have "set (r_allLinks (net_routers ?n r)) = {}" "\<And>k. set (r_linkByRouter (net_routers ?n r) k) = {}"
      unfolding F(4) index_sets_twice by simp_all
    then show ?thesis
      using False current_same_ids [OF F(1), of r] by (simp add: router_index_def)
  qed
qed

lemma Link_Remove_inv:
  assumes inv: "net_inv P n" and a: "a \<in> tab n \<or> map_of (linkTable n) (l_Id (net_links n a)) = None"
  shows "net_inv P (Link_Remove a n)" and "same_ids n (Link_Remove a n)"
    and "tab (Link_Remove a n) = tab n - {a}"
    and "map_of (linkTable (Link_Remove a n)) = (map_of (linkTable n))(l_Id (net_links n a) := None)"
proof -
  have ok: "table_ok n" "conn_ok n" "\<forall>r. router_index n r"
    and P: "\<forall>b \<in> tab n - P. current n (l_Src (net_links n b))"
    using inv unfolding net_inv_def by blast+
  have "net_inv P (Link_Remove a n) \<and> same_ids n (Link_Remove a n) \<and> tab (Link_Remove a n) = tab n - {a} \<and>
    map_of (linkTable (Link_Remove a n)) = (map_of (linkTable n))(l_Id (net_links n a) := None)"
  proof (cases "a \<in> tab n")
    case True
    note F = Link_Remove_fields [OF ok(1) True] and T = Link_Remove_tab [OF ok(1) True]
    have "conn_ok (Link_Remove a n)" using ok(2) F(1) by (simp add: conn_ok_def same_ids_def)
    moreover have "\<forall>b \<in> tab (Link_Remove a n) - P. current (Link_Remove a n) (l_Src (net_links (Link_Remove a n) b))"
      using P T(2) current_same_ids [OF F(1)] F(1) by (simp add: same_ids_def)
    ultimately show ?thesis
      using F T Link_Remove_index [OF ok(1) True] ok(3) by (simp add: net_inv_def)
  next
    case False
    then have n: "map_of (linkTable n) (l_Id (net_links n a)) = None" using a by blast
    then show ?thesis
      using False inv Link_Remove_absent [OF n] by (auto simp: same_ids_def fun_upd_idem)
  qed
  then show "net_inv P (Link_Remove a n)" "same_ids n (Link_Remove a n)"
    "tab (Link_Remove a n) = tab n - {a}"
    "map_of (linkTable (Link_Remove a n)) = (map_of (linkTable n))(l_Id (net_links n a) := None)"
    by blast+
qed

subsection \<open>Removing several links\<close>

definition removable :: "net \<Rightarrow> nat \<Rightarrow> bool" where
  "removable n a \<longleftrightarrow> a \<in> tab n \<or> map_of (linkTable n) (l_Id (net_links n a)) = None"

lemma removable_step:
  assumes inv: "net_inv P n" and a: "removable n a" and b: "removable n b"
  shows "removable (Link_Remove a n) b"
proof -
  have ok: "table_ok n" using inv by (simp add: net_inv_def)
  note R = Link_Remove_inv [OF inv a [unfolded removable_def]]
  show ?thesis
    using b R(2-4) unfolding removable_def same_ids_def by (cases "b = a") auto
qed

lemma same_ids_trans: "same_ids n n1 \<Longrightarrow> same_ids n1 n2 \<Longrightarrow> same_ids n n2"
  by (simp add: same_ids_def)

lemma same_ids_refl [simp]: "same_ids n n"
  by (simp add: same_ids_def)

lemma remove_links_inv:
  assumes "net_inv P n" and "\<forall>a \<in> set as. removable n a"
  shows "net_inv P (remove_links as n) \<and> same_ids n (remove_links as n) \<and>
    tab (remove_links as n) = tab n - set as"
  using assms
proof (induction as arbitrary: n)
  case Nil
  then show ?case by (simp add: remove_links_def)
next
  case (Cons a as)
  have a: "removable n a" using Cons.prems(2) by simp
  note R = Link_Remove_inv [OF Cons.prems(1) a [unfolded removable_def]]
  have "\<forall>b \<in> set as. removable (Link_Remove a n) b"
    using removable_step [OF Cons.prems(1) a] Cons.prems(2) by simp
  from Cons.IH [OF R(1) this] R(2,3) show ?case
    by (auto simp: remove_links_def intro: same_ids_trans)
qed

lemma tab_removable: "a \<in> tab n \<Longrightarrow> removable n a"
  by (simp add: removable_def)

lemma tab_list: "table_ok n \<Longrightarrow> set (map snd (linkTable n)) = tab n"
  unfolding tab_def table_ok_def using cm.items_values by (metis list.set_map)

lemma disconnect_links_inv:
  assumes "net_inv P n" and "\<forall>a \<in> set as. removable n a"
  shows "net_inv P (fst (disconnect_links r as n)) \<and> same_ids n (fst (disconnect_links r as n)) \<and>
    tab (fst (disconnect_links r as n)) =
      tab n - {a \<in> set as. router_id n (l_Src (net_links n a)) = router_id n r}"
  using assms
proof (induction as arbitrary: n)
  case Nil
  then show ?case by simp
next
  case (Cons a as)
  define n1 where "n1 = (if router_id n (l_Src (net_links n a)) = router_id n r then Link_Remove a n else n)"
  have a: "removable n a" using Cons.prems(2) by simp
  note R = Link_Remove_inv [OF Cons.prems(1) a [unfolded removable_def]]
  have n1: "net_inv P n1" "same_ids n n1"
    "tab n1 = tab n - {b. b = a \<and> router_id n (l_Src (net_links n a)) = router_id n r}"
    using R Cons.prems(1) by (auto simp: n1_def)
  have "\<forall>b \<in> set as. removable n1 b"
    using removable_step [OF Cons.prems(1) a] Cons.prems(2) by (simp add: n1_def)
  note IH = Cons.IH [OF n1(1) this]
  have d: "fst (disconnect_links r (a # as) n) = fst (disconnect_links r as n1)"
    by (simp add: Let_def n1_def split: prod.split)
  have i: "router_id n1 x = router_id n x" "net_links n1 = net_links n" for x
    using n1(2) by (simp_all add: same_ids_def)
  show ?case
    unfolding d using IH n1(2,3) unfolding i by (auto intro: same_ids_trans)
qed

subsection \<open>Updates that keep the shape of the network\<close>

definition same_shape :: "net \<Rightarrow> net \<Rightarrow> bool" where
  "same_shape n n' \<longleftrightarrow> linkTable n' = linkTable n \<and> connected n' = connected n \<and> net_next n' = net_next n \<and>
     (\<forall>r. router_id n' r = router_id n r \<and> r_Connected (net_routers n' r) = r_Connected (net_routers n r) \<and>
          r_allLinks (net_routers n' r) = r_allLinks (net_routers n r) \<and>
          r_linkByRouter (net_routers n' r) = r_linkByRouter (net_routers n r)) \<and>
     (\<forall>a. l_Id (net_links n' a) = l_Id (net_links n a) \<and> l_Src (net_links n' a) = l_Src (net_links n a) \<and>
          l_DstId (net_links n' a) = l_DstId (net_links n a) \<and> l_Dst (net_links n' a) = l_Dst (net_links n a))"

lemma same_shape_refl [simp]: "same_shape n n"
  by (simp add: same_shape_def)

lemma same_shape_trans: "same_shape n n1 \<Longrightarrow> same_shape n1 n2 \<Longrightarrow> same_shape n n2"
  by (simp add: same_shape_def)

lemma same_shape_tab: "same_shape n n' \<Longrightarrow> tab n' = tab n \<and> (\<forall>a. removable n' a = removable n a)"
  by (simp add: same_shape_def tab_def removable_def)

lemma same_shape_inv:
  assumes "same_shape n n'" and "net_inv P n"
  shows "net_inv P n'"
proof -
  have t: "tab n' = tab n" and c: "\<And>r. current n' r = current n r"
    and i: "\<And>r k. index_links n' r k = index_links n r k"
    using assms(1) by (simp_all add: same_shape_def tab_def current_def index_links_def)
  have "router_index n' = router_index n"
    using assms(1) unfolding router_index_def t c i fun_eq_iff by (simp add: same_shape_def)
  moreover have "table_ok n' = table_ok n" "conn_ok n' = conn_ok n"
    "\<forall>a. l_Src (net_links n' a) = l_Src (net_links n a)"
    using assms(1) by (simp_all add: table_ok_def conn_ok_def same_shape_def)
  ultimately show ?thesis using assms(2) t c by (simp add: net_inv_def)
qed

lemma mod_link_shape:
  assumes "\<And>l. l_Id (g l) = l_Id l \<and> l_Src (g l) = l_Src l \<and> l_DstId (g l) = l_DstId l \<and> l_Dst (g l) = l_Dst l"
  shows "same_shape n (mod_link a g n)"
  using assms by (simp add: same_shape_def net_simps)

lemma link_setters_shape:
  "same_shape n (mod_link a (SetState m now) n)" "same_shape n (mod_link a (SetStaticCost c) n)"
  "same_shape n (mod_link a (SetDown d) n)" "same_shape n (mod_link a (SetSrcLatency t) n)"
  "same_shape n (mod_link a (SetDstLatency t) n)"
  by (rule mod_link_shape; simp add: SetState_def SetStaticCost_def SetDown_def SetSrcLatency_def
      SetDstLatency_def recalculateUsable_def RecalculateCost_def)+

subsection \<open>Adding a reported link\<close>

lemma index_sets_add_twice:
  "set (r_linkByRouter ((if p then RouterLinks_Add a k1 else (\<lambda>x. x))
       ((if q then RouterLinks_Add a k2 else (\<lambda>x. x)) x)) k) =
     set (r_linkByRouter x k) \<union> {b. b = a \<and> (p \<and> k = k1 \<or> q \<and> k = k2)}"
  "set (r_allLinks ((if p then RouterLinks_Add a k1 else (\<lambda>x. x))
       ((if q then RouterLinks_Add a k2 else (\<lambda>x. x)) x))) =
     set (r_allLinks x) \<union> {b. b = a \<and> (p \<or> q)}"
  by (auto simp: net_simps)

lemma Link_Add_fields:
  "net_links (Link_Add a n) = net_links n" "connected (Link_Add a n) = connected n"
  "net_next (Link_Add a n) = net_next n"
  "linkTable (Link_Add a n) = AList.update (l_Id (net_links n a)) a (linkTable n)"
  "router_id (Link_Add a n) r = router_id n r"
  "r_Connected (net_routers (Link_Add a n) r) = r_Connected (net_routers n r)"
  "net_routers (Link_Add a n) r =
    (if l_Dst (net_links n a) = Some r then RouterLinks_Add a (router_id n (l_Src (net_links n a))) else (\<lambda>x. x))
      ((if l_Src (net_links n a) = r then RouterLinks_Add a (l_DstId (net_links n a)) else (\<lambda>x. x)) (net_routers n r))"
  by (auto simp: Link_Add_def Let_def net_simps split: option.split)

lemma Link_Add_inv:
  assumes inv: "net_inv P n" and l: "map_of (linkTable n) (l_Id l) = None"
    and src: "current n (l_Src l)" and dst: "l_Dst l = map_of (connected n) (l_DstId l)"
    and n': "n' = Link_Add (net_next n) (n\<lparr>net_links := (net_links n)(net_next n := l), net_next := net_next n + 1\<rparr>)"
  shows "net_inv P n'"
proof -
  let ?a = "net_next n"
  let ?n1 = "n\<lparr>net_links := (net_links n)(?a := l), net_next := ?a + 1\<rparr>"
  have ok: "table_ok n" "conn_ok n" and ix: "\<And>r. router_index n r"
    and P: "\<forall>b \<in> tab n - P. current n (l_Src (net_links n b))"
    using inv unfolding net_inv_def by blast+
  have t: "\<forall>i b. map_of (linkTable n) i = Some b \<longrightarrow> l_Id (net_links n b) = i \<and> b < ?a"
    using ok(1) unfolding table_ok_def by blast
  have new: "?a \<notin> tab n" using t unfolding tab_def ran_def by blast
  note F = Link_Add_fields [where a = ?a and n = ?n1, folded n', simplified]
  have tab': "tab n' = insert ?a (tab n)"
    using l unfolding tab_def F(4) cm.get_put by simp
  have cur: "current n' r = current n r" for r unfolding current_def F(2,5) by simp
  have links: "b \<in> tab n \<Longrightarrow> net_links n' b = net_links n b" for b
    using new by (auto simp: F(1))
  have idx: "index_links n' r k = index_links n r k \<union>
      {b. b = ?a \<and> (l_Src l = r \<and> k = l_DstId l \<or> l_DstId l = router_id n r \<and> k = router_id n (l_Src l))}" for r k
    unfolding index_links_def tab' F(5) F(1) using new by auto
  have conn: "map_of (connected n) i = Some r \<Longrightarrow> router_id n r = i" for i r
    using ok(2) unfolding conn_ok_def by blast
  have dcur: "current n r \<Longrightarrow> l_Dst l = Some r \<longleftrightarrow> l_DstId l = router_id n r" for r
    using dst conn unfolding current_def by metis
  have "router_index n' r" for r
  proof (cases "current n r")
    case True
    note R = ix [of r, unfolded router_index_def, simplified True if_True]
    have "set (r_linkByRouter (net_routers n' r) k) = index_links n' r k" for k
      unfolding F(7) index_sets_add_twice idx using R dcur [OF True] by auto
    moreover have "set (r_allLinks (net_routers n' r)) = (\<Union>k. index_links n' r k)"
      unfolding F(7) index_sets_add_twice idx using R dcur [OF True] by auto
    moreover have "\<forall>b \<in> tab n'. l_DstId (net_links n' b) = router_id n' r \<longrightarrow> l_Dst (net_links n' b) = Some r"
      unfolding tab' F(5) using R dcur [OF True] links by (simp add: F(1))
    ultimately show ?thesis using True cur by (simp add: router_index_def)
  next
    case False
    have "l_Src l \<noteq> r" using src False by blast
    moreover have "l_Dst l \<noteq> Some r" using dst conn False unfolding current_def by metis
    ultimately have "net_routers n' r = net_routers n r" unfolding F(7) by simp
    then show ?thesis using ix [of r] False cur by (simp add: router_index_def)
  qed
  moreover have "table_ok n'"
    unfolding table_ok_def F(1,3,4) cm.get_put using t ok(1)
    by (auto simp: table_ok_def cm.invar_put less_SucI simp del: map_of_eq_Some_iff)
  moreover have "conn_ok n'" using ok(2) unfolding conn_ok_def F(2,5,6) .
  moreover have "\<forall>b \<in> tab n' - P. current n' (l_Src (net_links n' b))"
    using P src links unfolding tab' cur by (auto simp: F(1))
  ultimately show ?thesis by (simp add: net_inv_def)
qed

lemma SetConnsState_fields [simp]:
  "l_Id (SetConnsState s l) = l_Id l" "l_Src (SetConnsState s l) = l_Src l"
  "l_DstId (SetConnsState s l) = l_DstId l" "l_Dst (SetConnsState s l) = l_Dst l"
  "l_Iteration (SetConnsState s l) = l_Iteration l" "l_usable (SetConnsState s l) = l_usable l"
  by (simp_all add: SetConnsState_def split: option.split)

lemma SetState_fields [simp]:
  "l_Id (SetState m now l) = l_Id l" "l_Src (SetState m now l) = l_Src l"
  "l_DstId (SetState m now l) = l_DstId l" "l_Dst (SetState m now l) = l_Dst l"
  "l_Iteration (SetState m now l) = l_Iteration l"
  by (simp_all add: SetState_def recalculateUsable_def)

lemma newLink_Id [simp]: "l_Id (newLink i p d lat now) = i"
  by (simp add: newLink_def recalculateUsable_def RecalculateCost_def)

lemma RouterReportedLink_inv:
  assumes inv: "net_inv {} n" and src: "current n src" and dst: "dst = map_of (connected n) (rl_DestRouterId rep)"
  shows "net_inv {} (fst (RouterReportedLink rep src dst now n))"
proof -
  define l where "l n0 = SetConnsState (rl_ConnState rep) (SetState LinkConnected now
    ((newLink (rl_Id rep) (rl_LinkProtocol rep) (rl_DialAddress rep) (initialLatency n0) now)
      \<lparr>l_Iteration := rl_Iteration rep, l_Src := src, l_Dst := dst, l_DstId := rl_DestRouterId rep\<rparr>))"
    for n0 :: net
  have l: "l_Id (l n0) = rl_Id rep" "l_Src (l n0) = src" "l_Dst (l n0) = dst"
    "l_DstId (l n0) = rl_DestRouterId rep" for n0
    by (simp_all add: l_def)
  have add: "net_inv {} (Link_Add (net_next n0)
      (n0\<lparr>net_links := (net_links n0)(net_next n0 := l n0), net_next := net_next n0 + 1\<rparr>))"
    if "net_inv {} n0" "same_ids n n0" "map_of (linkTable n0) (rl_Id rep) = None" for n0
    using that src dst current_same_ids [OF that(2)]
    by (intro Link_Add_inv [where l = "l n0", OF that(1) _ _ _ refl]) (simp_all add: l same_ids_def)
  show ?thesis
  proof (cases "map_of (linkTable n) (rl_Id rep)")
    case None
    then show ?thesis
      using add [OF inv same_ids_refl] by (simp add: RouterReportedLink_def Link_Get_def Let_def l_def)
  next
    case (Some b)
    have ok: "table_ok n" using inv by (simp add: net_inv_def)
    have b: "b \<in> tab n" "l_Id (net_links n b) = rl_Id rep"
      using Some ok unfolding tab_def ran_def table_ok_def by blast+
    note R = Link_Remove_inv [OF inv disjI1 [OF b(1)]]
    have "map_of (linkTable (Link_Remove b n)) (rl_Id rep) = None" using R(4) b(2) by simp
    from add [OF R(1,2) this] show ?thesis
      using Some inv by (simp add: RouterReportedLink_def Link_Get_def Let_def l_def del: map_of_eq_Some_iff)
  qed
qed

lemma NotifyExistingLink_inv:
  assumes "net_inv {} n"
  shows "net_inv {} (fst (NotifyExistingLink r rep now n))"
proof (cases "GetConnected n (router_id n r) = Some r \<and> r_Connected (net_routers n r)")
  case True
  then have "net_inv {} (fst (RouterReportedLink rep r (map_of (connected n) (rl_DestRouterId rep)) now n))"
    using assms by (intro RouterReportedLink_inv) (simp_all add: current_def GetConnected_def)
  then show ?thesis
    using True
    by (cases "RouterReportedLink rep r (map_of (connected n) (rl_DestRouterId rep)) now n")
      (simp add: NotifyExistingLink_def GetConnected_def)
next
  case False
  then show ?thesis
    using assms by (auto simp: NotifyExistingLink_def split: option.split)
qed

lemma notify_links_inv: "net_inv {} n \<Longrightarrow> net_inv {} (notify_links r reps now n)"
  by (induction reps arbitrary: n) (simp_all add: NotifyExistingLink_inv)

subsection \<open>Connecting and disconnecting\<close>

lemma build_router_links_fields:
  "connected (build_router_links r as n) = connected n \<and> linkTable (build_router_links r as n) = linkTable n \<and>
   net_next (build_router_links r as n) = net_next n \<and>
   (\<forall>x. router_id (build_router_links r as n) x = router_id n x \<and>
        r_Connected (net_routers (build_router_links r as n) x) = r_Connected (net_routers n x) \<and>
        (x \<noteq> r \<longrightarrow> net_routers (build_router_links r as n) x = net_routers n x)) \<and>
   (\<forall>a. net_links (build_router_links r as n) a =
        (if a \<in> set as \<and> l_DstId (net_links n a) = router_id n r
         then (net_links n a)\<lparr>l_Dst := Some r\<rparr> else net_links n a)) \<and>
   set (r_allLinks (net_routers (build_router_links r as n) r)) =
     set (r_allLinks (net_routers n r)) \<union> {a \<in> set as. l_DstId (net_links n a) = router_id n r} \<and>
   (\<forall>k. set (r_linkByRouter (net_routers (build_router_links r as n) r) k) =
     set (r_linkByRouter (net_routers n r) k) \<union>
     {a \<in> set as. l_DstId (net_links n a) = router_id n r \<and> k = router_id n (l_Src (net_links n a))})"
proof (induction as arbitrary: n)
  case Nil
  then show ?case by simp
next
  case (Cons a as)
  define n1 where "n1 = (if l_DstId (net_links n a) = router_id n r
        then mod_link a (\<lambda>l. l\<lparr>l_Dst := Some r\<rparr>)
               (mod_router r (RouterLinks_Add a (router_id n (l_Src (net_links n a)))) n)
        else n)"
  have b: "build_router_links r (a # as) n = build_router_links r as n1" by (simp add: n1_def)
  have n1: "connected n1 = connected n" "linkTable n1 = linkTable n" "net_next n1 = net_next n"
    "\<And>x. router_id n1 x = router_id n x" "\<And>x. r_Connected (net_routers n1 x) = r_Connected (net_routers n x)"
    "\<And>x. x \<noteq> r \<Longrightarrow> net_routers n1 x = net_routers n x"
    "\<And>x. l_DstId (net_links n1 x) = l_DstId (net_links n x)" "\<And>x. l_Src (net_links n1 x) = l_Src (net_links n x)"
    "\<And>x. net_links n1 x = (if x = a \<and> l_DstId (net_links n a) = router_id n r
        then (net_links n x)\<lparr>l_Dst := Some r\<rparr> else net_links n x)"
    "set (r_allLinks (net_routers n1 r)) = set (r_allLinks (net_routers n r)) \<union>
        {x. x = a \<and> l_DstId (net_links n a) = router_id n r}"
    "\<And>k. set (r_linkByRouter (net_routers n1 r) k) = set (r_linkByRouter (net_routers n r) k) \<union>
        {x. x = a \<and> l_DstId (net_links n a) = router_id n r \<and> k = router_id n (l_Src (net_links n a))}"
    by (auto simp: n1_def net_simps)
  show ?case
    unfolding b using Cons.IH [of n1] unfolding n1(1-8,10,11) by (intro conjI allI) (auto simp: n1(6,9))
qed

lemma BuildRouterLinks_Mark_inv:
  assumes inv: "net_inv {} n" and slot: "map_of (connected n) (router_id n r) \<in> {None, Some r}"
  shows "net_inv {} (MarkConnected r (BuildRouterLinks r n))"
proof -
  let ?b = "BuildRouterLinks r n" and ?m = "MarkConnected r (BuildRouterLinks r n)"
  have ok: "table_ok n" "conn_ok n" and ix: "\<And>x. router_index n x"
    and P: "\<forall>a \<in> tab n. current n (l_Src (net_links n a))"
    using inv unfolding net_inv_def by blast+
  note B = build_router_links_fields [of r "map snd (linkTable n)" n, folded BuildRouterLinks_def,
      unfolded tab_list [OF ok(1)]]
  have m: "linkTable ?m = linkTable n" "net_next ?m = net_next n" "net_links ?m = net_links ?b"
    "\<And>x. router_id ?m x = router_id n x" "connected ?m = AList.update (router_id n r) r (connected n)"
    "\<And>x. r_Connected (net_routers ?m x) = (x = r \<or> r_Connected (net_routers n x))"
    "\<And>x. r_allLinks (net_routers ?m x) = r_allLinks (net_routers ?b x)"
    "\<And>x. r_linkByRouter (net_routers ?m x) = r_linkByRouter (net_routers ?b x)"
    using B by (auto simp: MarkConnected_def Let_def net_simps)
  have tab': "tab ?m = tab n" unfolding tab_def m(1) ..
  have lk: "l_Id (net_links ?m a) = l_Id (net_links n a)" "l_Src (net_links ?m a) = l_Src (net_links n a)"
    "l_DstId (net_links ?m a) = l_DstId (net_links n a)"
    "l_Dst (net_links ?m a) = (if a \<in> tab n \<and> l_DstId (net_links n a) = router_id n r
       then Some r else l_Dst (net_links n a))" for a
    using B unfolding m(3) by simp_all
  have idx: "index_links ?m x k = index_links n x k" for x k
    unfolding index_links_def tab' lk m(4) ..
  have cur: "current ?m x = (x = r \<or> current n x)" for x
    using slot unfolding current_def m(4,5) cm.get_put by auto
  have same_id: "x = r" if "current n x" "router_id n x = router_id n r" for x
    using slot that unfolding current_def by auto
  have "router_index ?m x" for x
  proof (cases "x = r")
    case True
    have old: "set (r_linkByRouter (net_routers n r) k) \<union>
        {a \<in> tab n. l_DstId (net_links n a) = router_id n r \<and> k = router_id n (l_Src (net_links n a))} =
        index_links n r k" for k
      using ix [of r] P unfolding router_index_def index_links_def by (cases "current n r") auto
    have all: "set (r_allLinks (net_routers n r)) \<union> {a \<in> tab n. l_DstId (net_links n a) = router_id n r} =
        (\<Union>k. index_links n r k)"
      using ix [of r] P unfolding router_index_def index_links_def by (cases "current n r") auto
    show ?thesis
      using True cur B old all tab' lk unfolding router_index_def idx m(4,7,8) by simp
  next
    case False
    then have "net_routers ?b x = net_routers n x" using B by blast
    then show ?thesis
      using ix [of x] False same_id [of x] cur [of x] unfolding router_index_def idx tab' m(4,7,8) lk by auto
  qed
  moreover have "table_ok ?m" using ok(1) unfolding table_ok_def m(1,2) lk .
  moreover have "conn_ok ?m"
    using ok(2) unfolding conn_ok_def m(4-6) cm.get_put by (auto simp: cm.invar_put simp del: map_of_eq_Some_iff)
  moreover have "\<forall>a \<in> tab ?m - {}. current ?m (l_Src (net_links ?m a))"
    using P unfolding tab' lk cur by blast
  ultimately show ?thesis by (simp add: net_inv_def)
qed

lemma current_unique:
  "current n x \<Longrightarrow> current n r \<Longrightarrow> router_id n x = router_id n r \<Longrightarrow> x = r"
  by (simp add: current_def)

lemma MarkDisconnected_inv:
  assumes inv: "net_inv {} n" and r: "current n r"
  shows "net_inv {a \<in> tab n. l_Src (net_links n a) = r} (MarkDisconnected r n)"
    and "tab (MarkDisconnected r n) = tab n" and "net_links (MarkDisconnected r n) = net_links n"
    and "\<And>x. router_id (MarkDisconnected r n) x = router_id n x"
proof -
  let ?m = "MarkDisconnected r n"
  have ok: "table_ok n" "conn_ok n" and ix: "\<And>x. router_index n x"
    and P: "\<forall>a \<in> tab n. current n (l_Src (net_links n a))"
    using inv unfolding net_inv_def by blast+
  have m: "linkTable ?m = linkTable n" "net_next ?m = net_next n" "net_links ?m = net_links n"
    "\<And>x. router_id ?m x = router_id n x" "connected ?m = AList.delete (router_id n r) (connected n)"
    "\<And>x. r_Connected (net_routers ?m x) = (x \<noteq> r \<and> r_Connected (net_routers n x))"
    "\<And>x. x \<noteq> r \<Longrightarrow> net_routers ?m x = net_routers n x"
    "r_allLinks (net_routers ?m r) = []" "r_linkByRouter (net_routers ?m r) = (\<lambda>_. [])"
    using r by (auto simp: MarkDisconnected_def cmap_remove_cb_def current_def net_simps RouterLinks_Clear_def Let_def)
  show tab': "tab ?m = tab n" "net_links ?m = net_links n" "\<And>x. router_id ?m x = router_id n x"
    unfolding tab_def m by simp_all
  have idx: "index_links ?m x k = index_links n x k" for x k
    unfolding index_links_def tab' m(4) ..
  have cur: "current ?m x = (x \<noteq> r \<and> current n x)" for x
    using r unfolding current_def m(4,5) cm.get_remove by auto
  have "router_index ?m x" for x
    using ix [of x] cur [of x] m(7) [of x] m(8,9)
    unfolding router_index_def idx tab' m(4) by (cases "x = r") auto
  moreover have "table_ok ?m" using ok(1) unfolding table_ok_def m(1-3) .
  moreover have "conn_ok ?m"
    using ok(2) unfolding conn_ok_def m(4-6) cm.get_remove
    by (auto simp: cm.invar_remove simp del: map_of_eq_Some_iff split: if_splits)
  moreover have "\<forall>a \<in> tab ?m - {a \<in> tab n. l_Src (net_links n a) = r}. current ?m (l_Src (net_links ?m a))"
    using P unfolding tab' cur by blast
  ultimately show "net_inv {a \<in> tab n. l_Src (net_links n a) = r} ?m" by (simp add: net_inv_def)
qed

lemma net_inv_done: "net_inv P n \<Longrightarrow> tab n \<inter> P = {} \<Longrightarrow> net_inv {} n"
  unfolding net_inv_def by blast

lemma DisconnectRouter_inv:
  assumes inv: "net_inv {} n"
  shows "net_inv {} (fst (DisconnectRouter r n))"
proof (cases "isCurrentConnection n r")
  case True
  then have r: "current n r" by (simp add: isCurrentConnection_def GetConnected_def current_def)
  note M = MarkDisconnected_inv [OF inv r]
  let ?as = "r_allLinks (net_routers n r)" and ?P = "{a \<in> tab n. l_Src (net_links n a) = r}"
  have ix: "router_index n r" using inv by (simp add: net_inv_def)
  have as: "set ?as = (\<Union>k. index_links n r k)" using ix r by (simp add: router_index_def)
  have "\<forall>a \<in> set ?as. removable (MarkDisconnected r n) a"
    unfolding as index_links_def removable_def M(2) by blast
  note D = disconnect_links_inv [OF M(1) this, of r]
  have "?P \<subseteq> set ?as" unfolding as index_links_def by blast
  then have "tab (fst (disconnect_links r ?as (MarkDisconnected r n))) \<inter> ?P = {}"
    using D unfolding M(2-4) by blast
  from net_inv_done [OF conjunct1 [OF D] this] show ?thesis
    using True by (simp add: DisconnectRouter_def)
next
  case False
  then show ?thesis using inv by (simp add: DisconnectRouter_def)
qed

lemma displaceConnection_inv:
  assumes "net_inv {} n"
  shows "net_inv {} (fst (displaceConnection cur n))"
proof -
  have "same_shape n (mod_router cur
      (\<lambda>x. if r_hasControl x \<and> \<not> r_ctrlClosed x then x\<lparr>r_ctrlClosed := True\<rparr> else x) n)"
    by (simp add: same_shape_def net_simps)
  from same_shape_inv [OF this assms] show ?thesis
    unfolding displaceConnection_def by (rule DisconnectRouter_inv)
qed

lemma ConnectRouter_inv:
  assumes "net_inv {} n"
  shows "net_inv {} (fst (ConnectRouter r n))"
  using assms displaceConnection_inv [OF assms] BuildRouterLinks_Mark_inv [OF assms, of r]
  by (auto simp: ConnectRouter_def GetConnected_def Let_def split: option.split prod.split)
    (metis fst_conv)+

subsection \<open>The other operations\<close>

lemma LinkFaulted_inv:
  assumes inv: "net_inv {} n" and a: "removable n a"
  shows "net_inv {} (fst (LinkFaulted a now n))"
    and "\<And>b. removable n b \<Longrightarrow> removable (fst (LinkFaulted a now n)) b"
proof -
  let ?n = "mod_link a (SetState LinkFailed now) n"
  note S = same_shape_inv [OF link_setters_shape(1) inv] same_shape_tab [OF link_setters_shape(1)]
  have a': "removable ?n a" using S(2) a by blast
  show "net_inv {} (fst (LinkFaulted a now n))"
    using Link_Remove_inv(1) [OF S(1) a' [unfolded removable_def]] by (simp add: LinkFaulted_def Let_def)
  show "removable (fst (LinkFaulted a now n)) b" if "removable n b" for b
    using removable_step [OF S(1) a'] S(2) that by (simp add: LinkFaulted_def Let_def)
qed

lemma fault_links_inv:
  "net_inv {} n \<Longrightarrow> \<forall>a \<in> set as. removable n a \<Longrightarrow> net_inv {} (fst (fault_links as now n))"
proof (induction as arbitrary: n)
  case (Cons a as)
  have a: "removable n a" using Cons.prems(2) by simp
  have "net_inv {} (fst (fault_links as now (fst (LinkFaulted a now n))))"
    using LinkFaulted_inv [OF Cons.prems(1) a] Cons.prems(2) by (intro Cons.IH) simp_all
  then show ?case by (simp split: prod.split) (metis fst_conv)
qed simp

lemma tab_list_removable: "net_inv P n \<Longrightarrow> a \<in> snd ` set (linkTable n) \<Longrightarrow> removable n a"
  using tab_list [of n] by (simp add: net_inv_def tab_removable)

lemma HandleLinks_inv:
  assumes "net_inv {} n"
  shows "net_inv {} (fst (HandleLinks r full reps now n))"
proof -
  define toRemove where "toRemove = (if full
            then filter (\<lambda>a. router_id n (l_Src (net_links n a)) = router_id n r \<and>
                             l_Id (net_links n a) \<notin> rl_Id ` set reps) (map snd (linkTable n))
            else [])"
  have "\<forall>a \<in> set toRemove. removable n a"
    using tab_list_removable [OF assms] by (auto simp: toRemove_def)
  from fault_links_inv [OF assms this] have "net_inv {} (fst (fault_links toRemove now n))" .
  then show ?thesis
    using notify_links_inv [of "fst (fault_links toRemove now n)" r reps now]
    by (simp add: HandleLinks_def toRemove_def [symmetric] Let_def split: prod.split_asm prod.split) auto
qed

lemma Link_Get_removable: "net_inv P n \<Longrightarrow> Link_Get n lid = Some a \<Longrightarrow> removable n a"
  by (auto simp: removable_def tab_def ran_def Link_Get_def simp del: map_of_eq_Some_iff)

lemma handleFaultedLink_inv:
  assumes "net_inv {} n"
  shows "net_inv {} (fst (handleFaultedLink r lid it now n))"
proof (cases "Link_Get n lid")
  case (Some a)
  from LinkFaulted_inv(1) [OF assms Link_Get_removable [OF assms Some], of now] show ?thesis
    using Some assms by (cases "LinkFaulted a now n") (simp add: handleFaultedLink_def Let_def)
qed (simp add: assms handleFaultedLink_def)

lemma RemoveLink_inv:
  assumes "net_inv {} n"
  shows "net_inv {} (fst (RemoveLink lid n))"
proof (cases "Link_Get n lid")
  case (Some a)
  from Link_Remove_inv(1) [OF assms Link_Get_removable [OF assms Some, unfolded removable_def]] show ?thesis
    using Some by (simp add: RemoveLink_def Let_def)
qed (simp add: assms RemoveLink_def)

lemma PatchLink_inv:
  assumes "net_inv {} n" and "PatchLink lid c d n = Some (n', rer)"
  shows "net_inv {} n'"
proof -
  have "same_shape n n'"
    using assms(2) by (auto simp: PatchLink_def Let_def link_setters_shape split: option.splits
        intro: same_shape_trans link_setters_shape)
  then show ?thesis using assms(1) same_shape_inv by blast
qed

lemma metrics_shape: "same_shape n (AcceptMetricsMsg nodeId known hist sid n)"
proof -
  have "same_shape n (metric_step hist sid a n)" for a n
    by (simp add: metric_step_def Let_def link_setters_shape split: option.split)
  then have "same_shape n (fold (metric_step hist sid) as n)" for as n
    by (induction as arbitrary: n) (auto intro: same_shape_trans)
  then show ?thesis by (simp add: AcceptMetricsMsg_def)
qed

lemma clean_inv: "net_inv {} n \<Longrightarrow> net_inv {} (clean now n)"
  unfolding clean_def
  by (rule remove_links_inv [THEN conjunct1]) (auto simp: LinksInMode_def intro: tab_list_removable)

lemma ScanForDeadLinks_inv: "net_inv {} n \<Longrightarrow> net_inv {} (ScanForDeadLinks n)"
  unfolding ScanForDeadLinks_def
  by (rule remove_links_inv [THEN conjunct1]) (auto intro: tab_list_removable)

section \<open>Runs\<close>

datatype net_op =
  OpConnect nat
| OpDisconnect nat
| OpLinks nat bool "reported_link list" int
| OpFault nat string u32 int
| OpRemoveLink string
| OpPatch string "int option" "bool option"
| OpMetrics string "string \<Rightarrow> int option"
| OpClean int
| OpScan

definition net_step :: "net \<Rightarrow> net_op \<Rightarrow> net" where
  "net_step n op =
     (case op of
        OpConnect r \<Rightarrow> fst (ConnectRouter r n)
      | OpDisconnect r \<Rightarrow> fst (DisconnectRouter r n)
      | OpLinks r full reps now \<Rightarrow> fst (HandleLinks r full reps now n)
      | OpFault r lid iteration now \<Rightarrow> fst (handleFaultedLink r lid iteration now n)
      | OpRemoveLink lid \<Rightarrow> fst (RemoveLink lid n)
      | OpPatch lid c d \<Rightarrow> (case PatchLink lid c d n of None \<Rightarrow> n | Some (n', _) \<Rightarrow> n')
      | OpMetrics sid hist \<Rightarrow> AcceptMetricsMsg ''ctrl'' (\<lambda>_. True) hist sid n
      | OpClean now \<Rightarrow> clean now n
      | OpScan \<Rightarrow> ScanForDeadLinks n)"

text \<open>A controller that has just started: no link, no connection, router objects without links.\<close>

definition net_start :: "net \<Rightarrow> bool" where
  "net_start n \<longleftrightarrow> linkTable n = [] \<and> connected n = [] \<and>
     (\<forall>r. r_allLinks (net_routers n r) = [] \<and> r_linkByRouter (net_routers n r) = (\<lambda>_. []))"

lemma net_start_inv: "net_start n \<Longrightarrow> net_inv {} n"
  by (simp add: net_start_def net_inv_def table_ok_def conn_ok_def router_index_def current_def tab_def)

lemma net_step_inv: "net_inv {} n \<Longrightarrow> net_inv {} (net_step n op)"
  by (cases op) (auto simp: net_step_def ConnectRouter_inv DisconnectRouter_inv HandleLinks_inv
      handleFaultedLink_inv RemoveLink_inv PatchLink_inv clean_inv ScanForDeadLinks_inv
      intro: same_shape_inv [OF metrics_shape] split: option.split)

lemma net_run_inv: "net_inv {} n \<Longrightarrow> net_inv {} (foldl net_step n ops)"
  by (induction ops arbitrary: n) (simp_all add: net_step_inv)

text \<open>Router objects keep their ids, whatever happens to the network.\<close>

lemma RouterLinks_id:
  "r_Id (RouterLinks_Add a k x) = r_Id x" "r_Id (RouterLinks_Remove a k x) = r_Id x" "r_Id (RouterLinks_Clear x) = r_Id x"
  by (simp_all add: RouterLinks_Add_def RouterLinks_Remove_def RouterLinks_Clear_def Let_def)

lemma mod_router_id: "(\<And>x. r_Id (f x) = r_Id x) \<Longrightarrow> router_id (mod_router a f n) r = router_id n r"
  by (simp add: mod_router_def)

lemma mod_link_id: "router_id (mod_link a f n) r = router_id n r"
  by (simp add: mod_link_def)

lemma Link_Remove_id: "router_id (Link_Remove a n) r = router_id n r"
  by (simp add: Link_Remove_def linkTable_remove_def Let_def case_prod_beta mod_router_id RouterLinks_id split: option.split)

lemma Link_Add_id: "router_id (Link_Add a n) r = router_id n r"
  by (simp add: Link_Add_def Let_def mod_router_id RouterLinks_id split: option.split)

lemma remove_links_id: "router_id (remove_links as n) r = router_id n r"
  unfolding remove_links_def by (induction as arbitrary: n) (simp_all add: Link_Remove_id)

lemma disconnect_links_id: "router_id (fst (disconnect_links x as n)) r = router_id n r"
  by (induction as arbitrary: n) (simp_all add: Link_Remove_id Let_def case_prod_beta)

lemma build_router_links_id: "router_id (build_router_links x as n) r = router_id n r"
  by (induction as arbitrary: n) (simp_all add: mod_link_id mod_router_id RouterLinks_id)

lemma DisconnectRouter_id: "router_id (fst (DisconnectRouter x n)) r = router_id n r"
  by (simp add: DisconnectRouter_def disconnect_links_id MarkDisconnected_def mod_router_id RouterLinks_id split: prod.split)

lemma ConnectRouter_id: "router_id (fst (ConnectRouter x n)) r = router_id n r"
proof -
  have "router_id (MarkConnected x (BuildRouterLinks x n)) r = router_id n r"
    by (simp add: MarkConnected_def BuildRouterLinks_def build_router_links_id mod_router_id Let_def)
  moreover have "router_id (fst (displaceConnection cur n)) r = router_id n r" for cur
    by (simp add: displaceConnection_def DisconnectRouter_id mod_router_id)
  ultimately show ?thesis by (auto simp: ConnectRouter_def Let_def case_prod_beta split: option.split)
qed

lemma LinkFaulted_id: "router_id (fst (LinkFaulted a now n)) r = router_id n r"
  by (simp add: LinkFaulted_def Let_def Link_Remove_id mod_link_id)

lemma fault_links_id: "router_id (fst (fault_links as now n)) r = router_id n r"
proof (induction as arbitrary: n)
  case (Cons a as)
  show ?case using Cons [of "fst (LinkFaulted a now n)"] by (simp add: LinkFaulted_id Let_def case_prod_beta)
qed simp

lemma RouterReportedLink_id: "router_id (fst (RouterReportedLink rep src dst now n)) r = router_id n r"
  by (simp add: RouterReportedLink_def Let_def Link_Add_id Link_Remove_id mod_link_id split: option.split)

lemma notify_links_id: "router_id (notify_links x reps now n) r = router_id n r"
proof (induction reps arbitrary: n)
  case (Cons rep reps)
  have "router_id (fst (NotifyExistingLink x rep now n)) r = router_id n r"
    using RouterReportedLink_id by (simp add: NotifyExistingLink_def case_prod_beta Let_def split: option.split)
  then show ?case using Cons by simp
qed simp

lemma net_step_id: "router_id (net_step n op) r = router_id n r"
proof (cases op)
  case (OpLinks x full reps now)
  then show ?thesis by (simp add: net_step_def HandleLinks_def Let_def notify_links_id fault_links_id case_prod_beta)
next
  case (OpFault x lid it now)
  then show ?thesis by (simp add: net_step_def handleFaultedLink_def Let_def LinkFaulted_id case_prod_beta split: option.split)
next
  case (OpPatch lid c d)
  then show ?thesis by (simp add: net_step_def PatchLink_def Let_def mod_link_id split: option.split)
next
  case (OpMetrics sid hist)
  then show ?thesis using metrics_shape by (simp add: net_step_def same_shape_def)
qed (simp_all add: net_step_def ConnectRouter_id DisconnectRouter_id RemoveLink_def clean_def ScanForDeadLinks_def remove_links_id
    Link_Remove_id Let_def split: option.split)

lemma net_run_id: "router_id (foldl net_step n ops) r = router_id n r"
  by (induction ops arbitrary: n) (simp_all add: net_step_id)

lemma index_symmetric:
  assumes inv: "net_inv {} n" and r: "current n r" and r': "current n r'"
  shows "set (r_linkByRouter (net_routers n r) (router_id n r')) =
    {a \<in> tab n. l_Src (net_links n a) = r \<and> l_DstId (net_links n a) = router_id n r' \<or>
                l_Src (net_links n a) = r' \<and> l_DstId (net_links n a) = router_id n r}"
proof -
  have "router_index n r" and P: "\<forall>a \<in> tab n. current n (l_Src (net_links n a))"
    using inv by (simp_all add: net_inv_def)
  then have "set (r_linkByRouter (net_routers n r) (router_id n r')) = index_links n r (router_id n r')"
    using r by (simp add: router_index_def)
  moreover have "router_id n r' = router_id n (l_Src (net_links n a)) \<longleftrightarrow> l_Src (net_links n a) = r'"
    if "a \<in> tab n" for a
    using P that r' current_unique by metis
  ultimately show ?thesis unfolding index_links_def by auto
qed

subsection \<open>The cheapest link\<close>

definition joins :: "net \<Rightarrow> nat \<Rightarrow> nat \<Rightarrow> bool" where
  "joins n b l \<longleftrightarrow> l_usable (net_links n l) \<and>
     (l_DstId (net_links n l) = router_id n b \<or> router_id n (l_Src (net_links n l)) = router_id n b)"

definition candidates :: "net \<Rightarrow> nat \<Rightarrow> nat \<Rightarrow> nat set" where
  "candidates n a b = {l \<in> set (r_linkByRouter (net_routers n a) (router_id n b)). joins n b l}"

definition least_ok :: "net \<Rightarrow> nat set \<Rightarrow> nat option \<times> int \<Rightarrow> bool" where
  "least_ok n C best \<longleftrightarrow>
     (case fst best of
        None \<Rightarrow> snd best = maxInt64 \<and> (\<forall>l \<in> C. maxInt64 \<le> l_Cost (net_links n l))
      | Some a \<Rightarrow> a \<in> C \<and> snd best = l_Cost (net_links n a) \<and> snd best < maxInt64 \<and>
          (\<forall>l \<in> C. snd best \<le> l_Cost (net_links n l)))"

lemma least_step_ok:
  assumes "least_ok n C best"
  shows "least_ok n (C \<union> {l. l = a \<and> joins n b l}) (least_step n b a best)"
  using assms
  by (cases best; cases "fst best") (auto simp: least_ok_def least_step_def joins_def Let_def)

lemma least_fold_ok:
  "least_ok n C best \<Longrightarrow> least_ok n (C \<union> {l \<in> set as. joins n b l}) (fold (least_step n b) as best)"
proof (induction as arbitrary: C best)
  case Nil
  then show ?case by simp
next
  case (Cons x as)
  have eq: "C \<union> {l. l = x \<and> joins n b l} \<union> {l \<in> set as. joins n b l} = C \<union> {l \<in> set (x # as). joins n b l}"
    by auto
  from Cons.IH [OF least_step_ok [OF Cons.prems, of x b]] show ?case
    unfolding eq by simp
qed

lemma LeastExpensiveLink_ok:
  obtains c where "least_ok n (candidates n a b) (LeastExpensiveLink n a b, c)"
proof -
  let ?as = "r_linkByRouter (net_routers n a) (router_id n b)"
  have "least_ok n {} (None, maxInt64)" by (simp add: least_ok_def)
  from least_fold_ok [OF this, of ?as b]
  have "least_ok n (candidates n a b) (fold (least_step n b) ?as (None, maxInt64))"
    by (simp add: candidates_def)
  then show thesis
    using that [of "snd (fold (least_step n b) ?as (None, maxInt64))"]
    by (simp add: LeastExpensiveLink_def)
qed

text \<open>The usable links of the table that join two routers, in either direction.\<close>

definition joining_links :: "net \<Rightarrow> nat \<Rightarrow> nat \<Rightarrow> nat set" where
  "joining_links n r s = {a \<in> set (Link_All n). l_usable (net_links n a) \<and>
     (l_Src (net_links n a) = r \<and> l_DstId (net_links n a) = router_id n s \<or>
      l_Src (net_links n a) = s \<and> l_DstId (net_links n a) = router_id n r)}"

lemma candidates_joining:
  assumes inv: "net_inv {} n" and "current n r" and "current n s"
  shows "candidates n r s = joining_links n r s"
proof -
  have "table_ok n" using inv by (simp add: net_inv_def)
  then have "set (Link_All n) = tab n" using tab_list by (simp add: Link_All_def)
  then show ?thesis unfolding candidates_def joins_def joining_links_def index_symmetric [OF assms] by auto
qed

lemma candidates_symmetric:
  assumes "net_inv {} n" and "current n r" and "current n r'"
  shows "candidates n r r' = candidates n r' r"
  unfolding candidates_def joins_def index_symmetric [OF assms] index_symmetric [OF assms(1,3,2)] by auto


subsection \<open>Costs and usability of links\<close>

definition link_ok :: "link \<Rightarrow> bool" where
  "link_ok l \<longleftrightarrow>
     (l_usable l \<longleftrightarrow> \<not> l_down l \<and> ls_Mode (l_state l) = LinkConnected) \<and>
     l_Cost l = wrap64 (wrap64 (l_StaticCost l + l_SrcLatency l sdiv 1000000) + l_DstLatency l sdiv 1000000)"

definition links_ok :: "net \<Rightarrow> bool" where
  "links_ok n \<longleftrightarrow> (\<forall>a < net_next n. link_ok (net_links n a))"

lemma link_ok_setters:
  "link_ok l \<Longrightarrow> link_ok (SetState m now l)" "link_ok l \<Longrightarrow> link_ok (SetStaticCost c l)"
  "link_ok l \<Longrightarrow> link_ok (SetDown d l)" "link_ok l \<Longrightarrow> link_ok (SetSrcLatency t l)"
  "link_ok l \<Longrightarrow> link_ok (SetDstLatency t l)" "link_ok l \<Longrightarrow> link_ok (SetConnsState s l)"
  by (auto simp: link_ok_def SetState_def SetStaticCost_def SetDown_def SetSrcLatency_def
      SetDstLatency_def SetConnsState_def recalculateUsable_def RecalculateCost_def split: option.split)

lemma link_ok_new: "link_ok (newLink i p d lat now)"
  by (simp add: link_ok_def newLink_def recalculateUsable_def RecalculateCost_def)

lemma link_ok_endpoints:
  "link_ok (l\<lparr>l_Iteration := x, l_Src := s, l_Dst := d, l_DstId := i\<rparr>) = link_ok l"
  "link_ok (l\<lparr>l_Dst := d\<rparr>) = link_ok l"
  by (simp_all add: link_ok_def)

lemma links_ok_mod_link: "links_ok n \<Longrightarrow> (\<And>l. link_ok l \<Longrightarrow> link_ok (g l)) \<Longrightarrow> links_ok (mod_link a g n)"
  by (simp add: links_ok_def net_simps)

lemma links_ok_eq:
  "net_links n' = net_links n \<Longrightarrow> net_next n' = net_next n \<Longrightarrow> links_ok n' = links_ok n"
  by (simp add: links_ok_def)

lemma Link_Remove_links: "net_links (Link_Remove a n) = net_links n \<and> net_next (Link_Remove a n) = net_next n"
  by (cases "linkTable_remove a n")
    (auto simp: Link_Remove_def linkTable_remove_def cmap_remove_cb_def net_simps Let_def split: option.split)

lemma links_ok_Remove [simp]: "links_ok (Link_Remove a n) = links_ok n"
  using Link_Remove_links by (intro links_ok_eq) auto

lemma links_ok_remove_links [simp]: "links_ok (remove_links as n) = links_ok n"
  by (induction as arbitrary: n) (simp_all add: remove_links_def)

lemma links_ok_disconnect_links: "links_ok n \<Longrightarrow> links_ok (fst (disconnect_links r as n))"
proof (induction as arbitrary: n)
  case (Cons a as)
  have "fst (disconnect_links r (a # as) n) = fst (disconnect_links r as
      (if router_id n (l_Src (net_links n a)) = router_id n r then Link_Remove a n else n))"
    by (simp add: Let_def split: prod.split)
  then show ?case using Cons by simp
qed simp

lemma links_ok_mod_router [simp]: "links_ok (mod_router r f n) = links_ok n"
  by (intro links_ok_eq) (simp_all add: net_simps)

lemma links_ok_MarkDisconnected [simp]: "links_ok (MarkDisconnected r n) = links_ok n"
  by (simp add: MarkDisconnected_def links_ok_def net_simps split: prod.split)

lemma links_ok_Disconnect: "links_ok n \<Longrightarrow> links_ok (fst (DisconnectRouter r n))"
  by (simp add: DisconnectRouter_def links_ok_disconnect_links)

lemma links_ok_MarkConnected [simp]: "links_ok (MarkConnected r n) = links_ok n"
  by (simp add: MarkConnected_def links_ok_def net_simps Let_def)

lemma links_ok_build: "links_ok n \<Longrightarrow> links_ok (build_router_links r as n)"
  by (induction as arbitrary: n) (simp_all add: links_ok_mod_link link_ok_endpoints)

lemma links_ok_Connect: "links_ok n \<Longrightarrow> links_ok (fst (ConnectRouter r n))"
proof -
  assume ok: "links_ok n"
  have "links_ok (fst (displaceConnection x n))" for x
    using ok unfolding displaceConnection_def by (intro links_ok_Disconnect) simp
  moreover have "links_ok (MarkConnected r (BuildRouterLinks r n))"
    using ok by (simp add: BuildRouterLinks_def links_ok_build)
  ultimately show ?thesis
    using ok by (auto simp: ConnectRouter_def Let_def split: option.split prod.split) (metis fst_conv)+
qed

lemma Link_Add_links: "net_links (Link_Add a n) = net_links n" "net_next (Link_Add a n) = net_next n"
  by (simp_all add: Link_Add_def Let_def net_simps split: option.split)

lemma links_ok_new:
  "links_ok n \<Longrightarrow> link_ok l \<Longrightarrow>
   links_ok (Link_Add (net_next n) (n\<lparr>net_links := (net_links n)(net_next n := l), net_next := Suc (net_next n)\<rparr>))"
  by (simp add: links_ok_def Link_Add_links less_Suc_eq)

lemma links_ok_RouterReportedLink:
  "links_ok n \<Longrightarrow> links_ok (fst (RouterReportedLink rep src dst now n))"
  by (simp add: RouterReportedLink_def Let_def links_ok_new link_ok_setters link_ok_endpoints link_ok_new
      split: option.split)

lemma links_ok_notify: "links_ok n \<Longrightarrow> links_ok (notify_links r reps now n)"
proof (induction reps arbitrary: n)
  case (Cons rep reps)
  have "links_ok (fst (NotifyExistingLink r rep now n))"
    using links_ok_RouterReportedLink [OF Cons.prems, of rep r "GetConnected n (rl_DestRouterId rep)" now]
    by (cases "RouterReportedLink rep r (GetConnected n (rl_DestRouterId rep)) now n")
      (simp add: NotifyExistingLink_def Cons.prems split: option.split)
  then show ?case using Cons.IH by simp
qed simp

lemma links_ok_LinkFaulted: "links_ok n \<Longrightarrow> links_ok (fst (LinkFaulted a now n))"
  by (simp add: LinkFaulted_def Let_def links_ok_mod_link link_ok_setters)

lemma links_ok_fault_links: "links_ok n \<Longrightarrow> links_ok (fst (fault_links as now n))"
proof (induction as arbitrary: n)
  case (Cons a as)
  have "fst (fault_links (a # as) now n) = fst (fault_links as now (fst (LinkFaulted a now n)))"
    by (simp split: prod.split)
  then show ?case using Cons links_ok_LinkFaulted by simp
qed simp

lemma links_ok_HandleLinks: "links_ok n \<Longrightarrow> links_ok (fst (HandleLinks r full reps now n))"
proof -
  assume ok: "links_ok n"
  have "\<exists>as. fst (HandleLinks r full reps now n) = notify_links r reps now (fst (fault_links as now n))"
    unfolding HandleLinks_def Let_def by (metis (no_types, lifting) case_prod_unfold fst_conv)
  then show ?thesis using links_ok_notify links_ok_fault_links [OF ok] by metis
qed

lemma links_ok_handleFaultedLink: "links_ok n \<Longrightarrow> links_ok (fst (handleFaultedLink r lid it now n))"
proof -
  assume ok: "links_ok n"
  have "fst (handleFaultedLink r lid it now n) \<in> {n} \<union> range (\<lambda>a. fst (LinkFaulted a now n))"
    by (auto simp: handleFaultedLink_def Let_def case_prod_unfold split: option.split)
  then show ?thesis using ok links_ok_LinkFaulted by auto
qed

lemma links_ok_metrics: "links_ok n \<Longrightarrow> links_ok (AcceptMetricsMsg nodeId known hist sid n)"
proof -
  have "links_ok n \<Longrightarrow> links_ok (metric_step hist sid a n)" for a n
    by (simp add: metric_step_def Let_def links_ok_mod_link link_ok_setters split: option.split)
  then have "links_ok n \<Longrightarrow> links_ok (fold (metric_step hist sid) as n)" for as n
    by (induction as arbitrary: n) simp_all
  then show "links_ok n \<Longrightarrow> ?thesis" by (simp add: AcceptMetricsMsg_def)
qed

lemma links_ok_Patch: "links_ok n \<Longrightarrow> PatchLink lid c d n = Some (n', rer) \<Longrightarrow> links_ok n'"
  by (auto simp: PatchLink_def Let_def links_ok_mod_link link_ok_setters split: option.splits)

lemma links_ok_step: "links_ok n \<Longrightarrow> links_ok (net_step n op)"
  by (cases op) (auto simp: net_step_def links_ok_Connect links_ok_Disconnect links_ok_HandleLinks
      links_ok_handleFaultedLink links_ok_metrics clean_def ScanForDeadLinks_def RemoveLink_def Let_def
      intro: links_ok_Patch split: option.split)

lemma links_ok_run: "links_ok n \<Longrightarrow> links_ok (foldl net_step n ops)"
  by (induction ops arbitrary: n) (simp_all add: links_ok_step)

lemma least_cost_symmetric:
  assumes "net_inv {} n" and "current n r" and "current n s"
  shows "map_option (\<lambda>a. l_Cost (net_links n a)) (LeastExpensiveLink n r s) =
         map_option (\<lambda>a. l_Cost (net_links n a)) (LeastExpensiveLink n s r)"
proof -
  obtain c d where "least_ok n (candidates n r s) (LeastExpensiveLink n r s, c)"
    and "least_ok n (candidates n r s) (LeastExpensiveLink n s r, d)"
    using LeastExpensiveLink_ok [of n r s] LeastExpensiveLink_ok [of n s r]
      candidates_symmetric [OF assms] by metis
  then show ?thesis
    by (cases "LeastExpensiveLink n r s"; cases "LeastExpensiveLink n s r") (force simp: least_ok_def)+
qed

subsection \<open>Displacing a connection\<close>

text \<open>What no link operation changes of a router.\<close>

definition router_base :: "router \<Rightarrow> string \<times> bool \<times> bool" where
  "router_base r = (r_Id r, r_hasControl r, r_ctrlClosed r)"

lemma router_base_simps [simp]:
  "router_base (RouterLinks_Add a k r) = router_base r"
  "router_base (RouterLinks_Remove a k r) = router_base r"
  "router_base (RouterLinks_Clear r) = router_base r"
  "router_base (r\<lparr>r_Connected := b\<rparr>) = router_base r"
  by (simp_all add: router_base_def RouterLinks_Add_def RouterLinks_Remove_def RouterLinks_Clear_def)

lemma Link_Remove_base:
  "router_base (net_routers (Link_Remove a n) x) = router_base (net_routers n x)"
  "connected (Link_Remove a n) = connected n"
  by (cases "linkTable_remove a n",
      auto simp: Link_Remove_def linkTable_remove_def cmap_remove_cb_def net_simps Let_def split: option.split)+

lemma disconnect_links_base:
  "router_base (net_routers (fst (disconnect_links r as n)) x) = router_base (net_routers n x) \<and>
   connected (fst (disconnect_links r as n)) = connected n"
proof (induction as arbitrary: n)
  case (Cons a as)
  have "fst (disconnect_links r (a # as) n) = fst (disconnect_links r as
      (if router_id n (l_Src (net_links n a)) = router_id n r then Link_Remove a n else n))"
    by (simp add: Let_def split: prod.split)
  then show ?case using Cons by (simp add: Link_Remove_base)
qed simp

lemma displace_frees:
  assumes inv: "net_inv {} n" and cur: "current n c" "r_Connected (net_routers n c)"
    and d: "displaceConnection c n = (n1, rer)"
  shows "GetConnected n1 (router_id n c) = None" and "router_id n1 x = router_id n x"
    and "x \<noteq> c \<Longrightarrow> router_base (net_routers n1 x) = router_base (net_routers n x)"
proof -
  define n' where "n' = mod_router c
      (\<lambda>x. if r_hasControl x \<and> \<not> r_ctrlClosed x then x\<lparr>r_ctrlClosed := True\<rparr> else x) n"
  have n': "router_id n' y = router_id n y" "y \<noteq> c \<Longrightarrow> net_routers n' y = net_routers n y"
    "connected n' = connected n" "r_Connected (net_routers n' c)" for y
    using cur(2) by (simp_all add: n'_def net_simps)
  have "isCurrentConnection n' c"
    using cur(1) n' by (simp add: isCurrentConnection_def GetConnected_def current_def)
  then have n1: "n1 = fst (disconnect_links c (r_allLinks (net_routers n' c)) (MarkDisconnected c n'))"
    using d by (simp add: displaceConnection_def DisconnectRouter_def n'_def [symmetric])
  note D = disconnect_links_base [of c "r_allLinks (net_routers n' c)" "MarkDisconnected c n'", folded n1]
  have m: "router_base (net_routers (MarkDisconnected c n') x) = router_base (net_routers n' x)"
    "connected (MarkDisconnected c n') = AList.delete (router_id n c) (connected n)" for x
    using cur(1) n' by (simp_all add: MarkDisconnected_def cmap_remove_cb_def current_def net_simps Let_def)
  show "GetConnected n1 (router_id n c) = None"
    using D m by (simp add: GetConnected_def cm.get_remove)
  have b: "router_base (net_routers n1 x) = router_base (net_routers n' x)" for x using D m by metis
  then show "router_id n1 x = router_id n x" using n'(1) by (metis router_base_def fst_conv)
  show "x \<noteq> c \<Longrightarrow> router_base (net_routers n1 x) = router_base (net_routers n x)" using b n'(2) by metis
qed

lemma accept_connects:
  assumes "GetConnected n (router_id n r) = None" and "r_hasControl (net_routers n r)"
    and "\<not> r_ctrlClosed (net_routers n r)"
  shows "\<exists>n2. ConnectRouter r n = (n2, None, []) \<and> GetConnected n2 (router_id n r) = Some r \<and> isCurrentConnection n2 r"
proof -
  note B = build_router_links_fields [of r "map snd (linkTable n)" n, folded BuildRouterLinks_def]
  show ?thesis
    using assms B by (simp add: ConnectRouter_def MarkConnected_def isCurrentConnection_def GetConnected_def
        Let_def net_simps cm.get_put)
qed

lemma stale_Remove_fields:
  assumes "Link_Get n (l_Id (net_links n a)) = Some b" and "a \<noteq> b"
    and "l_Iteration (net_links n a) = l_Iteration (net_links n b)"
  shows "Link_Get (Link_Remove a n) (l_Id (net_links n a)) = None"
    and "b \<in> set (r_allLinks (net_routers n x)) \<Longrightarrow> b \<in> set (r_allLinks (net_routers (Link_Remove a n) x))"
    and "b \<in> set (r_linkByRouter (net_routers n x) k) \<Longrightarrow> b \<in> set (r_linkByRouter (net_routers (Link_Remove a n) x) k)"
proof -
  have r: "linkTable_remove a n = (n\<lparr>linkTable := AList.delete (l_Id (net_links n a)) (linkTable n)\<rparr>, True)"
    using assms(1,3) by (simp add: linkTable_remove_def cmap_remove_cb_def Link_Get_def)
  show "Link_Get (Link_Remove a n) (l_Id (net_links n a)) = None"
    by (simp add: Link_Remove_def r Link_Get_def net_simps Let_def cm.get_remove split: option.split)
  show "b \<in> set (r_allLinks (net_routers n x)) \<Longrightarrow> b \<in> set (r_allLinks (net_routers (Link_Remove a n) x))"
    "b \<in> set (r_linkByRouter (net_routers n x) k) \<Longrightarrow> b \<in> set (r_linkByRouter (net_routers (Link_Remove a n) x) k)"
    using assms(2) by (auto simp: Link_Remove_def r net_simps Let_def split: option.split)
qed

section \<open>Properties\<close>

text \<open>
  C3. The link index of the routers agrees with the link table. After any sequence of connects,
  disconnects, link reports, faults, removals, patches, metrics and periodic scans, two connected
  routers list the same links to each other, namely the table's links between them in either
  direction, and the source router of every link in the table is connected.
\<close>

theorem link_index_consistent:
  assumes "net_start n0" and "n = foldl net_step n0 ops"
    and "GetConnected n i = Some r" and "GetConnected n j = Some s"
  shows "set (r_linkByRouter (net_routers n r) j) =
      {a \<in> set (Link_All n). l_Src (net_links n a) = r \<and> l_DstId (net_links n a) = j \<or>
                             l_Src (net_links n a) = s \<and> l_DstId (net_links n a) = i} \<and>
    set (r_linkByRouter (net_routers n s) i) = set (r_linkByRouter (net_routers n r) j) \<and>
    (\<forall>a \<in> set (Link_All n). isCurrentConnection n (l_Src (net_links n a)))"
proof -
  have inv: "net_inv {} n" using net_run_inv [OF net_start_inv [OF assms(1)]] assms(2) by simp
  have ok: "table_ok n" "conn_ok n" and P: "\<forall>a \<in> tab n. current n (l_Src (net_links n a))"
    using inv unfolding net_inv_def by blast+
  have all: "set (Link_All n) = tab n" using tab_list [OF ok(1)] by (simp add: Link_All_def)
  have id: "router_id n r = i" "router_id n s = j"
    using assms(3,4) ok(2) unfolding conn_ok_def GetConnected_def by blast+
  have cur: "current n r" "current n s"
    using assms(3,4) id by (simp_all add: current_def GetConnected_def)
  have "\<forall>a \<in> tab n. isCurrentConnection n (l_Src (net_links n a))"
    using P ok(2) unfolding isCurrentConnection_def current_def GetConnected_def conn_ok_def by blast
  then show ?thesis
    using index_symmetric [OF inv cur] index_symmetric [OF inv cur(2,1)] unfolding all id by blast
qed

definition sample_router :: "string \<Rightarrow> router" where
  "sample_router i = \<lparr>r_Id = i, r_Connected = False, r_Cost = 0, r_NoTraversal = False, r_hasControl = True,
     r_ctrlClosed = False, r_allLinks = [], r_linkByRouter = (\<lambda>_. [])\<rparr>"

definition sample_net :: net where
  "sample_net = \<lparr>net_routers = (\<lambda>r. sample_router (if r = 0 then ''r0'' else if r = 1 then ''r1'' else ''r2'')),
     net_links = (\<lambda>_. newLink '''' '''' '''' 0 0), net_next = 0, linkTable = [], connected = [], initialLatency = 65000000\<rparr>"

definition sample_report :: "string \<Rightarrow> string \<Rightarrow> u32 \<Rightarrow> reported_link" where
  "sample_report i d it = \<lparr>rl_Id = i, rl_LinkProtocol = ''tls'', rl_DialAddress = ''a'', rl_DestRouterId = d,
     rl_Iteration = it, rl_ConnState = None\<rparr>"

definition sample_ops :: "net_op list" where
  "sample_ops = [OpConnect 0, OpConnect 1, OpLinks 0 True [sample_report ''l1'' ''r1'' 1] 5]"

lemmas sample_net_defs = sample_router_def sample_net_def sample_report_def sample_ops_def

lemmas net_op_defs = net_step_def ConnectRouter_def GetConnected_def MarkConnected_def BuildRouterLinks_def
  HandleLinks_def NotifyExistingLink_def RouterReportedLink_def Link_Get_def Link_Add_def
  mod_router_def mod_link_def RouterLinks_Add_def newLink_def SetState_def SetConnsState_def
  recalculateUsable_def RecalculateCost_def

lemma sample_start_net: "net_start sample_net"
  by (simp add: net_start_def sample_net_def sample_router_def)

lemma sample_connected:
  "GetConnected (foldl net_step sample_net sample_ops) ''r0'' = Some 0"
  "GetConnected (foldl net_step sample_net sample_ops) ''r1'' = Some 1"
  "Link_All (foldl net_step sample_net sample_ops) = [0]"
  by (simp_all add: sample_net_defs net_op_defs Link_All_def)

theorem link_index_consistent_witness:
  "set (r_linkByRouter (net_routers (foldl net_step sample_net sample_ops) 0) ''r1'') =
   set (r_linkByRouter (net_routers (foldl net_step sample_net sample_ops) 1) ''r0'') \<and>
   Link_All (foldl net_step sample_net sample_ops) = [0]"
  using link_index_consistent [OF sample_start_net refl sample_connected(1,2)] sample_connected(3) by simp

text \<open>
  C6. The cost and the usability of every link are current in every reachable state: a link is usable
  exactly when it is not administratively down and in the connected state, and its cost is the static
  cost plus the two latencies in milliseconds.
\<close>

theorem link_cost_current:
  assumes "links_ok n" and "a < net_next (foldl net_step n ops)"
  shows "let l = net_links (foldl net_step n ops) a in
    (l_usable l \<longleftrightarrow> \<not> l_down l \<and> ls_Mode (l_state l) = LinkConnected) \<and>
    l_Cost l = wrap64 (wrap64 (l_StaticCost l + l_SrcLatency l sdiv 1000000) + l_DstLatency l sdiv 1000000)"
  using links_ok_run [OF assms(1), of ops] assms(2) by (simp add: links_ok_def link_ok_def Let_def)

theorem link_cost_current_witness:
  "let l = net_links (foldl net_step sample_net sample_ops) 0 in
    l_Cost l = wrap64 (wrap64 (l_StaticCost l + l_SrcLatency l sdiv 1000000) + l_DstLatency l sdiv 1000000)"
proof -
  have "links_ok sample_net" by (simp add: links_ok_def sample_net_def)
  moreover have "0 < net_next (foldl net_step sample_net sample_ops)"
    by (simp add: sample_net_defs net_op_defs)
  ultimately show ?thesis using link_cost_current [of sample_net 0 sample_ops] by (simp add: Let_def)
qed

text \<open>
  C5. The link selected between two connected routers is a cheapest one, in every reachable state: it is in
  the link table, usable, and its ends are the two routers; no usable link of the table between them, in
  either direction, is cheaper. None is selected only when every such link costs the largest 64 bit number.
\<close>

theorem LeastExpensiveLink_minimal:
  assumes "net_start n0" and "n = foldl net_step n0 ops"
    and "GetConnected n i = Some r" and "GetConnected n j = Some s"
  shows "case LeastExpensiveLink n r s of
     None \<Rightarrow> \<forall>a \<in> joining_links n r s. maxInt64 \<le> l_Cost (net_links n a)
   | Some l \<Rightarrow> l \<in> joining_links n r s \<and> (\<forall>a \<in> joining_links n r s. l_Cost (net_links n l) \<le> l_Cost (net_links n a))"
proof -
  have inv: "net_inv {} n" using net_run_inv [OF net_start_inv [OF assms(1)]] assms(2) by simp
  have ok: "conn_ok n" using inv by (simp add: net_inv_def)
  have "current n r" "current n s"
    using assms(3,4) ok unfolding conn_ok_def GetConnected_def current_def by metis+
  note C = candidates_joining [OF inv this]
  show ?thesis
    by (rule LeastExpensiveLink_ok [of n r s]) (auto simp: least_ok_def C split: option.splits)
qed

theorem LeastExpensiveLink_minimal_witness:
  "LeastExpensiveLink (foldl net_step sample_net sample_ops) 0 1 = Some 0 \<and>
   0 \<in> joining_links (foldl net_step sample_net sample_ops) 0 1"
proof -
  have "LeastExpensiveLink (foldl net_step sample_net sample_ops) 0 1 = Some 0"
    by (simp add: sample_net_defs net_op_defs LeastExpensiveLink_def least_step_def maxInt64_def wrap64_def)
  then show ?thesis
    using LeastExpensiveLink_minimal [OF sample_start_net refl sample_connected(1,2)] by simp
qed

text \<open>
  C4. Between two connected routers the search for a link gives the same answer in both directions, up
  to ties: a link is found from one side exactly when it is found from the other, and the two links
  cost the same. Path search asks in one direction and link assignment in the other.
\<close>

theorem LeastExpensiveLink_symmetric:
  assumes "net_start n0" and "n = foldl net_step n0 ops"
    and "GetConnected n i = Some r" and "GetConnected n j = Some s"
  shows "map_option (\<lambda>a. l_Cost (net_links n a)) (LeastExpensiveLink n r s) =
         map_option (\<lambda>a. l_Cost (net_links n a)) (LeastExpensiveLink n s r)"
proof -
  have inv: "net_inv {} n" using net_run_inv [OF net_start_inv [OF assms(1)]] assms(2) by simp
  have ok: "conn_ok n" using inv by (simp add: net_inv_def)
  have "current n r" "current n s"
    using assms(3,4) ok unfolding conn_ok_def GetConnected_def current_def by metis+
  then show ?thesis by (rule least_cost_symmetric [OF inv])
qed

theorem LeastExpensiveLink_symmetric_witness:
  "map_option (\<lambda>a. l_Cost (net_links (foldl net_step sample_net sample_ops) a))
       (LeastExpensiveLink (foldl net_step sample_net sample_ops) 0 1) =
   map_option (\<lambda>a. l_Cost (net_links (foldl net_step sample_net sample_ops) a))
       (LeastExpensiveLink (foldl net_step sample_net sample_ops) 1 0)"
  using LeastExpensiveLink_symmetric [OF sample_start_net refl sample_connected(1,2)] .

text \<open>
  C7. A link report never replaces a link by an older one. Afterwards the table holds a link with the
  reported id whose iteration is at least the reported one; the known link stays when it is as recent,
  and otherwise a new link takes its place with the reported iteration and end points.
\<close>

theorem RouterReportedLink_newest:
  assumes "RouterReportedLink rep src dst now n = (n', a, created)"
  shows "Link_Get n' (rl_Id rep) = Some a \<and> rl_Iteration rep \<le> l_Iteration (net_links n' a) \<and>
    (case Link_Get n (rl_Id rep) of
       None \<Rightarrow> created
     | Some b \<Rightarrow> created \<longleftrightarrow> l_Iteration (net_links n b) < rl_Iteration rep) \<and>
    (if created then l_Iteration (net_links n' a) = rl_Iteration rep \<and> l_Src (net_links n' a) = src \<and>
                     l_Dst (net_links n' a) = dst \<and> l_usable (net_links n' a)
     else n' = n)"
  using assms
  by (auto simp: RouterReportedLink_def Link_Get_def Let_def Link_Add_links Link_Add_fields(4) cm.get_put
      SetState_def recalculateUsable_def newLink_def RecalculateCost_def not_le
      simp del: map_of_eq_Some_iff split: option.splits if_splits)

theorem RouterReportedLink_newest_witness:
  "Link_Get (fst (RouterReportedLink (sample_report ''l1'' ''r1'' 4) 0 (Some 1) 9 (foldl net_step sample_net sample_ops)))
     ''l1'' = Some 1"
proof -
  let ?n = "foldl net_step sample_net sample_ops"
  obtain n' a c where r: "RouterReportedLink (sample_report ''l1'' ''r1'' 4) 0 (Some 1) 9 ?n = (n', a, c)"
    by (metis prod_cases3)
  moreover have "fst (snd (RouterReportedLink (sample_report ''l1'' ''r1'' 4) 0 (Some 1) 9 ?n)) = 1"
    by (simp add: sample_net_defs net_op_defs Link_Remove_def linkTable_remove_def cmap_remove_cb_def word_le_nat_alt)
  ultimately show ?thesis using RouterReportedLink_newest [OF r] by (simp add: sample_report_def)
qed

text \<open>
  C8. A router that was rejected because an older connection held its slot connects on its next try.
  The rejected attempt frees the slot, and the retry with an open control channel is accepted and
  becomes the one current connection of that router.
\<close>

theorem ConnectRouter_retry:
  assumes "net_start n0" and "n = foldl net_step n0 ops"
    and "ConnectRouter r n = (n1, Some ErrConnectRejected, rer)"
    and "r_hasControl (net_routers n r)" and "\<not> r_ctrlClosed (net_routers n r)"
  shows "GetConnected n1 (router_id n r) = None \<and>
    (\<exists>n2. ConnectRouter r n1 = (n2, None, []) \<and> GetConnected n2 (router_id n r) = Some r \<and> isCurrentConnection n2 r)"
proof -
  have inv: "net_inv {} n" using net_run_inv [OF net_start_inv [OF assms(1)]] assms(2) by simp
  obtain cur where cur: "GetConnected n (router_id n r) = Some cur" "cur \<noteq> r"
    and d: "displaceConnection cur n = (n1, rer)"
    using assms(3-5) by (auto simp: ConnectRouter_def Let_def split: option.splits if_splits prod.splits)
  have id: "router_id n cur = router_id n r" "r_Connected (net_routers n cur)"
    using inv cur(1) unfolding net_inv_def conn_ok_def GetConnected_def by blast+
  have "current n cur" using cur(1) id(1) by (simp add: current_def GetConnected_def)
  note F = displace_frees [OF inv this id(2) d]
  have "r_hasControl (net_routers n1 r)" "\<not> r_ctrlClosed (net_routers n1 r)"
    using F(3) [of r] cur(2) assms(4,5) by (simp_all add: router_base_def)
  then show ?thesis using F(1) F(2) [of r] accept_connects [of n1 r] id(1) by simp
qed

theorem ConnectRouter_retry_witness:
  "GetConnected (fst (ConnectRouter 3 (foldl net_step sample_net [OpConnect 2]))) ''r2'' = None"
proof -
  let ?n = "foldl net_step sample_net [OpConnect 2]"
  obtain n1 e rer where c: "ConnectRouter 3 ?n = (n1, e, rer)" by (metis prod_cases3)
  have "fst (snd (ConnectRouter 3 ?n)) = Some ErrConnectRejected"
    by (simp add: sample_net_defs net_op_defs split: prod.split)
  then have e: "e = Some ErrConnectRejected" using c by simp
  have r: "router_id ?n 3 = ''r2''" "r_hasControl (net_routers ?n 3)" "\<not> r_ctrlClosed (net_routers ?n 3)"
    by (simp_all add: sample_net_defs net_op_defs)
  show ?thesis using ConnectRouter_retry [OF sample_start_net refl c [unfolded e] r(2,3)] r(1) c by simp
qed

text \<open>
  C9. A removal that is late can drop the wrong link. Take a link object that was removed and replaced by
  a new object with the same id and the same iteration, as happens when its router reconnects and reports
  the link again. Removing the old object takes the new link out of the table, and leaves it in the
  index of its routers: it is not found by its id any more, yet it still counts as a candidate for routes.
\<close>

theorem stale_Remove_orphans:
  assumes "net_start n0" and "n = foldl net_step n0 ops"
    and "Link_Get n (l_Id (net_links n a)) = Some b" and "a \<noteq> b"
    and "l_Iteration (net_links n a) = l_Iteration (net_links n b)"
  shows "Link_Get (Link_Remove a n) (l_Id (net_links n b)) = None \<and>
    b \<in> set (r_allLinks (net_routers (Link_Remove a n) (l_Src (net_links n b)))) \<and>
    b \<in> set (r_linkByRouter (net_routers (Link_Remove a n) (l_Src (net_links n b))) (l_DstId (net_links n b)))"
proof -
  have inv: "net_inv {} n" using net_run_inv [OF net_start_inv [OF assms(1)]] assms(2) by simp
  then have ok: "table_ok n" and ix: "\<And>r. router_index n r"
    and P: "\<forall>a \<in> tab n. current n (l_Src (net_links n a))"
    by (simp_all add: net_inv_def)
  have b: "b \<in> tab n" "l_Id (net_links n b) = l_Id (net_links n a)"
    using assms(3) ok unfolding tab_def ran_def table_ok_def Link_Get_def by blast+
  have "set (r_linkByRouter (net_routers n (l_Src (net_links n b))) (l_DstId (net_links n b))) =
      index_links n (l_Src (net_links n b)) (l_DstId (net_links n b))"
    "set (r_allLinks (net_routers n (l_Src (net_links n b)))) = (\<Union>k. index_links n (l_Src (net_links n b)) k)"
    using ix [of "l_Src (net_links n b)"] P b(1) by (simp_all add: router_index_def)
  moreover have "b \<in> index_links n (l_Src (net_links n b)) (l_DstId (net_links n b))"
    using b(1) by (simp add: index_links_def)
  moreover note stale_Remove_fields [OF assms(3-5)] b(2)
  ultimately show ?thesis by auto
qed

text \<open>The reconnect that leads there: router 3 replaces the connection 2 of the same router.\<close>

definition sample_reconnect :: "net_op list" where
  "sample_reconnect = [OpConnect 2, OpConnect 1, OpLinks 2 True [sample_report ''l1'' ''r1'' 1] 5,
     OpDisconnect 2, OpConnect 3, OpLinks 3 True [sample_report ''l1'' ''r1'' 1] 6]"

theorem stale_Remove_orphans_witness:
  "Link_Get (Link_Remove 0 (foldl net_step sample_net sample_reconnect)) ''l1'' = None"
proof -
  let ?n = "foldl net_step sample_net sample_reconnect"
  have n: "Link_Get ?n (l_Id (net_links ?n 0)) = Some 1" "l_Id (net_links ?n 1) = ''l1''"
    "l_Iteration (net_links ?n 0) = l_Iteration (net_links ?n 1)"
    by (simp_all add: sample_net_defs sample_reconnect_def net_op_defs DisconnectRouter_def isCurrentConnection_def
        MarkDisconnected_def Link_Remove_def linkTable_remove_def cmap_remove_cb_def RouterLinks_Remove_def RouterLinks_Clear_def)
  then show ?thesis using stale_Remove_orphans [OF sample_start_net refl n(1) _ n(3)] by simp
qed

end
