(* ===== verification/Shortest_Path.thy ===== *)
theory Shortest_Path
  imports Link_Manager
begin

text \<open>
  Path search: \<open>shortestPath\<close> of \<^verbatim>\<open>controller/network/network_path.go\<close> with \<open>minCost\<close> of
  \<^verbatim>\<open>controller/network/network.go\<close>. The search is Dijkstra's algorithm over the connected routers with
  three particulars: distances start at the largest 32 bit number instead of infinity, a router that
  may not be traversed gets a prohibitive cost unless it is an end point, and the loops over Go maps
  visit routers in any order.

  The order of every loop over a map is a rank, a parameter; the theorems hold for all ranks. The locale
  \<open>weighted_graph\<close> holds the correctness argument of the algorithm over an abstract graph; it is
  interpreted on the edge costs computed from the link manager.
\<close>

section \<open>Model\<close>

definition dist_get :: "(nat \<times> int) list \<Rightarrow> nat \<Rightarrow> int" where
  "dist_get dist r = (case map_of dist r of None \<Rightarrow> 0 | Some d \<Rightarrow> d)"

definition min_step :: "(nat \<times> int) list \<Rightarrow> nat \<Rightarrow> nat option \<times> int \<Rightarrow> nat option \<times> int" where
  "min_step dist r best = (if dist_get dist r \<le> snd best then (Some r, dist_get dist r) else best)"

definition minCost :: "(nat \<Rightarrow> nat) \<Rightarrow> nat list \<Rightarrow> (nat \<times> int) list \<Rightarrow> nat option" where
  "minCost rank q dist =
     (if dist = [] then None else fst (fold (min_step dist) (range_order rank q) (None, maxInt64)))"

definition router_cost :: "net \<Rightarrow> u16 \<Rightarrow> nat \<Rightarrow> int" where
  "router_cost n minRouterCost r = int (unat (max (r_Cost (net_routers n r)) minRouterCost))"

definition edge_cost :: "net \<Rightarrow> u16 \<Rightarrow> nat \<Rightarrow> nat \<Rightarrow> nat \<Rightarrow> nat \<Rightarrow> int" where
  "edge_cost n minRouterCost srcR dstR u r =
     (case LeastExpensiveLink n r u of
        None \<Rightarrow> maxInt32 + 1
      | Some l \<Rightarrow>
          if \<not> r_NoTraversal (net_routers n r) \<or> r = srcR \<or> r = dstR
          then wrap64 (l_Cost (net_links n l) + router_cost n minRouterCost r)
          else maxInt32 + 1)"

definition relax ::
  "(nat \<Rightarrow> nat \<Rightarrow> int) \<Rightarrow> nat \<Rightarrow> nat list \<Rightarrow> nat \<Rightarrow> (nat \<times> int) list \<times> (nat \<times> nat) list \<Rightarrow>
   (nat \<times> int) list \<times> (nat \<times> nat) list" where
  "relax cost u unvisited r st =
     (let (dist, prev) = st
      in if r \<in> set unvisited then
           let alt = wrap64 (dist_get dist u + cost u r)
           in if alt < dist_get dist r then (AList.update r alt dist, AList.update r u prev) else st
         else st)"

lemma minCost_mem:
  assumes "minCost rank q dist = Some u"
  shows "u \<in> set q"
proof -
  have "fst (fold (min_step dist) xs best) = Some u \<Longrightarrow> fst best = Some u \<or> u \<in> set xs" for xs best
    by (induction xs arbitrary: best) (fastforce simp: min_step_def split: if_splits)+
  then show ?thesis using assms by (fastforce simp: minCost_def split: if_splits)
qed

text \<open>
  The main loop. \<open>qrank\<close> and \<open>nrank\<close> give the visiting orders of the two map loops of an iteration; they
  depend on the routers that are still unvisited, a different set in every iteration. A search without
  a next router would dereference a nil pointer, the result \<open>None\<close>.
\<close>

function sp_loop ::
  "(nat list \<Rightarrow> nat \<Rightarrow> nat) \<Rightarrow> (nat list \<Rightarrow> string \<times> nat \<Rightarrow> nat) \<Rightarrow> net \<Rightarrow> u16 \<Rightarrow> nat \<Rightarrow> nat \<Rightarrow>
   (nat \<times> int) list \<Rightarrow> (nat \<times> nat) list \<Rightarrow> nat list \<Rightarrow> ((nat \<times> int) list \<times> (nat \<times> nat) list) option" where
  "sp_loop qrank nrank n minRouterCost srcR dstR dist prev unvisited =
     (if unvisited = [] then Some (dist, prev)
      else case minCost (qrank unvisited) unvisited dist of
             None \<Rightarrow> None
           | Some u \<Rightarrow>
               if u = dstR then Some (dist, prev)
               else
                 let unvisited' = filter (\<lambda>r. r \<noteq> u) unvisited;
                     neighbors = ConnectedNeighborsOfRouter (nrank unvisited) n u;
                     (dist', prev') = fold (relax (edge_cost n minRouterCost srcR dstR) u unvisited')
                                        neighbors (dist, prev)
                 in sp_loop qrank nrank n minRouterCost srcR dstR dist' prev' unvisited')"
  by pat_completeness auto

termination
  by (relation "measure (\<lambda>(_, _, _, _, _, _, _, _, unvisited). length unvisited)")
    (auto dest!: minCost_mem intro!: length_filter_less)

declare sp_loop.simps [simp del]

text \<open>Following the predecessors back from a router; a cycle would never return.\<close>

partial_function (option) prev_path :: "(nat \<times> nat) list \<Rightarrow> nat option \<Rightarrow> nat list \<Rightarrow> nat list option" where
  "prev_path prev p routerPath =
     (case p of
        None \<Rightarrow> Some routerPath
      | Some r \<Rightarrow> prev_path prev (map_of prev r) (r # routerPath))"

declare prev_path.simps [code]

datatype path_error = NotRoutable | CantRoute | PathMissingLink | PathPanic

definition current_instance :: "net \<Rightarrow> nat \<Rightarrow> nat" where
  "current_instance n r = (case GetConnected n (router_id n r) of Some c \<Rightarrow> c | None \<Rightarrow> r)"

definition shortestPath ::
  "(nat list \<Rightarrow> nat \<Rightarrow> nat) \<Rightarrow> (nat list \<Rightarrow> string \<times> nat \<Rightarrow> nat) \<Rightarrow> net \<Rightarrow> u16 \<Rightarrow>
   nat option \<Rightarrow> nat option \<Rightarrow> (path_error + nat list \<times> int) option" where
  "shortestPath qrank nrank n minRouterCost src dst =
     (case (src, dst) of
        (Some src0, Some dst0) \<Rightarrow>
          let srcR = current_instance n src0; dstR = current_instance n dst0
          in if srcR = dstR then Some (Inr ([srcR], 0))
             else
               let unvisited = remdups (AllConnected n);
                   dist = AList.update srcR 0 (fold (\<lambda>r. AList.update r maxInt32) (AllConnected n) [])
               in case sp_loop qrank nrank n minRouterCost srcR dstR dist [] unvisited of
                    None \<Rightarrow> Some (Inl PathPanic)
                  | Some (dist', prev) \<Rightarrow>
                      (case prev_path prev (map_of prev dstR) [] of
                         None \<Rightarrow> None
                       | Some routerPath \<Rightarrow>
                           let routerPath' = routerPath @ [dstR]
                           in if hd routerPath' \<noteq> srcR then Some (Inl CantRoute)
                              else if last routerPath' \<noteq> dstR then Some (Inl CantRoute)
                              else Some (Inr (routerPath', dist_get dist' dstR)))
      | _ \<Rightarrow> Some (Inl NotRoutable))"

section \<open>Walks and their weights\<close>

definition walk :: "('v \<Rightarrow> 'v set) \<Rightarrow> 'v list \<Rightarrow> bool" where
  "walk nb p \<longleftrightarrow> p \<noteq> [] \<and> successively (\<lambda>u v. v \<in> nb u) p"

fun weight :: "('v \<Rightarrow> 'v \<Rightarrow> int) \<Rightarrow> 'v list \<Rightarrow> int" where
  "weight w (u # v # p) = w u v + weight w (v # p)"
| "weight w _ = 0"

lemma walk_single [simp]: "walk nb [v]"
  by (simp add: walk_def)

lemma walk_snoc: "p \<noteq> [] \<Longrightarrow> walk nb (p @ [v]) \<longleftrightarrow> walk nb p \<and> v \<in> nb (last p)"
  by (auto simp: walk_def successively_append_iff)

lemma weight_snoc: "p \<noteq> [] \<Longrightarrow> weight w (p @ [v]) = weight w p + w (last p) v"
  by (induction w p rule: weight.induct) auto

lemma set_butlast_last: "p \<noteq> [] \<Longrightarrow> set p = insert (last p) (set (butlast p))"
  by (cases p rule: rev_cases) auto

text \<open>What the visit of a router \<open>u\<close> does to distances and predecessors.\<close>

definition closer :: "('v \<Rightarrow> 'v set) \<Rightarrow> ('v \<Rightarrow> 'v \<Rightarrow> int) \<Rightarrow> ('v \<Rightarrow> int) \<Rightarrow> 'v set \<Rightarrow> 'v \<Rightarrow> 'v \<Rightarrow> bool" where
  "closer nb w dist Q u v \<longleftrightarrow> v \<in> Q - {u} \<and> v \<in> nb u \<and> dist u + w u v < dist v"

definition visit_dist ::
  "('v \<Rightarrow> 'v set) \<Rightarrow> ('v \<Rightarrow> 'v \<Rightarrow> int) \<Rightarrow> ('v \<Rightarrow> int) \<Rightarrow> 'v set \<Rightarrow> 'v \<Rightarrow> 'v \<Rightarrow> int" where
  "visit_dist nb w dist Q u = (\<lambda>v. if closer nb w dist Q u v then dist u + w u v else dist v)"

definition visit_prev ::
  "('v \<Rightarrow> 'v set) \<Rightarrow> ('v \<Rightarrow> 'v \<Rightarrow> int) \<Rightarrow> ('v \<Rightarrow> int) \<Rightarrow> ('v \<rightharpoonup> 'v) \<Rightarrow> 'v set \<Rightarrow> 'v \<Rightarrow> 'v \<rightharpoonup> 'v" where
  "visit_prev nb w dist prev Q u = (\<lambda>v. if closer nb w dist Q u v then Some u else prev v)"

lemma visit_dist_le: "visit_dist nb w dist Q u v \<le> dist v"
  by (simp add: visit_dist_def closer_def)

lemma visit_keeps:
  "v \<notin> Q - {u} \<Longrightarrow> visit_dist nb w dist Q u v = dist v \<and> visit_prev nb w dist prev Q u v = prev v"
  by (auto simp: visit_dist_def visit_prev_def closer_def)

lemma visit_chain:
  assumes "successively (\<lambda>x y. prev y = Some x) p" and "\<And>y. y \<in> set p \<Longrightarrow> \<not> closer nb w dist Q u y"
  shows "successively (\<lambda>x y. visit_prev nb w dist prev Q u y = Some x) p"
  using assms by (induction p rule: induct_list012) (auto simp: visit_prev_def)

text \<open>A walk along the predecessors that reaches \<open>v\<close> through visited routers only.\<close>

definition pred_walk ::
  "'v set \<Rightarrow> ('v \<Rightarrow> 'v set) \<Rightarrow> ('v \<Rightarrow> 'v \<Rightarrow> int) \<Rightarrow> 'v \<Rightarrow> ('v \<rightharpoonup> 'v) \<Rightarrow> 'v set \<Rightarrow> 'v list \<Rightarrow> 'v \<Rightarrow> int \<Rightarrow> bool" where
  "pred_walk V nb w s prev Q p v d \<longleftrightarrow>
     p \<noteq> [] \<and> hd p = s \<and> last p = v \<and> set p \<subseteq> V \<and> set (butlast p) \<subseteq> V - Q \<and>
     successively (\<lambda>u v. prev v = Some u) p \<and> walk nb p \<and> weight w p = d \<and> distinct p"

lemma pred_walk_visit:
  assumes p: "pred_walk V nb w s prev Q p v d" and v: "\<not> closer nb w dist Q u v"
  shows "pred_walk V nb w s (visit_prev nb w dist prev Q u) (Q - {u}) p v d"
proof -
  have "\<not> closer nb w dist Q u x" if "x \<in> set p" for x
  proof (cases "x = v")
    case False
    then have "x \<in> set (butlast p)" using that p set_butlast_last [of p] unfolding pred_walk_def by blast
    then show ?thesis using p unfolding pred_walk_def closer_def by blast
  qed (use v in simp)
  then have "successively (\<lambda>x y. visit_prev nb w dist prev Q u y = Some x) p"
    using p unfolding pred_walk_def by (intro visit_chain) blast+
  then show ?thesis using p unfolding pred_walk_def by blast
qed

lemma pred_walk_extend:
  assumes p: "pred_walk V nb w s prev Q p u (dist u)" and u: "u \<in> Q" and QV: "Q \<subseteq> V"
    and c: "closer nb w dist Q u v"
  shows "pred_walk V nb w s (visit_prev nb w dist prev Q u) (Q - {u}) (p @ [v]) v (dist u + w u v)"
proof -
  have pn: "p \<noteq> []" "last p = u" "set (butlast p) \<subseteq> V - Q" using p unfolding pred_walk_def by blast+
  have sp: "set p \<subseteq> V - (Q - {u})" using set_butlast_last [OF pn(1)] pn(2,3) u QV by auto
  then have "\<not> closer nb w dist Q u x" if "x \<in> set p" for x using that unfolding closer_def by blast
  then have "successively (\<lambda>x y. visit_prev nb w dist prev Q u y = Some x) p"
    using p unfolding pred_walk_def by (intro visit_chain) blast+
  then have "successively (\<lambda>x y. visit_prev nb w dist prev Q u y = Some x) (p @ [v])"
    using c pn by (simp add: successively_append_iff visit_prev_def)
  moreover have "v \<notin> set p" "v \<in> V" "v \<in> nb u" using sp c QV unfolding closer_def by blast+
  ultimately show ?thesis
    using p sp pn by (simp add: pred_walk_def walk_snoc weight_snoc)
qed

text \<open>
  The state of the search, abstractly: distances, predecessors, and the routers \<open>Q\<close> that are not visited
  yet. Every finite distance is the weight of a walk along the predecessors, the visited routers are
  settled, and no unvisited router is closer than a visited one.
\<close>

definition search_inv ::
  "'v set \<Rightarrow> ('v \<Rightarrow> 'v set) \<Rightarrow> ('v \<Rightarrow> 'v \<Rightarrow> int) \<Rightarrow> 'v \<Rightarrow> int \<Rightarrow> ('v \<Rightarrow> int) \<Rightarrow> ('v \<rightharpoonup> 'v) \<Rightarrow> 'v set \<Rightarrow> bool" where
  "search_inv V nb w s M dist prev Q \<longleftrightarrow>
     Q \<subseteq> V \<and> (\<forall>v \<in> V. 0 \<le> dist v \<and> dist v \<le> M) \<and> (s \<in> V \<longrightarrow> dist s = 0) \<and> prev s = None \<and>
     (\<forall>v. prev v \<noteq> None \<longrightarrow> v \<in> V \<and> dist v < M) \<and>
     (\<forall>v \<in> V. dist v < M \<longrightarrow> (\<exists>p. pred_walk V nb w s prev Q p v (dist v))) \<and>
     (\<forall>u \<in> V - Q. \<forall>v \<in> V. v \<in> nb u \<longrightarrow> dist v \<le> dist u + w u v) \<and>
     (\<forall>u \<in> V - Q. \<forall>v \<in> Q. dist u \<le> dist v)"

text \<open>
  What the search relies on: no edge of an admissible graph has a negative weight. The graph is the
  parameter \<open>g\<close>, so that the locale can be interpreted on the edges of every network at once.
\<close>

locale weighted_graph =
  fixes ok :: "'g \<Rightarrow> bool"
    and nbs :: "'g \<Rightarrow> 'v \<Rightarrow> 'v set"
    and wt :: "'g \<Rightarrow> 'v \<Rightarrow> 'v \<Rightarrow> int"
  assumes wt_nonneg: "ok g \<Longrightarrow> 0 \<le> wt g u v"
begin

lemma weight_nonneg: "ok g \<Longrightarrow> 0 \<le> weight (wt g) p"
  by (induction "wt g" p rule: weight.induct) (simp_all add: wt_nonneg)

text \<open>Every walk from the source leads to a settled distance or past an unvisited router that is close.\<close>

lemma walk_bound:
  assumes g: "ok g" and inv: "search_inv V (nbs g) (wt g) s M dist prev Q"
    and "walk (nbs g) p" and "set p \<subseteq> V" and "hd p = s"
  shows "dist (last p) \<le> weight (wt g) p \<or> (\<exists>x \<in> Q. dist x \<le> weight (wt g) p)"
  using assms(3-5)
proof (induction p rule: rev_induct)
  case Nil
  then show ?case by (simp add: walk_def)
next
  case (snoc v p)
  show ?case
  proof (cases "p = []")
    case True
    then show ?thesis using snoc.prems inv by (simp add: search_inv_def)
  next
    case False
    have wp: "walk (nbs g) p" "v \<in> nbs g (last p)" using snoc.prems(1) False by (simp_all add: walk_snoc)
    have le: "weight (wt g) p \<le> weight (wt g) (p @ [v])"
      using weight_snoc [OF False, of "wt g" v] wt_nonneg [OF g, of "last p" v] by simp
    have IH: "dist (last p) \<le> weight (wt g) p \<or> (\<exists>x \<in> Q. dist x \<le> weight (wt g) p)"
      using snoc.IH wp(1) snoc.prems(2,3) False by simp
    have l: "last p \<in> V" "v \<in> V" using snoc.prems(2) False by auto
    show ?thesis
    proof (cases "last p \<in> V - Q \<and> dist (last p) \<le> weight (wt g) p")
      case True
      then have "dist v \<le> dist (last p) + wt g (last p) v"
        using inv l(2) wp(2) unfolding search_inv_def by blast
      then show ?thesis using True weight_snoc [OF False, of "wt g" v] by simp
    next
      case False
      then have "\<exists>x \<in> Q. dist x \<le> weight (wt g) p" using IH l(1) by blast
      then show ?thesis using le by force
    qed
  qed
qed

lemma search_optimal:
  assumes "ok g" and "search_inv V (nbs g) (wt g) s M dist prev Q"
    and "t \<in> Q" and "\<forall>v \<in> Q. dist t \<le> dist v"
    and "walk (nbs g) p" and "set p \<subseteq> V" and "hd p = s" and "last p = t"
  shows "dist t \<le> weight (wt g) p"
  using walk_bound [OF assms(1,2,5,6,7)] assms(3,4,8) by force

text \<open>Visiting a closest router keeps the invariant, clause by clause.\<close>

lemma visit_closer:
  assumes "ok g" and "search_inv V (nbs g) (wt g) s M dist prev Q" and "u \<in> Q" and "closer (nbs g) (wt g) dist Q u v"
  shows "v \<in> V \<and> dist u < M \<and> 0 \<le> dist u + wt g u v \<and> dist u + wt g u v < M \<and> v \<noteq> s"
proof -
  have b: "v \<in> V" "u \<in> V" "0 \<le> dist u" "dist v \<le> M" "s \<in> V \<longrightarrow> dist s = 0" "dist u + wt g u v < dist v"
    using assms(2-4) unfolding search_inv_def closer_def by blast+
  then show ?thesis using wt_nonneg [OF assms(1), of u v] by (cases "v = s") auto
qed

lemma search_inv_far: "search_inv V nb w s M dist prev Q \<Longrightarrow> x \<in> V - Q \<Longrightarrow> v \<in> Q \<Longrightarrow> dist x \<le> dist v"
  unfolding search_inv_def by blast

lemma visit_walks:
  assumes g: "ok g" and inv: "search_inv V (nbs g) (wt g) s M dist prev Q" and u: "u \<in> Q"
    and v: "v \<in> V" "visit_dist (nbs g) (wt g) dist Q u v < M"
  shows "\<exists>p. pred_walk V (nbs g) (wt g) s (visit_prev (nbs g) (wt g) dist prev Q u) (Q - {u}) p v
    (visit_dist (nbs g) (wt g) dist Q u v)"
proof (cases "closer (nbs g) (wt g) dist Q u v")
  case True
  have QV: "Q \<subseteq> V" using inv unfolding search_inv_def by blast
  then obtain p where "pred_walk V (nbs g) (wt g) s prev Q p u (dist u)"
    using inv u visit_closer [OF g inv u True] unfolding search_inv_def by blast
  from pred_walk_extend [OF this u QV True] show ?thesis using True by (auto simp: visit_dist_def)
next
  case False
  then have d: "visit_dist (nbs g) (wt g) dist Q u v = dist v" by (simp add: visit_dist_def)
  then obtain p where "pred_walk V (nbs g) (wt g) s prev Q p v (dist v)"
    using inv v unfolding search_inv_def by auto
  from pred_walk_visit [OF this False] show ?thesis unfolding d by blast
qed

lemma visit_settled:
  assumes g: "ok g" and inv: "search_inv V (nbs g) (wt g) s M dist prev Q" and u: "u \<in> Q"
    and x: "x \<in> V - (Q - {u})" "v \<in> V" "v \<in> nbs g x"
  shows "visit_dist (nbs g) (wt g) dist Q u v \<le> visit_dist (nbs g) (wt g) dist Q u x + wt g x v"
proof -
  let ?d = "visit_dist (nbs g) (wt g) dist Q u"
  have dx: "?d x = dist x" using x(1) by (intro visit_keeps [THEN conjunct1]) blast
  have dv: "?d v \<le> dist v" by (rule visit_dist_le)
  show ?thesis
  proof (cases "x \<in> Q")
    case False
    then have "dist v \<le> dist x + wt g x v" using inv x unfolding search_inv_def by blast
    then show ?thesis using dx dv by linarith
  next
    case True
    then have xu: "x = u" using x(1) by blast
    show ?thesis
    proof (cases "v \<in> Q - {u}")
      case True
      then show ?thesis using x(3) dx unfolding xu by (auto simp: visit_dist_def closer_def)
    next
      case False
      then have "v = u \<or> v \<in> V - Q" using x(2) by blast
      then have "dist v \<le> dist u" using search_inv_far [OF inv _ u] by fastforce
      then show ?thesis using dx dv wt_nonneg [OF g, of x v] unfolding xu by linarith
    qed
  qed
qed

lemma visit_far:
  assumes g: "ok g" and inv: "search_inv V (nbs g) (wt g) s M dist prev Q"
    and u: "u \<in> Q" "\<forall>v \<in> Q. dist u \<le> dist v" and x: "x \<in> V - (Q - {u})" and v: "v \<in> Q - {u}"
  shows "visit_dist (nbs g) (wt g) dist Q u x \<le> visit_dist (nbs g) (wt g) dist Q u v"
proof -
  have "visit_dist (nbs g) (wt g) dist Q u x = dist x" using x by (intro visit_keeps [THEN conjunct1]) blast
  moreover have "x = u \<or> x \<in> V - Q" using x by blast
  then have "dist x \<le> dist u" using search_inv_far [OF inv _ u(1)] by fastforce
  moreover have "dist u \<le> visit_dist (nbs g) (wt g) dist Q u v"
    using u(2) v wt_nonneg [OF g, of u v] by (simp add: visit_dist_def)
  ultimately show ?thesis by linarith
qed

lemma visit_bounds:
  assumes g: "ok g" and inv: "search_inv V (nbs g) (wt g) s M dist prev Q" and u: "u \<in> Q"
  shows "v \<in> V \<Longrightarrow> 0 \<le> visit_dist (nbs g) (wt g) dist Q u v \<and> visit_dist (nbs g) (wt g) dist Q u v \<le> M"
    and "s \<in> V \<longrightarrow> visit_dist (nbs g) (wt g) dist Q u s = 0"
    and "visit_prev (nbs g) (wt g) dist prev Q u s = None"
    and "visit_prev (nbs g) (wt g) dist prev Q u v \<noteq> None \<Longrightarrow> v \<in> V \<and> visit_dist (nbs g) (wt g) dist Q u v < M"
proof -
  let ?c = "closer (nbs g) (wt g) dist Q u"
  have b: "v \<in> V \<Longrightarrow> 0 \<le> dist v \<and> dist v \<le> M" "prev v \<noteq> None \<Longrightarrow> v \<in> V \<and> dist v < M"
    "s \<in> V \<longrightarrow> dist s = 0" "prev s = None" for v
    using inv unfolding search_inv_def by blast+
  note c = visit_closer [OF g inv u]
  have ns: "\<not> ?c s" using c by blast
  show "s \<in> V \<longrightarrow> visit_dist (nbs g) (wt g) dist Q u s = 0" "visit_prev (nbs g) (wt g) dist prev Q u s = None"
    using b(3,4) ns by (simp_all add: visit_dist_def visit_prev_def)
  show "0 \<le> visit_dist (nbs g) (wt g) dist Q u v \<and> visit_dist (nbs g) (wt g) dist Q u v \<le> M" if "v \<in> V"
    using b(1) [OF that] c [of v] by (cases "?c v") (simp_all add: visit_dist_def)
  show "v \<in> V \<and> visit_dist (nbs g) (wt g) dist Q u v < M" if "visit_prev (nbs g) (wt g) dist prev Q u v \<noteq> None"
    using b(2) [of v] that c [of v] by (cases "?c v") (simp_all add: visit_dist_def visit_prev_def)
qed

lemma search_visit:
  assumes g: "ok g" and inv: "search_inv V (nbs g) (wt g) s M dist prev Q"
    and u: "u \<in> Q" "\<forall>v \<in> Q. dist u \<le> dist v"
  shows "search_inv V (nbs g) (wt g) s M (visit_dist (nbs g) (wt g) dist Q u)
    (visit_prev (nbs g) (wt g) dist prev Q u) (Q - {u})"
  unfolding search_inv_def
  by (intro conjI ballI allI impI visit_bounds [OF g inv u(1)] visit_walks [OF g inv u(1)]
      visit_settled [OF g inv u(1)] visit_far [OF g inv u])
    (use inv in \<open>auto simp: search_inv_def\<close>)

end

section \<open>The edges of the network\<close>

definition neighbors :: "net \<Rightarrow> nat \<Rightarrow> nat set" where
  "neighbors n u = snd ` set (fold (neighbor_step n u) (r_allLinks (net_routers n u)) [])"

lemma set_ConnectedNeighborsOfRouter [simp]:
  "set (ConnectedNeighborsOfRouter rank n u) = neighbors n u"
  by (simp add: ConnectedNeighborsOfRouter_def neighbors_def)

text \<open>Link costs are not negative and far from the 64 bit limit.\<close>

definition cost_bounded :: "net \<Rightarrow> bool" where
  "cost_bounded n \<longleftrightarrow> (\<forall>r k a. a \<in> set (r_linkByRouter (net_routers n r) k) \<longrightarrow>
     0 \<le> l_Cost (net_links n a) \<and> l_Cost (net_links n a) \<le> 4611686018427387904)"

lemma router_cost_bounds: "0 \<le> router_cost n m r \<and> router_cost n m r < 65536"
  using unat_u16_less [of "max (r_Cost (net_routers n r)) m"] unfolding router_cost_def by linarith

lemma LeastExpensiveLink_indexed:
  assumes "LeastExpensiveLink n a b = Some l"
  shows "l \<in> set (r_linkByRouter (net_routers n a) (router_id n b))" and "l_usable (net_links n l)"
    and "joins n b l"
proof -
  obtain c where "least_ok n (candidates n a b) (LeastExpensiveLink n a b, c)" by (rule LeastExpensiveLink_ok)
  then have "l \<in> candidates n a b" using assms by (simp add: least_ok_def)
  then show "l \<in> set (r_linkByRouter (net_routers n a) (router_id n b))" "l_usable (net_links n l)" "joins n b l"
    by (simp_all add: candidates_def joins_def)
qed

lemma edge_cost_link:
  assumes "cost_bounded n" and "LeastExpensiveLink n r u = Some l"
    and "\<not> r_NoTraversal (net_routers n r) \<or> r = s \<or> r = t"
  shows "edge_cost n m s t u r = l_Cost (net_links n l) + router_cost n m r"
proof -
  have "0 \<le> l_Cost (net_links n l)" "l_Cost (net_links n l) \<le> 4611686018427387904"
    using assms(1) LeastExpensiveLink_indexed(1) [OF assms(2)] unfolding cost_bounded_def by blast+
  then have "wrap64 (l_Cost (net_links n l) + router_cost n m r) = l_Cost (net_links n l) + router_cost n m r"
    using router_cost_bounds [of n m r] by (intro wrap64_id) (simp_all add: maxInt64_def)
  then show ?thesis using assms(2,3) by (simp add: edge_cost_def)
qed

lemma edge_cost_bounds:
  assumes "cost_bounded n"
  shows "0 \<le> edge_cost n m s t u r \<and> edge_cost n m s t u r \<le> 4611686018427453439"
proof (cases "LeastExpensiveLink n r u")
  case None
  then show ?thesis by (simp add: edge_cost_def maxInt32_def)
next
  case (Some l)
  have l: "0 \<le> l_Cost (net_links n l)" "l_Cost (net_links n l) \<le> 4611686018427387904"
    using assms(1) LeastExpensiveLink_indexed(1) [OF Some] unfolding cost_bounded_def by blast+
  show ?thesis
  proof (cases "\<not> r_NoTraversal (net_routers n r) \<or> r = s \<or> r = t")
    case True
    then show ?thesis using edge_cost_link [OF assms Some True, of m] l router_cost_bounds [of n m r] by simp
  next
    case False
    then show ?thesis using Some by (simp add: edge_cost_def maxInt32_def)
  qed
qed

interpretation net_graph: weighted_graph
  "\<lambda>(n, m, s, t). cost_bounded n" "\<lambda>(n, m, s, t). neighbors n" "\<lambda>(n, m, s, t). edge_cost n m s t"
  by unfold_locales (auto simp: edge_cost_bounds)

section \<open>The loops\<close>

lemma minCost_min:
  assumes "q \<noteq> []" and "dist \<noteq> []" and "\<forall>v \<in> set q. dist_get dist v \<le> maxInt64"
  obtains u where "minCost rank q dist = Some u" "u \<in> set q" "\<forall>v \<in> set q. dist_get dist u \<le> dist_get dist v"
proof -
  have *: "\<exists>u. fst (fold (min_step dist) xs best) = Some u \<and>
      snd (fold (min_step dist) xs best) = dist_get dist u \<and> dist_get dist u \<le> dist_get dist b \<and>
      (\<forall>v \<in> set xs. dist_get dist u \<le> dist_get dist v)"
    if "best = (Some b, dist_get dist b)" for xs best b
    using that
  proof (induction xs arbitrary: best b)
    case (Cons x xs)
    define y where "y = (if dist_get dist x \<le> dist_get dist b then x else b)"
    have "min_step dist x best = (Some y, dist_get dist y)"
      using Cons.prems by (simp add: min_step_def y_def)
    from Cons.IH [OF this] show ?case by (auto simp: y_def split: if_splits)
  qed auto
  obtain x xs where q: "range_order rank q = x # xs"
    using assms(1) by (cases "range_order rank q") auto
  then have sq: "set q = set (x # xs)" by (metis set_range_order)
  then have "min_step dist x (None, maxInt64) = (Some x, dist_get dist x)"
    using assms(3) by (simp add: min_step_def)
  from * [OF this, of xs] obtain u where
    "fst (fold (min_step dist) (range_order rank q) (None, maxInt64)) = Some u"
    "dist_get dist u \<le> dist_get dist x" "\<forall>v \<in> set xs. dist_get dist u \<le> dist_get dist v"
    using q by auto
  then have "minCost rank q dist = Some u" "\<forall>v \<in> set q. dist_get dist u \<le> dist_get dist v"
    using assms(2) sq by (auto simp: minCost_def)
  then show thesis using that minCost_mem by blast
qed

lemma dist_get_update: "dist_get (AList.update r d dist) v = (if v = r then d else dist_get dist v)"
  by (simp add: dist_get_def update_conv')

lemma relax_fold:
  assumes "u \<notin> set Q" and "\<And>v. v \<in> set Q \<Longrightarrow> wrap64 (dist_get dist u + c u v) = dist_get dist u + c u v"
    and "fold (relax c u Q) nbs (dist, prev) = (dist', prev')"
    and "better = (\<lambda>v. v \<in> set Q \<and> v \<in> set nbs \<and> dist_get dist u + c u v < dist_get dist v)"
  shows "dist_get dist' = (\<lambda>v. if better v then dist_get dist u + c u v else dist_get dist v) \<and>
    map_of prev' = (\<lambda>v. if better v then Some u else map_of prev v) \<and> (dist \<noteq> [] \<longrightarrow> dist' \<noteq> [])"
  using assms
proof (induction nbs arbitrary: dist prev better)
  case Nil
  then show ?case by auto
next
  case (Cons r nbs)
  obtain d1 p1 where st: "relax c u Q r (dist, prev) = (d1, p1)" by (rule prod.exhaust)
  define up where "up = (r \<in> set Q \<and> dist_get dist u + c u r < dist_get dist r)"
  have d1: "dist_get d1 v = (if v = r \<and> up then dist_get dist u + c u r else dist_get dist v)"
    "map_of p1 v = (if v = r \<and> up then Some u else map_of prev v)" "dist \<noteq> [] \<longrightarrow> d1 \<noteq> []" for v
    using st Cons.prems(2)
    by (auto simp: relax_def up_def Let_def dist_get_update update_conv' split: if_splits)
  have du: "dist_get d1 u = dist_get dist u" using d1(1) [of u] Cons.prems(1) by (auto simp: up_def)
  have rest: "fold (relax c u Q) nbs (d1, p1) = (dist', prev')" using Cons.prems(3) st by simp
  have nowrap: "\<And>v. v \<in> set Q \<Longrightarrow> wrap64 (dist_get d1 u + c u v) = dist_get d1 u + c u v"
    unfolding du by (rule Cons.prems(2))
  note IH = Cons.IH [OF Cons.prems(1) nowrap rest refl]
  show ?case
    using IH unfolding du Cons.prems(4) by (auto simp: fun_eq_iff d1 up_def)
qed

definition search_state :: "net \<Rightarrow> u16 \<Rightarrow> nat \<Rightarrow> nat \<Rightarrow> (nat \<times> int) list \<Rightarrow> (nat \<times> nat) list \<Rightarrow> nat set \<Rightarrow> bool" where
  "search_state n m s t dist prev Q \<longleftrightarrow>
     search_inv (set (AllConnected n)) (neighbors n) (edge_cost n m s t) s maxInt32 (dist_get dist) (map_of prev) Q \<and>
     dist \<noteq> []"

lemma search_state_visit:
  assumes cb: "cost_bounded n" and inv: "search_state n m s t dist prev (set Q)"
    and u: "u \<in> set Q" "\<forall>v \<in> set Q. dist_get dist u \<le> dist_get dist v"
    and f: "fold (relax (edge_cost n m s t) u (filter (\<lambda>r. r \<noteq> u) Q)) (ConnectedNeighborsOfRouter rank n u)
      (dist, prev) = (dist', prev')"
  shows "search_state n m s t dist' prev' (set (filter (\<lambda>r. r \<noteq> u) Q))"
proof -
  have Q: "set (filter (\<lambda>r. r \<noteq> u) Q) = set Q - {u}" by auto
  have du: "0 \<le> dist_get dist u \<and> dist_get dist u \<le> maxInt32"
    using inv u(1) unfolding search_state_def search_inv_def by blast
  have w: "wrap64 (dist_get dist u + edge_cost n m s t u v) = dist_get dist u + edge_cost n m s t u v" for v
    using du edge_cost_bounds [OF cb, of m s t u v] by (intro wrap64_id) (simp_all add: maxInt32_def maxInt64_def)
  note R = relax_fold [OF _ w f refl, unfolded Q set_ConnectedNeighborsOfRouter]
  have "search_inv (set (AllConnected n)) (neighbors n) (edge_cost n m s t) s maxInt32
      (dist_get dist') (map_of prev') (set Q - {u})"
    using net_graph.search_visit [of "(n, m, s, t)", unfolded prod.case, OF cb _ u] inv R
    unfolding search_state_def visit_dist_def visit_prev_def closer_def by auto
  then show ?thesis using R inv unfolding search_state_def Q by auto
qed

lemma sp_loop_correct:
  assumes "cost_bounded n" and "search_state n m s t dist prev (set Q)"
  shows "\<exists>dist' prev' Q'. sp_loop qr nr n m s t dist prev Q = Some (dist', prev') \<and>
    search_state n m s t dist' prev' Q' \<and>
    (t \<in> set Q \<longrightarrow> t \<in> Q' \<and> (\<forall>v \<in> Q'. dist_get dist' t \<le> dist_get dist' v))"
  using assms
proof (induction qr nr n m s t dist prev Q rule: sp_loop.induct)
  case (1 qr nr n m s t dist prev Q)
  show ?case
  proof (cases "Q = []")
    case True
    then show ?thesis using 1(3) by (subst sp_loop.simps) auto
  next
    case False
    have bnd: "\<forall>v \<in> set Q. dist_get dist v \<le> maxInt64" "dist \<noteq> []"
      using 1(3) unfolding search_state_def search_inv_def maxInt32_def maxInt64_def by force+
    obtain u where u: "minCost (qr Q) Q dist = Some u" "u \<in> set Q" "\<forall>v \<in> set Q. dist_get dist u \<le> dist_get dist v"
      using minCost_min [OF False bnd(2,1)] by blast
    show ?thesis
    proof (cases "u = t")
      case True
      then show ?thesis using u False 1(3) by (subst sp_loop.simps) auto
    next
      case ut: False
      let ?Q = "filter (\<lambda>r. r \<noteq> u) Q"
      obtain d1 p1 where f: "fold (relax (edge_cost n m s t) u ?Q) (ConnectedNeighborsOfRouter (nr Q) n u)
          (dist, prev) = (d1, p1)" by (rule prod.exhaust)
      have s1: "search_state n m s t d1 p1 (set ?Q)"
        by (rule search_state_visit [OF 1(2,3) u(2,3) f])
      have step: "sp_loop qr nr n m s t dist prev Q = sp_loop qr nr n m s t d1 p1 ?Q"
        by (subst sp_loop.simps) (simp add: False u(1) ut f Let_def)
      from 1(1) [OF False u(1) ut refl refl f [symmetric] refl 1(2) s1] show ?thesis
        unfolding step using ut by auto
    qed
  qed
qed

lemma prev_path_walk:
  assumes "successively (\<lambda>u v. map_of prev v = Some u) p" and "p \<noteq> []" and "map_of prev (hd p) = None"
  shows "prev_path prev (map_of prev (last p)) acc = Some (butlast p @ acc)"
  using assms
proof (induction p arbitrary: acc rule: rev_induct)
  case (snoc v p)
  show ?case
  proof (cases "p = []")
    case True
    then show ?thesis using snoc.prems by (subst prev_path.simps) simp
  next
    case False
    then have "map_of prev v = Some (last p)" "successively (\<lambda>u v. map_of prev v = Some u) p"
      using snoc.prems(1) by (simp_all add: successively_append_iff)
    then show ?thesis
      using snoc.IH [of "last p # acc"] False snoc.prems(3) by (subst prev_path.simps) simp
  qed
qed simp

lemma dist_init:
  "map_of (fold (\<lambda>r. AList.update r M) rs d) v = (if v \<in> set rs then Some M else map_of d v)"
  by (induction rs arbitrary: d) (auto simp: update_conv')

lemma search_start:
  "search_state n m s t (AList.update s 0 (fold (\<lambda>r. AList.update r maxInt32) (AllConnected n) [])) []
     (set (AllConnected n))"
proof -
  let ?d = "AList.update s 0 (fold (\<lambda>r. AList.update r maxInt32) (AllConnected n) [])"
  have "map_of ?d s \<noteq> None" by (simp add: update_conv')
  then have ne: "?d \<noteq> []" by auto
  have d: "dist_get ?d v = (if v = s then 0 else if v \<in> set (AllConnected n) then maxInt32 else 0)" for v
    by (simp add: dist_get_update) (simp add: dist_get_def dist_init)
  have "\<exists>p. pred_walk (set (AllConnected n)) (neighbors n) (edge_cost n m s t) s (map_of []) (set (AllConnected n)) p v
      (dist_get ?d v)"
    if "v \<in> set (AllConnected n)" "dist_get ?d v < maxInt32" for v
    using that d [of v] by (intro exI [of _ "[s]"]) (auto simp: pred_walk_def split: if_splits)
  then show ?thesis
    unfolding search_state_def search_inv_def using ne d by (auto simp: maxInt32_def)
qed

section \<open>Properties\<close>

text \<open>A route: a walk between connected routers over usable links, from one router to another.\<close>

definition route_between :: "net \<Rightarrow> nat \<Rightarrow> nat \<Rightarrow> nat list \<Rightarrow> bool" where
  "route_between n s t p \<longleftrightarrow>
     walk (neighbors n) p \<and> set p \<subseteq> set (AllConnected n) \<and> hd p = s \<and> last p = t"

lemma shortestPath_result:
  assumes cb: "cost_bounded n" and s: "s = current_instance n s0" and t: "t = current_instance n t0" and st: "s \<noteq> t"
  shows "\<exists>res. shortestPath qr nr n m (Some s0) (Some t0) = Some res \<and>
    (case res of
       Inl e \<Rightarrow> e = CantRoute \<and> (\<forall>p. route_between n s t p \<longrightarrow> maxInt32 \<le> weight (edge_cost n m s t) p)
     | Inr (p, c) \<Rightarrow> route_between n s t p \<and> distinct p \<and> c = weight (edge_cost n m s t) p \<and> c < maxInt32 \<and>
         (\<forall>q. route_between n s t q \<longrightarrow> c \<le> weight (edge_cost n m s t) q))"
proof -
  let ?V = "set (AllConnected n)" and ?w = "edge_cost n m s t"
  let ?d = "AList.update s 0 (fold (\<lambda>r. AList.update r maxInt32) (AllConnected n) [])"
  obtain dist prev Q where loop: "sp_loop qr nr n m s t ?d [] (remdups (AllConnected n)) = Some (dist, prev)"
    and inv: "search_inv ?V (neighbors n) ?w s maxInt32 (dist_get dist) (map_of prev) Q"
    and tQ: "t \<in> ?V \<Longrightarrow> t \<in> Q \<and> (\<forall>v \<in> Q. dist_get dist t \<le> dist_get dist v)"
    using sp_loop_correct [OF cb, of m s t ?d "[]" "remdups (AllConnected n)" qr nr] search_start [of n m s t]
    unfolding search_state_def by auto
  have opt: "dist_get dist t \<le> weight ?w q" if "route_between n s t q" for q
  proof -
    have "t \<in> ?V" using that last_in_set [of q] unfolding route_between_def walk_def by blast
    then show ?thesis
      using net_graph.search_optimal [of "(n, m, s, t)", unfolded prod.case, OF cb inv] tQ that
      unfolding route_between_def by blast
  qed
  have path: "shortestPath qr nr n m (Some s0) (Some t0) = (case prev_path prev (map_of prev t) [] of
      None \<Rightarrow> None | Some p \<Rightarrow> if hd (p @ [t]) \<noteq> s then Some (Inl CantRoute)
        else Some (Inr (p @ [t], dist_get dist t)))"
    using loop st by (simp add: shortestPath_def s [symmetric] t [symmetric] Let_def split: option.split)
  show ?thesis
  proof (cases "t \<in> ?V \<and> dist_get dist t < maxInt32")
    case True
    then obtain p where p: "p \<noteq> []" "hd p = s" "last p = t" "set p \<subseteq> ?V"
      "successively (\<lambda>u v. map_of prev v = Some u) p" "walk (neighbors n) p" "weight ?w p = dist_get dist t" "distinct p"
      using inv unfolding search_inv_def pred_walk_def by blast
    have "map_of prev (hd p) = None" using inv p(2) unfolding search_inv_def by blast
    then have "prev_path prev (map_of prev t) [] = Some (butlast p)"
      using prev_path_walk [OF p(5,1), of "[]"] p(3) by simp
    moreover have "butlast p @ [t] = p" using p(1,3) by auto
    ultimately have "shortestPath qr nr n m (Some s0) (Some t0) = Some (Inr (p, dist_get dist t))"
      using path p(2) by simp
    then show ?thesis using p opt True by (auto simp: route_between_def)
  next
    case False
    then have "map_of prev t = None" using inv unfolding search_inv_def by blast
    then have "shortestPath qr nr n m (Some s0) (Some t0) = Some (Inl CantRoute)"
      using path st by (simp add: prev_path.simps)
    moreover have "maxInt32 \<le> weight ?w q" if "route_between n s t q" for q
    proof -
      have "t \<in> ?V" using that last_in_set [of q] unfolding route_between_def walk_def by blast
      then show ?thesis using False opt [OF that] by linarith
    qed
    ultimately show ?thesis by simp
  qed
qed

text \<open>
  C1. Path search is correct. Whatever order the map loops take, the search returns, without panicking.
  When it finds a path, the path is a route from the current instance of the source router to that of the
  destination that visits no router twice, the returned cost is the sum of its edge costs, and no
  other route is cheaper. When it reports that there is no path, every route costs at least the largest
  32 bit number, which is the cost the search starts from.
\<close>

theorem shortestPath_optimal:
  assumes "cost_bounded n" and "s = current_instance n s0" and "t = current_instance n t0" and "s \<noteq> t"
  shows "\<exists>res. shortestPath qr nr n m (Some s0) (Some t0) = Some res \<and>
    (case res of
       Inl e \<Rightarrow> e = CantRoute \<and> (\<forall>p. route_between n s t p \<longrightarrow> maxInt32 \<le> weight (edge_cost n m s t) p)
     | Inr (p, c) \<Rightarrow> route_between n s t p \<and> distinct p \<and> c = weight (edge_cost n m s t) p \<and> c < maxInt32 \<and>
         (\<forall>q. route_between n s t q \<longrightarrow> c \<le> weight (edge_cost n m s t) q))"
  by (rule shortestPath_result [OF assms])

lemma weight_sum: "weight w p = (\<Sum>i < length p - 1. w (p ! i) (p ! Suc i))"
  by (induction w p rule: weight.induct) (simp_all add: sum.lessThan_Suc_shift del: sum.lessThan_Suc)

lemma edge_le_weight:
  assumes "cost_bounded n" and "Suc i < length p"
  shows "edge_cost n m s t (p ! i) (p ! Suc i) \<le> weight (edge_cost n m s t) p"
proof -
  have "i < length p - 1" using assms(2) by linarith
  then show ?thesis
    unfolding weight_sum using edge_cost_bounds [OF assms(1)]
    by (intro member_le_sum [of i "{..<length p - 1}" "\<lambda>i. edge_cost n m s t (p ! i) (p ! Suc i)"]) auto
qed

text \<open>The cost of a hop of a path, when the hop has a link.\<close>

definition hop_cost :: "net \<Rightarrow> u16 \<Rightarrow> nat \<Rightarrow> nat \<Rightarrow> int" where
  "hop_cost n m u r = (case LeastExpensiveLink n r u of Some l \<Rightarrow> l_Cost (net_links n l) | None \<Rightarrow> 0) + router_cost n m r"

lemma cheap_hop:
  assumes cb: "cost_bounded n" and c: "edge_cost n m s t u r < maxInt32"
  shows "LeastExpensiveLink n r u \<noteq> None \<and> (\<not> r_NoTraversal (net_routers n r) \<or> r = s \<or> r = t) \<and>
    edge_cost n m s t u r = hop_cost n m u r"
proof (cases "LeastExpensiveLink n r u")
  case None
  then show ?thesis using c by (simp add: edge_cost_def maxInt32_def)
next
  case (Some l)
  have *: "\<not> r_NoTraversal (net_routers n r) \<or> r = s \<or> r = t"
    using c Some by (auto simp: edge_cost_def maxInt32_def split: if_splits)
  from edge_cost_link [OF cb Some *, of m] show ?thesis using Some * by (simp add: hop_cost_def)
qed

lemma shortestPath_total:
  assumes cb: "cost_bounded n"
  shows "\<exists>res. shortestPath qr nr n m (Some s0) (Some t0) = Some res \<and>
    (case res of
       Inl e \<Rightarrow> e = CantRoute
     | Inr (p, c) \<Rightarrow> \<forall>q. route_between n (current_instance n s0) (current_instance n t0) q \<longrightarrow>
         c \<le> weight (edge_cost n m (current_instance n s0) (current_instance n t0)) q)"
proof (cases "current_instance n s0 = current_instance n t0")
  case True
  then show ?thesis
    using net_graph.weight_nonneg [of "(n, m, current_instance n s0, current_instance n t0)"] cb
    by (auto simp: shortestPath_def)
next
  case False
  from shortestPath_result [OF cb refl refl False, of qr nr m] show ?thesis
    by (elim exE conjE) (auto split: sum.splits)
qed

lemma shortestPath_failed:
  assumes cb: "cost_bounded n" and r: "shortestPath qr nr n m (Some s0) (Some t0) = Some (Inl e)"
    and p: "route_between n (current_instance n s0) (current_instance n t0) p"
  shows "maxInt32 \<le> weight (edge_cost n m (current_instance n s0) (current_instance n t0)) p \<and>
    current_instance n s0 \<noteq> current_instance n t0"
proof -
  have ne: "current_instance n s0 \<noteq> current_instance n t0" using r by (auto simp: shortestPath_def)
  from shortestPath_result [OF cb refl refl ne, of qr nr m] show ?thesis using r p ne by auto
qed

lemma shortestPath_found:
  assumes cb: "cost_bounded n" and r: "shortestPath qr nr n m (Some s0) (Some t0) = Some (Inr (p, c))"
  shows "p \<noteq> [] \<and> hd p = current_instance n s0 \<and> last p = current_instance n t0 \<and> distinct p \<and>
    c = weight (edge_cost n m (current_instance n s0) (current_instance n t0)) p \<and> c < maxInt32 \<and>
    (length p > 1 \<longrightarrow> route_between n (current_instance n s0) (current_instance n t0) p)"
proof (cases "current_instance n s0 = current_instance n t0")
  case True
  then show ?thesis using r by (auto simp: shortestPath_def maxInt32_def)
next
  case False
  from shortestPath_result [OF cb refl refl False, of qr nr m] r show ?thesis
    by (auto simp: route_between_def walk_def)
qed

lemma shortestPath_hops:
  assumes cb: "cost_bounded n" and r: "shortestPath qr nr n m (Some s0) (Some t0) = Some (Inr (p, c))"
  shows "(\<forall>i. Suc i < length p \<longrightarrow> (\<exists>l. LeastExpensiveLink n (p ! Suc i) (p ! i) = Some l \<and> l_usable (net_links n l))) \<and>
    (\<forall>i. 0 < i \<and> Suc i < length p \<longrightarrow> \<not> r_NoTraversal (net_routers n (p ! i))) \<and>
    c = (\<Sum>i < length p - 1. hop_cost n m (p ! i) (p ! Suc i))"
proof -
  let ?s = "current_instance n s0" and ?t = "current_instance n t0"
  note F = shortestPath_found [OF cb r]
  have cheap: "edge_cost n m ?s ?t (p ! i) (p ! Suc i) < maxInt32" if "Suc i < length p" for i
    using edge_le_weight [OF cb that, of m ?s ?t] F by linarith
  note H = cheap_hop [OF cb cheap]
  have "\<exists>l. LeastExpensiveLink n (p ! Suc i) (p ! i) = Some l \<and> l_usable (net_links n l)" if "Suc i < length p" for i
    using H [OF that] LeastExpensiveLink_indexed(2) by blast
  moreover have "\<not> r_NoTraversal (net_routers n (p ! i))" if i: "0 < i" "Suc i < length p" for i
  proof -
    obtain j where j: "i = Suc j" using i(1) by (cases i) auto
    have "p ! i \<noteq> p ! 0" "p ! i \<noteq> p ! (length p - 1)"
      using F i nth_eq_iff_index_eq [of p i] by auto
    then have "p ! i \<noteq> ?s" "p ! i \<noteq> ?t" using F by (auto simp: hd_conv_nth last_conv_nth)
    then show ?thesis using H [of j] i(2) j by auto
  qed
  moreover have "c = (\<Sum>i < length p - 1. hop_cost n m (p ! i) (p ! Suc i))"
    using F H unfolding weight_sum by (auto intro!: sum.cong)
  ultimately show ?thesis by blast
qed

text \<open>
  C2. A path that was found can be used. Every hop has a usable link between its two routers, no router
  strictly inside the path refuses traversal, and the returned cost is the sum over the hops of the cost
  of the cheapest link and the effective cost of the router it leads to, without any overflow.
\<close>

theorem shortestPath_usable:
  assumes cb: "cost_bounded n" and r: "shortestPath qr nr n m (Some s0) (Some t0) = Some (Inr (p, c))"
  shows "(\<forall>i. Suc i < length p \<longrightarrow> (\<exists>l. LeastExpensiveLink n (p ! Suc i) (p ! i) = Some l \<and> l_usable (net_links n l))) \<and>
    (\<forall>i. 0 < i \<and> Suc i < length p \<longrightarrow> \<not> r_NoTraversal (net_routers n (p ! i))) \<and>
    c = (\<Sum>i < length p - 1. hop_cost n m (p ! i) (p ! Suc i))"
  by (rule shortestPath_hops [OF assms])

subsection \<open>Witnesses\<close>

lemma sample_cost_bounded: "cost_bounded (foldl net_step sample_net sample_ops)"
  by (auto simp: cost_bounded_def sample_net_defs net_op_defs wrap64_def maxInt64_def split: if_splits)

lemma sample_current:
  "current_instance (foldl net_step sample_net sample_ops) 0 = 0"
  "current_instance (foldl net_step sample_net sample_ops) 1 = 1"
  by (simp_all add: current_instance_def sample_net_defs net_op_defs)

lemma sample_path:
  "shortestPath (\<lambda>_ r. r) (\<lambda>_ _. 0) (foldl net_step sample_net sample_ops) 10 (Some 0) (Some 1) = Some (Inr ([0, 1], 141))"
  by code_simp

theorem shortestPath_optimal_witness:
  "route_between (foldl net_step sample_net sample_ops) 0 1 [0, 1] \<and>
   weight (edge_cost (foldl net_step sample_net sample_ops) 10 0 1) [0, 1] = 141"
  using shortestPath_optimal [OF sample_cost_bounded sample_current [symmetric], of "\<lambda>_ r. r" "\<lambda>_ _. 0" 10] sample_path
  by simp

theorem shortestPath_usable_witness:
  "LeastExpensiveLink (foldl net_step sample_net sample_ops) 1 0 \<noteq> None"
  using shortestPath_usable [OF sample_cost_bounded sample_path] by fastforce

end
