(* ===== verification/Terminator_Costs.thy ===== *)
theory Terminator_Costs
  imports Ziti_Prelude
begin

text \<open>
  Precedences and costs of terminators: \<^verbatim>\<open>controller/xt/costs.go\<close>, \<^verbatim>\<open>controller/xt/events.go\<close> and
  \<^verbatim>\<open>controller/xt_common/cost_visitor.go\<close>. A precedence is a band of the 32 bit cost range. A cost
  visitor keeps one cost object per terminator and registers the same object in the global cost
  table, so the objects live in a heap of addresses and both tables hold addresses.

  The lemmas show that the bands are disjoint and ordered, and that the visitor refines an abstract
  table of circuit counts and failure costs: after any sequence of events the dynamic cost read
  through the global table is the saturated sum of the two.
\<close>

section \<open>Precedences\<close>

definition unknownMinCost :: u32 where "unknownMinCost = of_nat (4294967295 div 4 * 3)"
definition failedMinCost :: u32 where "failedMinCost = of_nat (4294967295 div 4 * 2)"
definition defaultMinCost :: u32 where "defaultMinCost = of_nat (4294967295 div 4)"
definition requireMinCost :: u32 where "requireMinCost = 0"

record precedence =
  prec_name :: string
  prec_minCost :: u32
  prec_maxCost :: u32

definition Required :: precedence where
  "Required = \<lparr>prec_name = ''required'', prec_minCost = requireMinCost, prec_maxCost = defaultMinCost - 1\<rparr>"

definition Default :: precedence where
  "Default = \<lparr>prec_name = ''default'', prec_minCost = defaultMinCost, prec_maxCost = failedMinCost - 1\<rparr>"

definition Failed :: precedence where
  "Failed = \<lparr>prec_name = ''failed'', prec_minCost = failedMinCost, prec_maxCost = unknownMinCost - 1\<rparr>"

definition Unknown :: precedence where
  "Unknown = \<lparr>prec_name = ''unknown'', prec_minCost = unknownMinCost, prec_maxCost = 4294967295\<rparr>"

definition Unbias :: "precedence \<Rightarrow> u32 \<Rightarrow> u32" where
  "Unbias p cost = cost - prec_minCost p"

definition IsFailed :: "precedence \<Rightarrow> bool" where
  "IsFailed p \<longleftrightarrow> prec_minCost p = failedMinCost"

definition IsDefault :: "precedence \<Rightarrow> bool" where
  "IsDefault p \<longleftrightarrow> prec_minCost p = defaultMinCost"

definition IsRequired :: "precedence \<Rightarrow> bool" where
  "IsRequired p \<longleftrightarrow> prec_minCost p = requireMinCost"

definition GetBaseCost :: "precedence \<Rightarrow> u32" where
  "GetBaseCost p = prec_minCost p"

definition GetBiasedCost :: "precedence \<Rightarrow> u32 \<Rightarrow> u32" where
  "GetBiasedCost p cost =
     (if cost > prec_maxCost p - prec_minCost p then prec_maxCost p else prec_minCost p + cost)"

definition GetPrecedenceForName :: "string \<Rightarrow> precedence" where
  "GetPrecedenceForName name =
     (if prec_name Required = name then Required
      else if prec_name Failed = name then Failed
      else Default)"

section \<open>Cost objects, the global table and the visitor\<close>

record terminator_costs =
  CircuitCount :: u32
  FailureCost :: u32
  CachedCost :: u32
  LastFailure :: int

definition new_TerminatorCosts :: terminator_costs where
  "new_TerminatorCosts = \<lparr>CircuitCount = 0, FailureCost = 0, CachedCost = 0, LastFailure = 0\<rparr>"

definition cache :: "u32 \<Rightarrow> terminator_costs \<Rightarrow> terminator_costs" where
  "cache circuitCost tc =
     (let cost = (ucast (CircuitCount tc) * ucast circuitCost + ucast (FailureCost tc) :: u64);
          cost' = (if cost > 4294967295 then 4294967295 else cost)
      in tc\<lparr>CachedCost := ucast cost'\<rparr>)"

definition Get :: "terminator_costs \<Rightarrow> u16" where
  "Get tc = (if CachedCost tc > 65535 then 65535 else ucast (CachedCost tc))"

record cost_globals =
  globalCosts :: "nat cmap"
  costHeap :: "nat \<Rightarrow> terminator_costs"
  costNext :: nat

definition ClearCost :: "cost_globals \<Rightarrow> string \<Rightarrow> cost_globals" where
  "ClearCost g tid = g\<lparr>globalCosts := AList.delete tid (globalCosts g)\<rparr>"

definition SetDynamicCost :: "cost_globals \<Rightarrow> string \<Rightarrow> nat \<Rightarrow> cost_globals" where
  "SetDynamicCost g tid a = g\<lparr>globalCosts := AList.update tid a (globalCosts g)\<rparr>"

definition GetDynamicCost :: "cost_globals \<Rightarrow> string \<Rightarrow> u16" where
  "GetDynamicCost g tid =
     (case map_of (globalCosts g) tid of Some a \<Rightarrow> Get (costHeap g a) | None \<Rightarrow> 0)"

record cost_visitor =
  Costs :: "nat cmap"
  cv_CircuitCost :: u32
  cv_FailureCost :: u32
  cv_SuccessCredit :: u32

definition NewCostVisitor :: "u16 \<Rightarrow> u16 \<Rightarrow> u16 \<Rightarrow> cost_visitor" where
  "NewCostVisitor circuitCost failureCost successCredit =
     \<lparr>Costs = [], cv_CircuitCost = ucast circuitCost, cv_FailureCost = ucast failureCost,
      cv_SuccessCredit = ucast successCredit\<rparr>"

definition GetFailureCost :: "cost_visitor \<Rightarrow> cost_globals \<Rightarrow> string \<Rightarrow> u32" where
  "GetFailureCost v g tid =
     (case map_of (Costs v) tid of None \<Rightarrow> 0 | Some a \<Rightarrow> FailureCost (costHeap g a))"

definition GetCircuitCount :: "cost_visitor \<Rightarrow> cost_globals \<Rightarrow> string \<Rightarrow> u32" where
  "GetCircuitCount v g tid =
     (case map_of (Costs v) tid of None \<Rightarrow> 0 | Some a \<Rightarrow> CircuitCount (costHeap g a))"

definition GetCost :: "cost_visitor \<Rightarrow> cost_globals \<Rightarrow> string \<Rightarrow> u32" where
  "GetCost v g tid =
     (case map_of (Costs v) tid of None \<Rightarrow> 0 | Some a \<Rightarrow> CachedCost (costHeap g a))"

text \<open>
  The Upsert call every visitor method makes: a missing entry is allocated and registered in the
  global table, then the callback updates the object in place and the map is set to its address.
\<close>

definition visit_entry :: "cost_visitor \<Rightarrow> cost_globals \<Rightarrow> string \<Rightarrow> nat \<times> cost_globals" where
  "visit_entry v g tid =
     (case map_of (Costs v) tid of
        Some a \<Rightarrow> (a, g)
      | None \<Rightarrow>
          let a = costNext g
          in (a, SetDynamicCost (g\<lparr>costHeap := (costHeap g)(a := new_TerminatorCosts),
                                   costNext := a + 1\<rparr>) tid a))"

definition with_cost ::
  "cost_visitor \<Rightarrow> cost_globals \<Rightarrow> string \<Rightarrow> (terminator_costs \<Rightarrow> terminator_costs) \<Rightarrow>
   cost_visitor \<times> cost_globals" where
  "with_cost v g tid f =
     (let (a, g1) = visit_entry v g tid
      in (v\<lparr>Costs := cmap_upsert (Costs v) tid (\<lambda>_. a)\<rparr>,
          g1\<lparr>costHeap := (costHeap g1)(a := f (costHeap g1 a))\<rparr>))"

definition dial_failed_cost :: "cost_visitor \<Rightarrow> int \<Rightarrow> terminator_costs \<Rightarrow> terminator_costs" where
  "dial_failed_cost v now cost =
     (let cost1 = (if 4294967295 - FailureCost cost > cv_FailureCost v
                   then cost\<lparr>FailureCost := FailureCost cost + cv_FailureCost v\<rparr>
                   else cost\<lparr>FailureCost := 4294967295\<rparr>)
      in (cache (cv_CircuitCost v) cost1)\<lparr>LastFailure := now\<rparr>)"

definition VisitDialFailed ::
  "cost_visitor \<Rightarrow> cost_globals \<Rightarrow> string \<Rightarrow> int \<Rightarrow> cost_visitor \<times> cost_globals" where
  "VisitDialFailed v g tid now = with_cost v g tid (dial_failed_cost v now)"

definition dial_succeeded_cost :: "cost_visitor \<Rightarrow> terminator_costs \<Rightarrow> terminator_costs" where
  "dial_succeeded_cost v cost =
     (let cost1 = (if FailureCost cost > cv_SuccessCredit v
                   then cost\<lparr>FailureCost := FailureCost cost - cv_SuccessCredit v\<rparr>
                   else cost\<lparr>FailureCost := 0\<rparr>);
          cost2 = (if CircuitCount cost1 < 4294967295 div cv_CircuitCost v
                   then cost1\<lparr>CircuitCount := CircuitCount cost1 + 1\<rparr>
                   else cost1)
      in cache (cv_CircuitCost v) cost2)"

text \<open>A visitor with a circuit cost of zero divides by zero, the run time panic \<open>None\<close>.\<close>

definition VisitDialSucceeded ::
  "cost_visitor \<Rightarrow> cost_globals \<Rightarrow> string \<Rightarrow> (cost_visitor \<times> cost_globals) option" where
  "VisitDialSucceeded v g tid =
     (if cv_CircuitCost v = 0 then None else Some (with_cost v g tid (dial_succeeded_cost v)))"

definition circuit_removed_cost :: "cost_visitor \<Rightarrow> terminator_costs \<Rightarrow> terminator_costs" where
  "circuit_removed_cost v cost =
     cache (cv_CircuitCost v)
       (if CircuitCount cost > 0 then cost\<lparr>CircuitCount := CircuitCount cost - 1\<rparr> else cost)"

definition VisitCircuitRemoved ::
  "cost_visitor \<Rightarrow> cost_globals \<Rightarrow> string \<Rightarrow> cost_visitor \<times> cost_globals" where
  "VisitCircuitRemoved v g tid = with_cost v g tid (circuit_removed_cost v)"

datatype event_type = eventTypeFailed | eventTypeSucceeded | eventTypeCircuitRemoved

definition NotifyEvent ::
  "cost_visitor \<Rightarrow> cost_globals \<Rightarrow> event_type \<Rightarrow> string \<Rightarrow> int \<Rightarrow> (cost_visitor \<times> cost_globals) option" where
  "NotifyEvent v g ev tid now =
     (case ev of
        eventTypeFailed \<Rightarrow> Some (VisitDialFailed v g tid now)
      | eventTypeSucceeded \<Rightarrow> VisitDialSucceeded v g tid
      | eventTypeCircuitRemoved \<Rightarrow> Some (VisitCircuitRemoved v g tid))"

primrec credit_keys ::
  "(terminator_costs \<Rightarrow> terminator_costs) \<Rightarrow> string list \<Rightarrow> cost_visitor \<times> cost_globals \<Rightarrow>
   cost_visitor \<times> cost_globals" where
  "credit_keys f [] vg = vg"
| "credit_keys f (key # keys) vg = credit_keys f keys (with_cost (fst vg) (snd vg) key f)"

definition credit_cost :: "cost_visitor \<Rightarrow> u8 \<Rightarrow> terminator_costs \<Rightarrow> terminator_costs" where
  "credit_cost v credit cost =
     cache (cv_CircuitCost v)
       (if FailureCost cost > ucast credit
        then cost\<lparr>FailureCost := FailureCost cost - ucast credit\<rparr>
        else cost\<lparr>FailureCost := 0\<rparr>)"

definition CreditAll ::
  "cost_visitor \<Rightarrow> cost_globals \<Rightarrow> u8 \<Rightarrow> cost_visitor \<times> cost_globals" where
  "CreditAll v g credit = credit_keys (credit_cost v credit) (map fst (Costs v)) (v, g)"

text \<open>
  The exponential credit converts \<^verbatim>\<open>math.Pow(2, d)\<close> to a 64 bit integer; the conversion \<open>pow2\<close>
  is a parameter because the language leaves its value open when the float does not fit. The time since the
  last failure is cut off at the range of 64 bit numbers, and the quotient wraps around.
\<close>

definition time_since :: "int \<Rightarrow> int \<Rightarrow> int" where
  "time_since now t = max (- 9223372036854775808) (min maxInt64 (now - t))"

definition credit_cost_exponential ::
  "(int \<Rightarrow> u64) \<Rightarrow> int \<Rightarrow> int \<Rightarrow> cost_visitor \<Rightarrow> terminator_costs \<Rightarrow> terminator_costs" where
  "credit_cost_exponential pow2 now exponentBasis v cost =
     (if FailureCost cost > 0 then
        let credit = pow2 (wrap64 (time_since now (LastFailure cost) sdiv exponentBasis));
            credit1 = (if credit > 4294967295 then 4294967295 else credit);
            credit2 = (if credit1 < 10 then 10 else credit1);
            credit32 = (ucast credit2 :: u32)
        in cache (cv_CircuitCost v)
             (if credit32 > FailureCost cost then cost\<lparr>FailureCost := 0\<rparr>
              else cost\<lparr>FailureCost := FailureCost cost - credit32\<rparr>)
      else cost)"

text \<open>The division panics when the basis is zero and some terminator has a failure cost.\<close>

definition CreditAllExponential ::
  "(int \<Rightarrow> u64) \<Rightarrow> cost_visitor \<Rightarrow> cost_globals \<Rightarrow> int \<Rightarrow> int \<Rightarrow> (cost_visitor \<times> cost_globals) option" where
  "CreditAllExponential pow2 v g now exponentBasis =
     (if exponentBasis = 0 \<and> list_ex (\<lambda>(_, a). FailureCost (costHeap g a) > 0) (Costs v) then None
      else Some (credit_keys (credit_cost_exponential pow2 now exponentBasis v) (map fst (Costs v)) (v, g)))"

primrec HandleTerminatorChange ::
  "cost_visitor \<Rightarrow> cost_globals \<Rightarrow> string list \<Rightarrow> cost_visitor \<times> cost_globals" where
  "HandleTerminatorChange v g [] = (v, g)"
| "HandleTerminatorChange v g (t # ts) =
     HandleTerminatorChange (v\<lparr>Costs := AList.delete t (Costs v)\<rparr>) (ClearCost g t) ts"

section \<open>The bands\<close>

definition all_precedences :: "precedence list" where
  "all_precedences = [Required, Default, Failed, Unknown]"

lemmas min_cost_defs = unknownMinCost_def failedMinCost_def defaultMinCost_def requireMinCost_def

lemmas precedence_defs = Required_def Default_def Failed_def Unknown_def min_cost_defs

lemma band_bounds:
  "p \<in> set all_precedences \<Longrightarrow> unat (prec_minCost p) \<le> unat (prec_maxCost p)"
  by (auto simp: all_precedences_def precedence_defs)

lemma unat_GetBiasedCost:
  assumes "p \<in> set all_precedences"
  shows "unat (GetBiasedCost p c) =
           min (unat (prec_maxCost p)) (unat (prec_minCost p) + unat c)"
proof -
  have le: "prec_minCost p \<le> prec_maxCost p"
    using band_bounds [OF assms] by (simp add: word_le_nat_alt)
  have sub: "unat (prec_maxCost p - prec_minCost p) = unat (prec_maxCost p) - unat (prec_minCost p)"
    by (rule unat_sub [OF le])
  show ?thesis
  proof (cases "c > prec_maxCost p - prec_minCost p")
    case True
    then show ?thesis using sub le by (simp add: GetBiasedCost_def word_less_nat_alt word_le_nat_alt)
  next
    case False
    then have "unat c + unat (prec_minCost p) \<le> unat (prec_maxCost p)"
      using sub le by (simp add: word_less_nat_alt word_le_nat_alt)
    moreover from this have "unat (prec_minCost p + c) = unat (prec_minCost p) + unat c"
      using unat_u32_less [of "prec_maxCost p"] by (subst unat_word_ariths) simp
    ultimately show ?thesis using False by (simp add: GetBiasedCost_def)
  qed
qed

lemma band_order:
  "i < j \<Longrightarrow> j < length all_precedences \<Longrightarrow>
     unat (prec_maxCost (all_precedences ! i)) < unat (prec_minCost (all_precedences ! j))"
  by (auto simp: all_precedences_def precedence_defs less_Suc_eq)

section \<open>The visitor refines an abstract table\<close>

text \<open>
  The abstract state of a terminator: its open circuits, its failure cost, both unbounded numbers,
  and the time of the last failure.
\<close>

record abs_cost =
  ac_circuits :: nat
  ac_failure :: nat
  ac_last :: int

definition abs_zero :: abs_cost where
  "abs_zero = \<lparr>ac_circuits = 0, ac_failure = 0, ac_last = 0\<rparr>"

definition abs_of :: "terminator_costs \<Rightarrow> abs_cost" where
  "abs_of tc = \<lparr>ac_circuits = unat (CircuitCount tc), ac_failure = unat (FailureCost tc),
                ac_last = LastFailure tc\<rparr>"

definition abs_costs :: "cost_visitor \<Rightarrow> cost_globals \<Rightarrow> string \<rightharpoonup> abs_cost" where
  "abs_costs v g tid = map_option (\<lambda>a. abs_of (costHeap g a)) (map_of (Costs v) tid)"

definition cached_ok :: "u32 \<Rightarrow> terminator_costs \<Rightarrow> bool" where
  "cached_ok cc tc \<longleftrightarrow>
     unat (CachedCost tc) = min 4294967295 (unat (CircuitCount tc) * unat cc + unat (FailureCost tc))"

definition entries_ok ::
  "u32 \<Rightarrow> (string \<rightharpoonup> nat) \<Rightarrow> (string \<rightharpoonup> nat) \<Rightarrow> (nat \<Rightarrow> terminator_costs) \<Rightarrow> nat \<Rightarrow> bool" where
  "entries_ok cc m glob heap nxt \<longleftrightarrow>
     (\<forall>t1 t2 a. m t1 = Some a \<longrightarrow> m t2 = Some a \<longrightarrow> t1 = t2) \<and>
     (\<forall>t a. m t = Some a \<longrightarrow> a < nxt \<and> glob t = Some a \<and> cached_ok cc (heap a))"

definition cost_inv :: "cost_visitor \<Rightarrow> cost_globals \<Rightarrow> bool" where
  "cost_inv v g \<longleftrightarrow>
     distinct (map fst (Costs v)) \<and>
     entries_ok (cv_CircuitCost v) (map_of (Costs v)) (map_of (globalCosts g)) (costHeap g) (costNext g)"

lemma entries_ok_new:
  assumes "entries_ok cc m glob heap nxt" and "cached_ok cc tc"
  shows "entries_ok cc (m(t \<mapsto> nxt)) (glob(t \<mapsto> nxt)) (heap(nxt := tc)) (Suc nxt)"
  using assms unfolding entries_ok_def by (auto simp: less_Suc_eq)

lemma entries_ok_modify:
  assumes "entries_ok cc m glob heap nxt" and "cached_ok cc tc"
  shows "entries_ok cc m glob (heap(a := tc)) nxt"
  using assms unfolding entries_ok_def by auto

lemma entries_ok_remove:
  "entries_ok cc m glob heap nxt \<Longrightarrow> entries_ok cc (m(t := None)) (glob(t := None)) heap nxt"
  unfolding entries_ok_def by auto

definition same_params :: "cost_visitor \<Rightarrow> cost_visitor \<Rightarrow> bool" where
  "same_params v v' \<longleftrightarrow>
     cv_CircuitCost v' = cv_CircuitCost v \<and> cv_FailureCost v' = cv_FailureCost v \<and>
     cv_SuccessCredit v' = cv_SuccessCredit v"

lemma cache_ok: "cached_ok cc (cache cc tc)"
proof -
  let ?n = "unat (CircuitCount tc) * unat cc + unat (FailureCost tc)"
  have "unat (CircuitCount tc) * unat cc \<le> 4294967295 * 4294967295"
    using unat_u32_less [of "CircuitCount tc"] unat_u32_less [of cc] by (intro mult_mono) simp_all
  then have le: "?n \<le> 4294967295 * 4294967295 + 4294967295"
    using unat_u32_less [of "FailureCost tc"] by linarith
  have n: "unat (ucast (CircuitCount tc) * ucast cc + ucast (FailureCost tc) :: u64) = ?n"
    using le by (simp add: unat_word_ariths)
  show ?thesis
    unfolding cached_ok_def cache_def Let_def
    using n by (auto simp: word_less_nat_alt unsigned_ucast_eq take_bit_nat_eq_self_iff min_def)
qed

lemma cached_ok_zero [simp]: "cached_ok cc new_TerminatorCosts"
  by (simp add: cached_ok_def new_TerminatorCosts_def)

lemma abs_of_zero [simp]: "abs_of new_TerminatorCosts = abs_zero"
  by (simp add: abs_of_def new_TerminatorCosts_def abs_zero_def)

lemma abs_of_cache [simp]: "abs_of (cache cc tc) = abs_of tc"
  by (simp add: abs_of_def cache_def Let_def)

lemma cached_ok_LastFailure [simp]:
  "cached_ok cc (tc\<lparr>LastFailure := t\<rparr>) = cached_ok cc tc"
  by (simp add: cached_ok_def)

text \<open>One call of Upsert: the object of the terminator changes by the callback, nothing else.\<close>

lemma with_cost_refines:
  assumes inv: "cost_inv v g"
    and ok: "\<forall>tc. cached_ok (cv_CircuitCost v) tc \<longrightarrow> cached_ok (cv_CircuitCost v) (f tc)"
    and ab: "\<And>tc. abs_of (f tc) = h (abs_of tc)"
    and call: "with_cost v g tid f = (v', g')"
  shows "cost_inv v' g'" and "same_params v v'"
    and "abs_costs v' g' =
      (abs_costs v g)(tid \<mapsto> h (case abs_costs v g tid of None \<Rightarrow> abs_zero | Some x \<Rightarrow> x))"
    and "map_of (Costs v) tid \<noteq> None \<Longrightarrow> map_of (Costs v') = map_of (Costs v)"
proof -
  have D: "distinct (map fst (Costs v))" and E: "entries_ok (cv_CircuitCost v) (map_of (Costs v))
      (map_of (globalCosts g)) (costHeap g) (costNext g)"
    using inv unfolding cost_inv_def by blast+
  have "cost_inv v' g' \<and> same_params v v' \<and> abs_costs v' g' =
      (abs_costs v g)(tid \<mapsto> h (case abs_costs v g tid of None \<Rightarrow> abs_zero | Some x \<Rightarrow> x)) \<and>
      (map_of (Costs v) tid \<noteq> None \<longrightarrow> map_of (Costs v') = map_of (Costs v))"
  proof (cases "map_of (Costs v) tid")
    case None
    then have vg: "v' = v\<lparr>Costs := cmap_upsert (Costs v) tid (\<lambda>_. costNext g)\<rparr>"
      "g' = g\<lparr>costNext := Suc (costNext g), globalCosts := AList.update tid (costNext g) (globalCosts g),
             costHeap := (costHeap g)(costNext g := f new_TerminatorCosts)\<rparr>"
      using call by (simp_all add: with_cost_def visit_entry_def SetDynamicCost_def Let_def)
    have "cost_inv v' g'"
      using D entries_ok_new [OF E ok [rule_format, OF cached_ok_zero]]
      by (simp add: cost_inv_def vg cmap_simps distinct_cmap_upsert)
    moreover have "abs_costs v' g' = (abs_costs v g)(tid \<mapsto> h abs_zero)"
    proof
      fix t
      have "map_of (Costs v) t \<noteq> Some (costNext g)" using E unfolding entries_ok_def by blast
      then show "abs_costs v' g' t = ((abs_costs v g)(tid \<mapsto> h abs_zero)) t"
        by (cases "map_of (Costs v) t") (simp_all add: abs_costs_def vg cmap_simps ab del: map_of_eq_Some_iff)
    qed
    ultimately show ?thesis using None by (simp add: vg same_params_def abs_costs_def)
  next
    case (Some a)
    then have vg: "v' = v\<lparr>Costs := cmap_upsert (Costs v) tid (\<lambda>_. a)\<rparr>"
      "g' = g\<lparr>costHeap := (costHeap g)(a := f (costHeap g a))\<rparr>"
      using call by (simp_all add: with_cost_def visit_entry_def Let_def)
    have m: "map_of (Costs v') = map_of (Costs v)"
      using Some by (simp add: vg cmap_simps map_upd_triv del: map_of_eq_Some_iff)
    have p: "cv_CircuitCost v' = cv_CircuitCost v" by (simp add: vg)
    have a: "cached_ok (cv_CircuitCost v) (costHeap g a)"
      using E Some unfolding entries_ok_def by blast
    have "cost_inv v' g'"
      unfolding cost_inv_def m p using D entries_ok_modify [OF E ok [rule_format, OF a]]
      by (simp add: vg distinct_cmap_upsert)
    moreover have "abs_costs v' g' = (abs_costs v g)(tid \<mapsto> h (abs_of (costHeap g a)))"
    proof
      fix t
      have "map_of (Costs v) t = Some a \<longleftrightarrow> t = tid" using E Some unfolding entries_ok_def by blast
      then show "abs_costs v' g' t = ((abs_costs v g)(tid \<mapsto> h (abs_of (costHeap g a)))) t"
        unfolding abs_costs_def m fun_upd_def
        by (cases "map_of (Costs v) t") (simp_all add: vg ab del: map_of_eq_Some_iff)
    qed
    ultimately show ?thesis using Some m by (simp add: vg same_params_def abs_costs_def)
  qed
  then show "cost_inv v' g'" "same_params v v'" "abs_costs v' g' =
      (abs_costs v g)(tid \<mapsto> h (case abs_costs v g tid of None \<Rightarrow> abs_zero | Some x \<Rightarrow> x))"
    "map_of (Costs v) tid \<noteq> None \<Longrightarrow> map_of (Costs v') = map_of (Costs v)" by blast+
qed


definition abs_event :: "cost_visitor \<Rightarrow> event_type \<Rightarrow> int \<Rightarrow> abs_cost \<Rightarrow> abs_cost" where
  "abs_event v ev now x =
     (case ev of
        eventTypeFailed \<Rightarrow>
          x\<lparr>ac_failure := min 4294967295 (ac_failure x + unat (cv_FailureCost v)), ac_last := now\<rparr>
      | eventTypeSucceeded \<Rightarrow>
          x\<lparr>ac_failure := ac_failure x - unat (cv_SuccessCredit v),
            ac_circuits := (if ac_circuits x < 4294967295 div unat (cv_CircuitCost v)
                            then ac_circuits x + 1 else ac_circuits x)\<rparr>
      | eventTypeCircuitRemoved \<Rightarrow> x\<lparr>ac_circuits := ac_circuits x - 1\<rparr>)"

definition abs_credit :: "nat \<Rightarrow> abs_cost \<Rightarrow> abs_cost" where
  "abs_credit n x = x\<lparr>ac_failure := ac_failure x - n\<rparr>"

definition abs_credit_exp :: "(int \<Rightarrow> u64) \<Rightarrow> int \<Rightarrow> int \<Rightarrow> abs_cost \<Rightarrow> abs_cost" where
  "abs_credit_exp pow2 now basis x =
     abs_credit (max 10 (min 4294967295 (unat (pow2 (wrap64 (time_since now (ac_last x) sdiv basis)))))) x"

lemma word_sat_sub:
  "unat (if b < (a :: u32) then a - b else 0) = unat a - unat b"
  "unat (if a < (b :: u32) then 0 else a - b) = unat a - unat b"
  by (auto simp: unat_sub_if_size word_less_nat_alt)

lemma word_sat_add:
  "unat (if b < 4294967295 - (a :: u32) then a + b else 4294967295) = min 4294967295 (unat a + unat b)"
proof -
  have "unat (4294967295 - a) = 4294967295 - unat a"
    using unat_u32_less [of a] by (subst unat_sub) (simp_all add: word_le_nat_alt)
  moreover have "unat (a + b) = unat a + unat b" if "unat a + unat b < 4294967296"
    using that by (simp add: unat_word_ariths)
  ultimately show ?thesis using unat_u32_less [of a] by (simp add: word_less_nat_alt)
qed

lemma word_capped_inc:
  assumes "(c :: u32) < m"
  shows "unat (c + 1) = Suc (unat c)"
proof -
  have "unat c + 1 < 4294967296"
    using assms unat_u32_less [of m] by (simp add: word_less_nat_alt)
  then show ?thesis by (simp add: unat_word_ariths)
qed

lemma cache_fields [simp]:
  "CircuitCount (cache cc tc) = CircuitCount tc" "FailureCost (cache cc tc) = FailureCost tc"
  "LastFailure (cache cc tc) = LastFailure tc"
  by (simp_all add: cache_def Let_def)

lemma abs_of_FailureCost:
  "abs_of (tc\<lparr>FailureCost := x\<rparr>) = (abs_of tc)\<lparr>ac_failure := unat x\<rparr>"
  "abs_of (tc\<lparr>CircuitCount := x\<rparr>) = (abs_of tc)\<lparr>ac_circuits := unat x\<rparr>"
  "abs_of (tc\<lparr>LastFailure := t\<rparr>) = (abs_of tc)\<lparr>ac_last := t\<rparr>"
  by (simp_all add: abs_of_def)

lemma dial_failed_cost_abs:
  "abs_of (dial_failed_cost v now tc) = abs_event v eventTypeFailed now (abs_of tc)"
  using word_sat_add [of "cv_FailureCost v" "FailureCost tc"]
  by (simp add: dial_failed_cost_def Let_def abs_event_def abs_of_FailureCost abs_of_def split: if_splits)

lemma dial_succeeded_cost_abs:
  assumes "cv_CircuitCost v \<noteq> 0"
  shows "abs_of (dial_succeeded_cost v tc) = abs_event v eventTypeSucceeded now (abs_of tc)"
proof -
  have "unat (4294967295 div cv_CircuitCost v) = 4294967295 div unat (cv_CircuitCost v)"
    by (simp add: unat_div)
  then show ?thesis
    using word_sat_sub(1) [of "cv_SuccessCredit v" "FailureCost tc"] 
      word_capped_inc [of "CircuitCount tc" "4294967295 div cv_CircuitCost v"]
    by (simp add: dial_succeeded_cost_def Let_def abs_event_def abs_of_def word_less_nat_alt split: if_splits)
qed

lemma circuit_removed_cost_abs:
  "abs_of (circuit_removed_cost v tc) = abs_event v eventTypeCircuitRemoved now (abs_of tc)"
  by (cases "CircuitCount tc = 0")
    (simp_all add: circuit_removed_cost_def abs_event_def abs_of_def unat_minus_one word_gt_0)

lemma credit_cost_abs: "abs_of (credit_cost v credit tc) = abs_credit (unat credit) (abs_of tc)"
proof -
  have "unat (ucast credit :: u32) = unat credit"
    using unsigned_less [of credit, where ?'a = nat]
    by (simp add: unsigned_ucast_eq take_bit_nat_eq_self_iff)
  then show ?thesis
    using word_sat_sub(1) [of "ucast credit" "FailureCost tc"]
    by (simp add: credit_cost_def abs_credit_def abs_of_def split: if_splits)
qed

lemma credit_cost_exponential_abs:
  "abs_of (credit_cost_exponential pow2 now basis v tc) = abs_credit_exp pow2 now basis (abs_of tc)"
proof -
  define c where "c = pow2 (wrap64 (time_since now (LastFailure tc) sdiv basis))"
  define c1 where "c1 = (if c > 4294967295 then 4294967295 else c)"
  define c2 where "c2 = (if c1 < 10 then 10 else c1)"
  have c2: "unat c2 = max 10 (min 4294967295 (unat c))"
    by (auto simp: c2_def c1_def word_less_nat_alt)
  have c3: "unat (ucast c2 :: u32) = unat c2"
    using c2 by (simp add: unsigned_ucast_eq take_bit_nat_eq_self_iff)
  have exp: "abs_credit_exp pow2 now basis (abs_of tc) = abs_credit (unat c2) (abs_of tc)"
    by (simp add: abs_credit_exp_def c2 c_def abs_of_def)
  show ?thesis
  proof (cases "FailureCost tc > 0")
    case True
    then have "credit_cost_exponential pow2 now basis v tc = cache (cv_CircuitCost v)
        (if (ucast c2 :: u32) > FailureCost tc then tc\<lparr>FailureCost := 0\<rparr>
         else tc\<lparr>FailureCost := FailureCost tc - ucast c2\<rparr>)"
      by (simp add: credit_cost_exponential_def Let_def c_def c1_def c2_def)
    then show ?thesis
      unfolding exp using word_sat_sub(2) [of "FailureCost tc" "ucast c2"] c3
      by (simp add: abs_credit_def abs_of_def split: if_splits)
  next
    case False
    then show ?thesis
      unfolding exp by (simp add: credit_cost_exponential_def abs_credit_def abs_of_def word_gt_0)
  qed
qed

lemma costs_cached_ok:
  "cached_ok (cv_CircuitCost v) (dial_failed_cost v now tc)"
  "cached_ok (cv_CircuitCost v) (dial_succeeded_cost v tc)"
  "cached_ok (cv_CircuitCost v) (circuit_removed_cost v tc)"
  "cached_ok (cv_CircuitCost v) (credit_cost v credit tc)"
  "cached_ok (cv_CircuitCost v) tc \<Longrightarrow>
     cached_ok (cv_CircuitCost v) (credit_cost_exponential pow2 now basis v tc)"
  by (simp_all add: dial_failed_cost_def dial_succeeded_cost_def circuit_removed_cost_def
      credit_cost_def credit_cost_exponential_def Let_def cache_ok)

lemma NotifyEvent_refines:
  assumes inv: "cost_inv v g" and cc: "cv_CircuitCost v \<noteq> 0"
  obtains v' g' where "NotifyEvent v g ev tid now = Some (v', g')" "cost_inv v' g'" "same_params v v'"
    "abs_costs v' g' = (abs_costs v g)
       (tid \<mapsto> abs_event v ev now (case abs_costs v g tid of None \<Rightarrow> abs_zero | Some x \<Rightarrow> x))"
proof -
  define f where "f = (case ev of eventTypeFailed \<Rightarrow> dial_failed_cost v now
      | eventTypeSucceeded \<Rightarrow> dial_succeeded_cost v | eventTypeCircuitRemoved \<Rightarrow> circuit_removed_cost v)"
  obtain v' g' where call: "with_cost v g tid f = (v', g')" by (rule prod.exhaust)
  have ok: "\<forall>tc. cached_ok (cv_CircuitCost v) tc \<longrightarrow> cached_ok (cv_CircuitCost v) (f tc)"
    by (cases ev) (simp_all add: f_def costs_cached_ok)
  have ab: "abs_of (f tc) = abs_event v ev now (abs_of tc)" for tc
    using cc by (cases ev)
      (simp_all add: f_def dial_failed_cost_abs dial_succeeded_cost_abs circuit_removed_cost_abs)
  have "NotifyEvent v g ev tid now = Some (v', g')"
    using call cc by (cases ev) (simp_all add: NotifyEvent_def f_def VisitDialFailed_def
        VisitDialSucceeded_def VisitCircuitRemoved_def)
  then show thesis
    using that with_cost_refines [OF inv ok ab call] by blast
qed

lemma credit_keys_refines:
  assumes "cost_inv v g" and "distinct keys" and "set keys \<subseteq> dom (map_of (Costs v))"
    and ok: "\<forall>tc. cached_ok (cv_CircuitCost v) tc \<longrightarrow> cached_ok (cv_CircuitCost v) (f tc)"
    and ab: "\<And>tc. abs_of (f tc) = h (abs_of tc)"
    and "credit_keys f keys (v, g) = (v', g')"
  shows "cost_inv v' g' \<and> same_params v v' \<and>
    abs_costs v' g' = (\<lambda>t. if t \<in> set keys then map_option h (abs_costs v g t) else abs_costs v g t)"
  using assms(1-3,6) ok
proof (induction keys arbitrary: v g)
  case Nil
  then show ?case by (auto simp: same_params_def)
next
  case (Cons k keys)
  obtain v1 g1 where call: "with_cost v g k f = (v1, g1)" by (rule prod.exhaust)
  note R = with_cost_refines [OF Cons.prems(1,5) ab call]
  have k: "map_of (Costs v) k \<noteq> None" using Cons.prems(3) by auto
  then obtain x where x: "abs_costs v g k = Some x" by (auto simp: abs_costs_def)
  have cc: "cv_CircuitCost v1 = cv_CircuitCost v" using R(2) by (simp add: same_params_def)
  have "cost_inv v' g' \<and> same_params v1 v' \<and>
    abs_costs v' g' = (\<lambda>t. if t \<in> set keys then map_option h (abs_costs v1 g1 t) else abs_costs v1 g1 t)"
  proof (rule Cons.IH [OF R(1)])
    show "distinct keys" using Cons.prems(2) by simp
    show "set keys \<subseteq> dom (map_of (Costs v1))" using Cons.prems(3) R(4) [OF k] by simp
    show "credit_keys f keys (v1, g1) = (v', g')" using Cons.prems(4) call by simp
    show "\<forall>tc. cached_ok (cv_CircuitCost v1) tc \<longrightarrow> cached_ok (cv_CircuitCost v1) (f tc)"
      unfolding cc by (rule Cons.prems(5))
  qed
  then show ?case
    using R(2,3) x Cons.prems(2) by (auto simp: same_params_def fun_eq_iff)
qed

lemma HandleTerminatorChange_refines:
  assumes "cost_inv v g" and "HandleTerminatorChange v g ts = (v', g')"
  shows "cost_inv v' g' \<and> same_params v v' \<and>
    abs_costs v' g' = (\<lambda>t. if t \<in> set ts then None else abs_costs v g t)"
  using assms
proof (induction ts arbitrary: v g)
  case Nil
  then show ?case by (simp add: same_params_def)
next
  case (Cons t ts)
  let ?v = "v\<lparr>Costs := AList.delete t (Costs v)\<rparr>"
  have "cost_inv ?v (ClearCost g t)"
    using Cons.prems(1) entries_ok_remove
    by (simp add: cost_inv_def ClearCost_def cm.get_remove cm.invar_remove)
  moreover have "abs_costs ?v (ClearCost g t) = (abs_costs v g)(t := None)"
    by (auto simp: abs_costs_def ClearCost_def cm.get_remove)
  ultimately show ?case
    using Cons.IH [of ?v "ClearCost g t"] Cons.prems(2) by (auto simp: same_params_def fun_eq_iff)
qed

text \<open>Any sequence of the operations on a visitor and the table it is registered in.\<close>

datatype cost_op =
  Notify event_type string int
| Credit u8
| CreditExponential int
| Removed "string list"

definition cost_step ::
  "(int \<Rightarrow> u64) \<Rightarrow> int \<Rightarrow> cost_visitor \<times> cost_globals \<Rightarrow> cost_op \<Rightarrow> (cost_visitor \<times> cost_globals) option" where
  "cost_step pow2 basis vg op =
     (case op of
        Notify ev tid now \<Rightarrow> NotifyEvent (fst vg) (snd vg) ev tid now
      | Credit credit \<Rightarrow> Some (CreditAll (fst vg) (snd vg) credit)
      | CreditExponential now \<Rightarrow> CreditAllExponential pow2 (fst vg) (snd vg) now basis
      | Removed ts \<Rightarrow> Some (HandleTerminatorChange (fst vg) (snd vg) ts))"

primrec cost_run ::
  "(int \<Rightarrow> u64) \<Rightarrow> int \<Rightarrow> cost_visitor \<times> cost_globals \<Rightarrow> cost_op list \<Rightarrow> (cost_visitor \<times> cost_globals) option" where
  "cost_run pow2 basis vg [] = Some vg"
| "cost_run pow2 basis vg (op # ops) =
     (case cost_step pow2 basis vg op of None \<Rightarrow> None | Some vg' \<Rightarrow> cost_run pow2 basis vg' ops)"

text \<open>The abstract table and its steps.\<close>

definition spec_step ::
  "(int \<Rightarrow> u64) \<Rightarrow> int \<Rightarrow> cost_visitor \<Rightarrow> (string \<rightharpoonup> abs_cost) \<Rightarrow> cost_op \<Rightarrow> (string \<rightharpoonup> abs_cost)" where
  "spec_step pow2 basis v m op =
     (case op of
        Notify ev tid now \<Rightarrow>
          m(tid \<mapsto> abs_event v ev now (case m tid of None \<Rightarrow> abs_zero | Some x \<Rightarrow> x))
      | Credit credit \<Rightarrow> (\<lambda>t. map_option (abs_credit (unat credit)) (m t))
      | CreditExponential now \<Rightarrow> (\<lambda>t. map_option (abs_credit_exp pow2 now basis) (m t))
      | Removed ts \<Rightarrow> (\<lambda>t. if t \<in> set ts then None else m t))"

lemma spec_step_params: "same_params v v' \<Longrightarrow> spec_step pow2 basis v' = spec_step pow2 basis v"
  by (simp add: fun_eq_iff spec_step_def abs_event_def same_params_def split: cost_op.split event_type.split)

lemma abs_costs_dom: "abs_costs v g t \<noteq> None \<longleftrightarrow> t \<in> set (map fst (Costs v))"
  by (simp add: abs_costs_def map_of_eq_None_iff)

lemma cost_step_refines:
  assumes inv: "cost_inv v g" and cc: "cv_CircuitCost v \<noteq> 0" and basis: "basis \<noteq> 0"
  obtains v' g' where "cost_step pow2 basis (v, g) op = Some (v', g')" "cost_inv v' g'" "same_params v v'"
    "abs_costs v' g' = spec_step pow2 basis v (abs_costs v g) op"
proof -
  have keys: "distinct (map fst (Costs v))" "set (map fst (Costs v)) \<subseteq> dom (map_of (Costs v))"
    using inv by (simp_all add: cost_inv_def dom_map_of_conv_image_fst)
  have all: "(\<lambda>t. if t \<in> set (map fst (Costs v)) then map_option h (abs_costs v g t) else abs_costs v g t) =
      (\<lambda>t. map_option h (abs_costs v g t))" for h
    using abs_costs_dom [of v g] by (metis option.map_disc_iff)
  show thesis
  proof (cases op)
    case (Notify ev tid now)
    then show thesis using NotifyEvent_refines [OF inv cc] that by (simp add: cost_step_def spec_step_def) metis
  next
    case (Credit credit)
    obtain v' g' where "CreditAll v g credit = (v', g')" by (rule prod.exhaust)
    then show thesis
      using credit_keys_refines [where f = "credit_cost v credit" and h = "abs_credit (unat credit)",
          OF inv keys _ credit_cost_abs] that [of v' g'] Credit costs_cached_ok(4) [of v credit]
      unfolding CreditAll_def cost_step_def spec_step_def all by simp
  next
    case (CreditExponential now)
    obtain v' g' where "credit_keys (credit_cost_exponential pow2 now basis v) (map fst (Costs v)) (v, g) = (v', g')" by (rule prod.exhaust)
    then show thesis
      using credit_keys_refines [where f = "credit_cost_exponential pow2 now basis v"
            and h = "abs_credit_exp pow2 now basis", OF inv keys _ credit_cost_exponential_abs]
        that [of v' g'] CreditExponential costs_cached_ok(5) [of v] basis
      unfolding CreditAllExponential_def cost_step_def spec_step_def all by simp
  next
    case (Removed ts)
    obtain v' g' where "HandleTerminatorChange v g ts = (v', g')" by (rule prod.exhaust)
    then show thesis
      using HandleTerminatorChange_refines [OF inv] that [of v' g'] Removed
      by (simp add: cost_step_def spec_step_def)
  qed
qed

lemma cost_run_refines:
  assumes "cost_inv v g" and "cv_CircuitCost v \<noteq> 0" and "basis \<noteq> 0"
  shows "\<exists>v' g'. cost_run pow2 basis (v, g) ops = Some (v', g') \<and> cost_inv v' g' \<and> same_params v v' \<and>
    abs_costs v' g' = foldl (spec_step pow2 basis v) (abs_costs v g) ops"
  using assms
proof (induction ops arbitrary: v g)
  case Nil
  then show ?case by (simp add: same_params_def)
next
  case (Cons op ops)
  obtain v1 g1 where 1: "cost_step pow2 basis (v, g) op = Some (v1, g1)" "cost_inv v1 g1" "same_params v v1"
    "abs_costs v1 g1 = spec_step pow2 basis v (abs_costs v g) op"
    by (rule cost_step_refines [OF Cons.prems])
  have "cv_CircuitCost v1 \<noteq> 0" using 1(3) Cons.prems(2) by (simp add: same_params_def)
  from Cons.IH [OF 1(2) this Cons.prems(3)] show ?case
    using 1 spec_step_params [OF 1(3)] by (auto simp: same_params_def)
qed

text \<open>What was cleared and not charged again is not in the global table.\<close>

definition cleared :: "string set \<Rightarrow> cost_visitor \<times> cost_globals \<Rightarrow> bool" where
  "cleared R vg \<longleftrightarrow> (\<forall>t \<in> R. map_of (Costs (fst vg)) t = None \<longrightarrow> map_of (globalCosts (snd vg)) t = None)"

primrec removed_ids :: "cost_op list \<Rightarrow> string set" where
  "removed_ids [] = {}"
| "removed_ids (op # ops) = (case op of Removed ts \<Rightarrow> set ts | _ \<Rightarrow> {}) \<union> removed_ids ops"

lemma cleared_with_cost: "cleared R (v, g) \<Longrightarrow> cleared R (with_cost v g t f)"
  by (auto simp: cleared_def with_cost_def visit_entry_def SetDynamicCost_def Let_def cmap_simps update_conv' split: option.splits)

lemma cleared_credit_keys: "cleared R vg \<Longrightarrow> cleared R (credit_keys f ks vg)"
  by (induction ks arbitrary: vg) (simp_all add: cleared_with_cost)

lemma cleared_HandleTerminatorChange: "cleared R (v, g) \<Longrightarrow> cleared (R \<union> set ts) (HandleTerminatorChange v g ts)"
proof (induction ts arbitrary: v g R)
  case (Cons t ts)
  have "cleared (insert t R) (v\<lparr>Costs := AList.delete t (Costs v)\<rparr>, ClearCost g t)"
    using Cons.prems by (auto simp: cleared_def ClearCost_def delete_conv')
  from Cons.IH [OF this] show ?case by simp
qed simp

lemma cleared_step:
  assumes "cleared R vg" and "cost_step pow2 basis vg op = Some vg'"
  shows "cleared (R \<union> removed_ids [op]) vg'"
  using assms cleared_HandleTerminatorChange [of R "fst vg" "snd vg"]
  by (cases vg; cases op)
    (auto simp: cost_step_def NotifyEvent_def VisitDialFailed_def VisitDialSucceeded_def VisitCircuitRemoved_def CreditAll_def
      CreditAllExponential_def cleared_with_cost cleared_credit_keys split: event_type.splits if_splits)

lemma cleared_run: "cleared R vg \<Longrightarrow> cost_run pow2 basis vg ops = Some vg' \<Longrightarrow> cleared (R \<union> removed_ids ops) vg'"
proof (induction ops arbitrary: vg R)
  case (Cons op ops)
  then obtain vg1 where 1: "cost_step pow2 basis vg op = Some vg1" "cost_run pow2 basis vg1 ops = Some vg'" by (auto split: option.splits)
  from Cons.IH [OF cleared_step [OF Cons.prems(1) 1(1)] 1(2)] show ?case by (simp add: Un_assoc)
qed simp

section \<open>Properties\<close>

text \<open>
  C13. A biased cost stays in the band of its precedence and the bands do not overlap: every cost of
  a better precedence is below every cost of a worse one, whatever the two costs are (required
  before default before failed before unknown). No addition wraps around.
\<close>

theorem precedence_dominates:
  assumes "i < j" and "j < length all_precedences"
  shows "GetBiasedCost (all_precedences ! i) c < GetBiasedCost (all_precedences ! j) d \<and>
    prec_minCost (all_precedences ! i) \<le> GetBiasedCost (all_precedences ! i) c \<and>
    GetBiasedCost (all_precedences ! i) c \<le> prec_maxCost (all_precedences ! i)"
proof -
  have p: "all_precedences ! i \<in> set all_precedences" "all_precedences ! j \<in> set all_precedences"
    using assms by simp_all
  show ?thesis
    using unat_GetBiasedCost [OF p(1), of c] unat_GetBiasedCost [OF p(2), of d]
      band_order [OF assms] band_bounds [OF p(1)] band_bounds [OF p(2)]
    unfolding word_less_nat_alt word_le_nat_alt by (intro conjI) linarith+
qed

theorem precedence_dominates_witness:
  "GetBiasedCost Required 4294967295 < GetBiasedCost Failed 0"
  using precedence_dominates [of 0 2 4294967295 0] by (simp add: all_precedences_def)

text \<open>
  C14. Unbiasing a biased cost gives the cost back, cut off at the width of the band; below that
  width the two are inverse.
\<close>

theorem Unbias_GetBiasedCost:
  assumes "p \<in> set all_precedences"
  shows "unat (Unbias p (GetBiasedCost p c)) =
    min (unat c) (unat (prec_maxCost p) - unat (GetBaseCost p))"
proof -
  have "prec_minCost p \<le> GetBiasedCost p c"
    using unat_GetBiasedCost [OF assms, of c] band_bounds [OF assms] by (simp add: word_le_nat_alt)
  then have "unat (Unbias p (GetBiasedCost p c)) = unat (GetBiasedCost p c) - unat (prec_minCost p)"
    unfolding Unbias_def by (rule unat_sub)
  then show ?thesis
    using unat_GetBiasedCost [OF assms, of c] band_bounds [OF assms] by (simp add: GetBaseCost_def)
qed

theorem Unbias_GetBiasedCost_witness: "unat (Unbias Default (GetBiasedCost Default 7)) = 7"
  using Unbias_GetBiasedCost [of Default 7]
  by (simp add: all_precedences_def Default_def GetBaseCost_def min_cost_defs)

text \<open>
  C12. The dynamic cost of a terminator is exact. Start with a new visitor and run any sequence of
  dial failures, dial successes, circuit removals, credits and terminator removals, interleaved over
  any terminators, with a circuit cost and a period of the exponential credit that are not zero. No call
  panics, and the cost read through the global table is always the
  number of open circuits times the circuit cost plus the outstanding failure cost, cut off at the
  16 bit maximum, where both numbers follow the abstract table: failures saturate, credits never
  take more than was charged, the circuit count stops where its product would leave 32 bits.
  For a terminator that is not in the abstract table the visitor has no cost, and if it was removed the
  global table has none either.
\<close>

theorem dynamic_cost_exact:
  assumes "cc \<noteq> 0" and "basis \<noteq> 0"
  shows "\<exists>v g'. cost_run pow2 basis (NewCostVisitor cc fc sc, g) ops = Some (v, g') \<and>
    (\<forall>tid. case foldl (spec_step pow2 basis (NewCostVisitor cc fc sc)) Map.empty ops tid of
        None \<Rightarrow> GetCost v g' tid = 0 \<and> (tid \<in> removed_ids ops \<longrightarrow> GetDynamicCost g' tid = 0)
      | Some x \<Rightarrow> unat (GetDynamicCost g' tid) = min 65535 (ac_circuits x * unat cc + ac_failure x) \<and>
          unat (GetCost v g' tid) = min 4294967295 (ac_circuits x * unat cc + ac_failure x) \<and>
          unat (GetCircuitCount v g' tid) = ac_circuits x \<and>
          unat (GetFailureCost v g' tid) = ac_failure x)"
proof -
  let ?v = "NewCostVisitor cc fc sc"
  have "cost_inv ?v g" "abs_costs ?v g = Map.empty"
    by (simp_all add: cost_inv_def entries_ok_def abs_costs_def NewCostVisitor_def fun_eq_iff)
  moreover have ccv: "unat (cv_CircuitCost ?v) = unat cc"
    by (simp add: NewCostVisitor_def)
  moreover have "cv_CircuitCost ?v \<noteq> 0"
    using assms(1) ccv by (metis unat_0 unat_eq_zero)
  ultimately obtain v g' where run: "cost_run pow2 basis (?v, g) ops = Some (v, g')"
    and inv: "cost_inv v g'" and par: "same_params ?v v"
    and abs: "abs_costs v g' = foldl (spec_step pow2 basis ?v) Map.empty ops"
    using cost_run_refines [where basis = basis] assms(2) by metis
  have "cleared ({} \<union> removed_ids ops) (v, g')" by (rule cleared_run [OF _ run]) (simp add: cleared_def)
  then have cl: "map_of (Costs v) t = None \<Longrightarrow> t \<in> removed_ids ops \<Longrightarrow> map_of (globalCosts g') t = None" for t
    by (simp add: cleared_def)
  have "case abs_costs v g' tid of None \<Rightarrow> GetCost v g' tid = 0 \<and> (tid \<in> removed_ids ops \<longrightarrow> GetDynamicCost g' tid = 0)
      | Some x \<Rightarrow> unat (GetDynamicCost g' tid) = min 65535 (ac_circuits x * unat cc + ac_failure x) \<and>
          unat (GetCost v g' tid) = min 4294967295 (ac_circuits x * unat cc + ac_failure x) \<and>
          unat (GetCircuitCount v g' tid) = ac_circuits x \<and>
          unat (GetFailureCost v g' tid) = ac_failure x" for tid
  proof (cases "map_of (Costs v) tid")
    case None
    then show ?thesis using cl [OF None] by (auto simp: abs_costs_def GetCost_def GetDynamicCost_def)
  next
    case (Some a)
    have "map_of (globalCosts g') tid = Some a" "cached_ok (cv_CircuitCost v) (costHeap g' a)"
      using inv Some unfolding cost_inv_def entries_ok_def by blast+
    moreover have "unat (cv_CircuitCost v) = unat cc"
      using par ccv by (simp add: same_params_def)
    moreover have "unat (Get tc) = min 65535 (unat (CachedCost tc))" for tc
      by (auto simp: Get_def word_less_nat_alt unsigned_ucast_eq take_bit_nat_eq_self_iff)
    ultimately show ?thesis
      using Some by (simp add: abs_costs_def abs_of_def GetCost_def GetDynamicCost_def cached_ok_def
          GetCircuitCount_def GetFailureCost_def del: map_of_eq_Some_iff)
  qed
  then show ?thesis using run unfolding abs by blast
qed

theorem dynamic_cost_exact_witness:
  "\<exists>v g'. cost_run (\<lambda>_. 1) 300 (NewCostVisitor 2 20 2, \<lparr>globalCosts = [], costHeap = \<lambda>_. new_TerminatorCosts, costNext = 0\<rparr>)
      [Notify eventTypeFailed ''t'' 5, Notify eventTypeSucceeded ''t'' 6, Notify eventTypeFailed ''u'' 7,
       Notify eventTypeSucceeded ''t'' 8] = Some (v, g') \<and>
    unat (GetDynamicCost g' ''t'') = 20"
proof -
  let ?ops = "[Notify eventTypeFailed ''t'' 5, Notify eventTypeSucceeded ''t'' 6,
    Notify eventTypeFailed ''u'' 7, Notify eventTypeSucceeded ''t'' 8]"
  have "foldl (spec_step (\<lambda>_. 1) 300 (NewCostVisitor 2 20 2)) Map.empty ?ops ''t'' =
      Some \<lparr>ac_circuits = 2, ac_failure = 16, ac_last = 5\<rparr>"
    by (simp add: spec_step_def abs_event_def abs_zero_def NewCostVisitor_def)
  moreover obtain v g' where "cost_run (\<lambda>_. 1) 300 (NewCostVisitor 2 20 2,
      \<lparr>globalCosts = [], costHeap = \<lambda>_. new_TerminatorCosts, costNext = 0\<rparr>) ?ops = Some (v, g')"
    and "case foldl (spec_step (\<lambda>_. 1) 300 (NewCostVisitor 2 20 2)) Map.empty ?ops ''t'' of
        None \<Rightarrow> GetCost v g' ''t'' = 0 \<and> (''t'' \<in> removed_ids ?ops \<longrightarrow> GetDynamicCost g' ''t'' = 0)
      | Some x \<Rightarrow> unat (GetDynamicCost g' ''t'') = min 65535 (ac_circuits x * unat (2 :: u16) + ac_failure x) \<and>
          unat (GetCost v g' ''t'') = min 4294967295 (ac_circuits x * unat (2 :: u16) + ac_failure x) \<and>
          unat (GetCircuitCount v g' ''t'') = ac_circuits x \<and>
          unat (GetFailureCost v g' ''t'') = ac_failure x"
    using dynamic_cost_exact [of 2 300 "\<lambda>_. 1" 20 2
      "\<lparr>globalCosts = [], costHeap = \<lambda>_. new_TerminatorCosts, costNext = 0\<rparr>" ?ops] by auto
  ultimately show ?thesis by auto
qed

end
