(* ===== verification/Terminator_Strategies.thy ===== *)
theory Terminator_Strategies
  imports Complex_Main Terminator_Costs
begin

text \<open>
  The terminator selection strategies: \<^verbatim>\<open>controller/xt_smartrouting/impl.go\<close>,
  \<^verbatim>\<open>controller/xt_sticky/impl.go\<close>, \<^verbatim>\<open>controller/xt_random/impl.go\<close>,
  \<^verbatim>\<open>controller/xt_weighted/impl.go\<close>, with \<open>GetRelatedTerminators\<close> of \<^verbatim>\<open>controller/xt/costs.go\<close> and the
  registry \<^verbatim>\<open>controller/xt/registry.go\<close>.

  The locale \<open>terminator_strategy\<close> is the contract of the \<open>Strategy\<close> interface that path selection
  relies on: a selection never fails on a non-empty list and stays within the leading run of equal
  precedence. Every strategy interprets it, and the consequence for a list sorted by biased cost,
  that a terminator of the best available precedence is chosen, is proved once in the locale.
\<close>

section \<open>Model\<close>

record terminator =
  t_Id :: string
  t_Service :: string
  t_Router :: string
  t_Binding :: string
  t_Address :: string
  t_InstanceId :: string
  t_Cost :: u16
  t_Precedence :: precedence

record routing_terminator =
  rt_RouteCost :: u32
  rt_Terminator :: terminator

abbreviation rt_Precedence :: "routing_terminator \<Rightarrow> precedence" where
  "rt_Precedence t \<equiv> t_Precedence (rt_Terminator t)"

abbreviation rt_Id :: "routing_terminator \<Rightarrow> string" where
  "rt_Id t \<equiv> t_Id (rt_Terminator t)"

type_synonym peer_data = "(u32 \<times> string) list"

record client_id =
  cid_Token :: string
  cid_Data :: peer_data

text \<open>The result \<open>None\<close> is the run time panic of indexing an empty list.\<close>

fun GetRelatedTerminators :: "routing_terminator list \<Rightarrow> routing_terminator list option" where
  "GetRelatedTerminators [] = None"
| "GetRelatedTerminators (first # rest) =
     Some (first # takeWhile (\<lambda>t. rt_Precedence t = rt_Precedence first) rest)"

definition XtStickinessToken :: u32 where
  "XtStickinessToken = 1114"

type_synonym selection = "(routing_terminator \<times> peer_data) option"

definition Select_smartrouting :: "client_id option \<Rightarrow> routing_terminator list \<Rightarrow> selection" where
  "Select_smartrouting params terminators =
     (case terminators of [] \<Rightarrow> None | t # _ \<Rightarrow> Some (t, []))"

definition Select_sticky :: "client_id option \<Rightarrow> routing_terminator list \<Rightarrow> selection" where
  "Select_sticky params terminators =
     (case GetRelatedTerminators terminators of
        None \<Rightarrow> None
      | Some related \<Rightarrow>
          let found = (case params of
                         None \<Rightarrow> None
                       | Some client \<Rightarrow>
                           (case map_of (cid_Data client) XtStickinessToken of
                              None \<Rightarrow> None
                            | Some strId \<Rightarrow> find (\<lambda>t. rt_Id t = strId) related));
              result = (case found of Some t \<Rightarrow> t | None \<Rightarrow> hd related)
          in Some (result, [(XtStickinessToken, rt_Id result)]))"

text \<open>
  \<^verbatim>\<open>rand.Intn\<close> returns some number below its positive argument. A draw is an arbitrary number
  reduced modulo the argument, so that every outcome is the outcome of some draw.
\<close>

definition Intn :: "nat \<Rightarrow> nat \<Rightarrow> nat" where
  "Intn draw n = draw mod n"

definition Select_random :: "nat \<Rightarrow> client_id option \<Rightarrow> routing_terminator list \<Rightarrow> selection" where
  "Select_random draw params terminators =
     (case GetRelatedTerminators terminators of
        None \<Rightarrow> None
      | Some related \<Rightarrow>
          if length related = 1 then Some (hd related, [])
          else let selected = Intn draw (length related)
               in if selected < length related then Some (related ! selected, []) else None)"

text \<open>
  The weighted strategy computes in single precision. Every operation of the model is the exact
  operation on rationals followed by the rounding \<open>fl\<close>, a parameter; \<open>draw\<close> is the value of
  \<^verbatim>\<open>rand.Float32\<close>.
\<close>

definition weighted_costs :: "(rat \<Rightarrow> rat) \<Rightarrow> routing_terminator list \<Rightarrow> rat list" where
  "weighted_costs fl ts =
     map (\<lambda>t. let unbiased = fl (of_nat (unat (Unbias (rt_Precedence t) (rt_RouteCost t))))
              in if unbiased = 0 then 1 else unbiased) ts"

definition fl_sum :: "(rat \<Rightarrow> rat) \<Rightarrow> rat list \<Rightarrow> rat" where
  "fl_sum fl xs = foldl (\<lambda>acc x. fl (acc + x)) 0 xs"

primrec cumulative_weights :: "(rat \<Rightarrow> rat) \<Rightarrow> rat \<Rightarrow> rat \<Rightarrow> rat list \<Rightarrow> rat list" where
  "cumulative_weights fl tw acc [] = []"
| "cumulative_weights fl tw acc (w # ws) =
     (let acc' = fl (acc + fl (w / tw)) in acc' # cumulative_weights fl tw acc' ws)"

definition Select_weighted ::
  "(rat \<Rightarrow> rat) \<Rightarrow> rat \<Rightarrow> client_id option \<Rightarrow> routing_terminator list \<Rightarrow> selection" where
  "Select_weighted fl draw params terminators =
     (case GetRelatedTerminators terminators of
        None \<Rightarrow> None
      | Some related \<Rightarrow>
          if length related = 1 then Some (hd related, [])
          else
            let costs = weighted_costs fl related;
                totalCost = fl_sum fl costs;
                weights = map (\<lambda>cost. fl (1 - fl (cost / totalCost))) costs;
                totalWeight = fl_sum fl weights;
                cumulative = cumulative_weights fl totalWeight 0 weights
            in case find (\<lambda>(t, c). draw < c) (zip related cumulative) of
                 Some (t, c) \<Rightarrow> Some (t, [])
               | None \<Rightarrow> Some (hd related, []))"

text \<open>
  The registry: the factories by name, and the strategies that exist already. A strategy is the
  factory that made it and the number of its creation, its object identity.
\<close>

record 'f strategy_registry =
  reg_factories :: "string \<rightharpoonup> 'f"
  reg_strategies :: "string \<rightharpoonup> 'f \<times> nat"
  reg_next :: nat

definition RegisterFactory :: "'f strategy_registry \<Rightarrow> string \<Rightarrow> 'f \<Rightarrow> 'f strategy_registry" where
  "RegisterFactory reg name factory = reg\<lparr>reg_factories := (reg_factories reg)(name \<mapsto> factory)\<rparr>"

definition GetStrategy ::
  "'f strategy_registry \<Rightarrow> string \<Rightarrow> 'f strategy_registry \<times> ('f \<times> nat) option" where
  "GetStrategy reg name =
     (case reg_strategies reg name of
        Some s \<Rightarrow> (reg, Some s)
      | None \<Rightarrow>
          (case reg_factories reg name of
             None \<Rightarrow> (reg, None)
           | Some factory \<Rightarrow>
               let s = (factory, reg_next reg)
               in (reg\<lparr>reg_strategies := (reg_strategies reg)(name \<mapsto> s), reg_next := reg_next reg + 1\<rparr>,
                   Some s)))"

section \<open>The contract of a strategy\<close>

text \<open>The leading run of terminators with the precedence of the first.\<close>

definition leading_run :: "routing_terminator list \<Rightarrow> routing_terminator list" where
  "leading_run ts = takeWhile (\<lambda>t. rt_Precedence t = rt_Precedence (hd ts)) ts"

text \<open>A route cost as path selection computes it: some cost, biased by the terminator's precedence.\<close>

definition costed :: "routing_terminator \<Rightarrow> bool" where
  "costed t \<longleftrightarrow> rt_Precedence t \<in> set all_precedences \<and>
     prec_minCost (rt_Precedence t) \<le> rt_RouteCost t \<and> rt_RouteCost t \<le> prec_maxCost (rt_Precedence t)"

lemma band_le:
  assumes "costed a" and "costed b" and "rt_RouteCost a \<le> rt_RouteCost b"
  shows "prec_minCost (rt_Precedence a) \<le> prec_minCost (rt_Precedence b)"
  using assms unfolding costed_def all_precedences_def
  by (auto simp: precedence_defs word_le_nat_alt)

locale terminator_strategy =
  fixes select :: "'p \<Rightarrow> routing_terminator list \<Rightarrow> selection"
  assumes select_leading: "ts \<noteq> [] \<Longrightarrow> \<exists>t pd. select p ts = Some (t, pd) \<and> t \<in> set (leading_run ts)"
    and select_empty: "select p [] = None"
begin

lemma select_member: "select p ts = Some (t, pd) \<Longrightarrow> t \<in> set ts"
  using select_leading [of ts p] select_empty [of p]
  by (cases "ts = []") (auto simp: leading_run_def dest: set_takeWhileD)

lemma select_precedence: "select p ts = Some (t, pd) \<Longrightarrow> rt_Precedence t = rt_Precedence (hd ts)"
  using select_leading [of ts p] select_empty [of p]
  by (cases "ts = []") (auto simp: leading_run_def dest: set_takeWhileD)

lemma best_precedence:
  assumes "select p ts = Some (t, pd)" and "sorted (map rt_RouteCost ts)"
    and "\<forall>u \<in> set ts. costed u" and "u \<in> set ts"
  shows "prec_minCost (rt_Precedence t) \<le> prec_minCost (rt_Precedence u)"
proof -
  have ne: "ts \<noteq> []" using assms(4) by auto
  have "rt_RouteCost (hd ts) \<le> rt_RouteCost u"
    using assms(2,4) ne by (cases ts) auto
  then have "prec_minCost (rt_Precedence (hd ts)) \<le> prec_minCost (rt_Precedence u)"
    using assms(3,4) ne by (intro band_le) auto
  then show ?thesis using select_precedence [OF assms(1)] by simp
qed

end

lemma GetRelatedTerminators_leading:
  "ts \<noteq> [] \<Longrightarrow> GetRelatedTerminators ts = Some (leading_run ts)"
  by (cases ts) (simp_all add: leading_run_def)

lemma leading_run_nonempty [simp]: "leading_run ts = [] \<longleftrightarrow> ts = []"
  by (cases ts) (simp_all add: leading_run_def)

lemma hd_leading_run: "ts \<noteq> [] \<Longrightarrow> hd (leading_run ts) \<in> set (leading_run ts)"
  by simp

interpretation smart: terminator_strategy Select_smartrouting
proof (unfold_locales, goal_cases)
  case (1 ts p)
  then show ?case by (cases ts) (simp_all add: Select_smartrouting_def leading_run_def)
next
  case (2 p)
  show ?case by (simp add: Select_smartrouting_def)
qed

interpretation sticky: terminator_strategy Select_sticky
proof (unfold_locales, goal_cases)
  case (1 ts p)
  then show ?case
    by (auto simp: Select_sticky_def GetRelatedTerminators_leading Let_def find_Some_iff
        split: option.split dest: nth_mem)
next
  case (2 p)
  show ?case by (simp add: Select_sticky_def)
qed

interpretation random: terminator_strategy "Select_random draw" for draw
proof (unfold_locales, goal_cases)
  case (1 ts p)
  then have "draw mod length (leading_run ts) < length (leading_run ts)" by simp
  with 1 show ?case
    by (auto simp: Select_random_def GetRelatedTerminators_leading Intn_def Let_def)
next
  case (2 p)
  show ?case by (simp add: Select_random_def)
qed

interpretation weighted: terminator_strategy "Select_weighted fl draw" for fl draw
proof (unfold_locales, goal_cases)
  case (1 ts p)
  have "t \<in> set (leading_run ts)"
    if "find (\<lambda>(t, c). draw < c) (zip (leading_run ts) cs) = Some (t, c)" for t c cs
    using that by (auto simp: find_Some_iff in_set_conv_nth)
  with 1 show ?case
    by (auto simp: Select_weighted_def GetRelatedTerminators_leading Let_def split: option.split)
next
  case (2 p)
  show ?case by (simp add: Select_weighted_def)
qed

section \<open>Properties\<close>

text \<open>The strategies under their names, with the randomness each consumes.\<close>

datatype strategy = smartrouting | sticky | random nat | weighted "rat \<Rightarrow> rat" rat

definition Select :: "strategy \<Rightarrow> client_id option \<Rightarrow> routing_terminator list \<Rightarrow> selection" where
  "Select s =
     (case s of
        smartrouting \<Rightarrow> Select_smartrouting
      | sticky \<Rightarrow> Select_sticky
      | random draw \<Rightarrow> Select_random draw
      | weighted fl draw \<Rightarrow> Select_weighted fl draw)"

interpretation any: terminator_strategy "Select s" for s
proof (cases s)
  case smartrouting
  then show "terminator_strategy (Select s)" by (simp add: Select_def smart.terminator_strategy_axioms)
next
  case sticky
  then show "terminator_strategy (Select s)" by (simp add: Select_def sticky.terminator_strategy_axioms)
next
  case (random draw)
  then show "terminator_strategy (Select s)" by (simp add: Select_def random.terminator_strategy_axioms)
next
  case (weighted fl draw)
  then show "terminator_strategy (Select s)" by (simp add: Select_def weighted.terminator_strategy_axioms)
qed

text \<open>
  C15. Every strategy selects a terminator from every non-empty list, and on a list sorted by biased
  route cost the selected terminator has the best precedence there is: no terminator of a failed
  precedence is used while a default or required one is available.
\<close>

theorem Select_best_precedence:
  assumes "ts \<noteq> []" and "sorted (map rt_RouteCost ts)" and "\<forall>u \<in> set ts. costed u"
  shows "\<exists>t pd. Select s p ts = Some (t, pd) \<and> t \<in> set ts \<and>
    (\<forall>u \<in> set ts. prec_minCost (rt_Precedence t) \<le> prec_minCost (rt_Precedence u))"
  using any.select_leading [OF assms(1)] any.select_member any.best_precedence [OF _ assms(2,3)]
  by metis

definition sample_terminator :: "string \<Rightarrow> precedence \<Rightarrow> u32 \<Rightarrow> routing_terminator" where
  "sample_terminator i p c =
     \<lparr>rt_RouteCost = GetBiasedCost p c,
      rt_Terminator = \<lparr>t_Id = i, t_Service = ''s'', t_Router = ''r'', t_Binding = ''b'', t_Address = ''a'',
                       t_InstanceId = '''', t_Cost = 0, t_Precedence = p\<rparr>\<rparr>"

theorem Select_best_precedence_witness:
  "\<exists>t pd. Select (random 5) None [sample_terminator ''x'' Default 3, sample_terminator ''y'' Default 9,
      sample_terminator ''z'' Failed 1] = Some (t, pd) \<and> rt_Precedence t \<noteq> Failed"
proof -
  let ?ts = "[sample_terminator ''x'' Default 3, sample_terminator ''y'' Default 9,
      sample_terminator ''z'' Failed 1]"
  have "sorted (map rt_RouteCost ?ts)" "\<forall>u \<in> set ?ts. costed u"
    by (simp_all add: sample_terminator_def costed_def all_precedences_def GetBiasedCost_def precedence_defs)
  from Select_best_precedence [OF _ this, of "random 5" None]
  show ?thesis by (auto simp: sample_terminator_def Failed_def Default_def min_cost_defs)
qed

text \<open>
  C16. The sticky strategy sticks: a client that hands back the token of a terminator that is still in
  the leading precedence gets a terminator with that identifier again, and in every case the returned
  token names the terminator that was selected.
\<close>

theorem Select_sticky_token:
  assumes "Select_sticky (Some client) ts = Some (t, pd)"
  shows "map_of pd XtStickinessToken = Some (rt_Id t) \<and>
    (\<forall>u. u \<in> set (leading_run ts) \<longrightarrow> map_of (cid_Data client) XtStickinessToken = Some (rt_Id u) \<longrightarrow>
       rt_Id t = rt_Id u)"
proof (cases "ts = []")
  case True
  then show ?thesis using assms by (simp add: Select_sticky_def)
next
  case False
  have "rt_Id (case find (\<lambda>t. rt_Id t = rt_Id u) (leading_run ts) of
      None \<Rightarrow> hd (leading_run ts) | Some t \<Rightarrow> t) = rt_Id u"
    if "u \<in> set (leading_run ts)" for u
    using that by (auto simp: find_None_iff find_Some_iff split: option.split)
  then show ?thesis
    using assms False by (auto simp: Select_sticky_def GetRelatedTerminators_leading Let_def)
qed

theorem Select_sticky_token_witness:
  "\<exists>t pd. Select_sticky (Some \<lparr>cid_Token = ''c'', cid_Data = [(XtStickinessToken, ''y'')]\<rparr>)
      [sample_terminator ''x'' Default 3, sample_terminator ''y'' Default 9] = Some (t, pd) \<and> rt_Id t = ''y''"
proof -
  let ?c = "\<lparr>cid_Token = ''c'', cid_Data = [(XtStickinessToken, ''y'')]\<rparr>"
  let ?ts = "[sample_terminator ''x'' Default 3, sample_terminator ''y'' Default 9]"
  obtain t pd where sel: "Select_sticky (Some ?c) ?ts = Some (t, pd)"
    using sticky.select_leading [of ?ts "Some ?c"] by auto
  have "sample_terminator ''y'' Default 9 \<in> set (leading_run ?ts)"
    by (simp add: leading_run_def sample_terminator_def)
  then show ?thesis
    using Select_sticky_token [OF sel] sel by (force simp: sample_terminator_def)
qed

text \<open>
  C17. A strategy is created once: after a lookup that succeeded, every later lookup of the same name
  returns the same strategy and leaves the registry unchanged, whichever factories are registered in
  between; a name without a strategy and without a factory is an error.
\<close>

theorem GetStrategy_stable:
  assumes "GetStrategy reg name = (reg', r)"
  shows "(r = None \<longleftrightarrow> reg_strategies reg name = None \<and> reg_factories reg name = None) \<and>
    (r \<noteq> None \<longrightarrow> GetStrategy (RegisterFactory reg' other factory) name = (RegisterFactory reg' other factory, r))"
proof (cases "reg_strategies reg name")
  case (Some s)
  then have "reg' = reg" "r = Some s" using assms by (simp_all add: GetStrategy_def)
  then show ?thesis using Some by (simp add: GetStrategy_def RegisterFactory_def)
next
  case None
  then show ?thesis
    using assms by (cases "reg_factories reg name") (auto simp: GetStrategy_def RegisterFactory_def Let_def)
qed

definition sample_registry :: "nat strategy_registry" where
  "sample_registry = \<lparr>reg_factories = [''sticky'' \<mapsto> 7], reg_strategies = Map.empty, reg_next = 5\<rparr>"

theorem GetStrategy_stable_witness:
  "snd (GetStrategy (RegisterFactory (fst (GetStrategy sample_registry ''sticky'')) ''sticky'' 8) ''sticky'') =
     Some (7, 5)"
proof -
  obtain reg' r where look: "GetStrategy sample_registry ''sticky'' = (reg', r)" by (rule prod.exhaust)
  then have "r = Some (7, 5)" by (auto simp: sample_registry_def GetStrategy_def Let_def)
  then show ?thesis using GetStrategy_stable [OF look, of "''sticky''" 8] look by simp
qed

end
