(* ===== verification/Route_Messages.thy ===== *)
theory Route_Messages
  imports Shortest_Path Terminator_Strategies
begin

text \<open>
  Paths and route messages: \<^verbatim>\<open>controller/model/path.go\<close>, \<open>CreateRouteMessages\<close>, \<open>CreatePathWithNodes\<close> and
  \<open>UpdatePath\<close> of \<^verbatim>\<open>controller/network/network_path.go\<close>, and \<open>setLinks\<close> and \<open>CreatePath\<close> of
  \<^verbatim>\<open>controller/network/network.go\<close>.

  Generated ids are arguments, \<open>None\<close> when the generator failed. The remaining time of a circuit, the
  difference of the deadline and the clock, is an argument too.
\<close>

section \<open>Paths\<close>

record path =
  Nodes :: "nat list"
  Links :: "nat list"
  IngressId :: string
  EgressId :: string
  InitiatorLocalAddr :: string
  InitiatorRemoteAddr :: string
  TerminatorLocalAddr :: string
  TerminatorRemoteAddr :: string

definition IsValid :: "path option \<Rightarrow> bool" where
  "IsValid p \<longleftrightarrow> (case p of None \<Rightarrow> False | Some p' \<Rightarrow> length (Nodes p') > 0)"

definition Path_Cost :: "net \<Rightarrow> u16 \<Rightarrow> path \<Rightarrow> int" where
  "Path_Cost n minRouterCost p =
     fold (\<lambda>r cost. wrap64 (cost + router_cost n minRouterCost r)) (Nodes p)
       (fold (\<lambda>l cost. wrap64 (cost + l_Cost (net_links n l))) (Links p) 0)"

definition EqualPath :: "path \<Rightarrow> path \<Rightarrow> bool" where
  "EqualPath self other \<longleftrightarrow>
     length (Nodes self) = length (Nodes other) \<and> length (Links self) = length (Links other) \<and>
     list_all (\<lambda>i. Nodes self ! i = Nodes other ! i) [0..<length (Nodes self)] \<and>
     list_all (\<lambda>i. Links self ! i = Links other ! i) [0..<length (Links self)]"

definition EgressRouter :: "path \<Rightarrow> nat option" where
  "EgressRouter p = (if length (Nodes p) > 0 then Some (Nodes p ! (length (Nodes p) - 1)) else None)"

definition UsesLink :: "path \<Rightarrow> nat \<Rightarrow> bool" where
  "UsesLink p l \<longleftrightarrow> list_ex (\<lambda>o'. o' = l) (Links p)"

fun links_between :: "net \<Rightarrow> nat list \<Rightarrow> nat list option" where
  "links_between n (a # b # nodes) =
     (case LeastExpensiveLink n a b of
        None \<Rightarrow> None
      | Some l \<Rightarrow> (case links_between n (b # nodes) of None \<Rightarrow> None | Some ls \<Rightarrow> Some (l # ls)))"
| "links_between n _ = Some []"

definition setLinks :: "net \<Rightarrow> path \<Rightarrow> path_error + path" where
  "setLinks n p =
     (case links_between n (Nodes p) of
        None \<Rightarrow> Inl PathMissingLink
      | Some ls \<Rightarrow> Inr (p\<lparr>Links := Links p @ ls\<rparr>))"

datatype path_failure = IdGenerationError | PathFailure path_error

definition CreatePathWithNodes ::
  "string option \<Rightarrow> string option \<Rightarrow> net \<Rightarrow> nat list \<Rightarrow> path_failure + path" where
  "CreatePathWithNodes uuid1 uuid2 n nodes =
     (case (uuid1, uuid2) of
        (Some ingressId, Some egressId) \<Rightarrow>
          (case setLinks n \<lparr>Nodes = nodes, Links = [], IngressId = ingressId, EgressId = egressId,
                            InitiatorLocalAddr = '''', InitiatorRemoteAddr = '''',
                            TerminatorLocalAddr = '''', TerminatorRemoteAddr = ''''\<rparr> of
             Inl e \<Rightarrow> Inl (PathFailure e)
           | Inr p \<Rightarrow> Inr p)
      | _ \<Rightarrow> Inl IdGenerationError)"

text \<open>An empty path has no first router; the source would panic.\<close>

definition UpdatePath ::
  "(nat list \<Rightarrow> nat \<Rightarrow> nat) \<Rightarrow> (nat list \<Rightarrow> string \<times> nat \<Rightarrow> nat) \<Rightarrow> net \<Rightarrow> u16 \<Rightarrow> path \<Rightarrow>
   (path_error + path) option" where
  "UpdatePath qrank nrank n minRouterCost p =
     (if Nodes p = [] then None
      else
        let srcR = Nodes p ! 0; dstR = Nodes p ! (length (Nodes p) - 1)
        in case shortestPath qrank nrank n minRouterCost (Some srcR) (Some dstR) of
             None \<Rightarrow> None
           | Some (Inl e) \<Rightarrow> Some (Inl e)
           | Some (Inr (nodes, _)) \<Rightarrow>
               Some (setLinks n
                 \<lparr>Nodes = nodes, Links = [], IngressId = IngressId p, EgressId = EgressId p,
                  InitiatorLocalAddr = InitiatorLocalAddr p, InitiatorRemoteAddr = InitiatorRemoteAddr p,
                  TerminatorLocalAddr = TerminatorLocalAddr p, TerminatorRemoteAddr = TerminatorRemoteAddr p\<rparr>))"

definition CreatePath ::
  "string option \<Rightarrow> string option \<Rightarrow> (nat list \<Rightarrow> nat \<Rightarrow> nat) \<Rightarrow> (nat list \<Rightarrow> string \<times> nat \<Rightarrow> nat) \<Rightarrow>
   net \<Rightarrow> u16 \<Rightarrow> nat \<Rightarrow> nat \<Rightarrow> (path_failure + path) option" where
  "CreatePath uuid1 uuid2 qrank nrank n minRouterCost srcR dstR =
     (case (uuid1, uuid2) of
        (Some ingressId, Some egressId) \<Rightarrow>
          (case UpdatePath qrank nrank n minRouterCost
                  \<lparr>Nodes = [srcR, dstR], Links = [], IngressId = ingressId, EgressId = egressId,
                   InitiatorLocalAddr = '''', InitiatorRemoteAddr = '''',
                   TerminatorLocalAddr = '''', TerminatorRemoteAddr = ''''\<rparr> of
             None \<Rightarrow> None
           | Some (Inl e) \<Rightarrow> Some (Inl (PathFailure e))
           | Some (Inr p) \<Rightarrow> Some (Inr p))
      | _ \<Rightarrow> Some (Inl IdGenerationError))"

section \<open>Route messages\<close>

datatype dest_type = DestStart | DestEnd | DestLink

record forward =
  SrcAddress :: string
  DstAddress :: string
  DstType :: dest_type

record route_egress =
  Binding :: string
  Address :: string
  Destination :: string
  PeerData :: peer_data

record route =
  CircuitId :: string
  Attempt :: u32
  Egress :: "route_egress option"
  Forwards :: "forward list"
  Timeout :: u64
  Tags :: "(string \<times> string) list"

definition SmartRerouteAttempt :: u32 where
  "SmartRerouteAttempt = 99969996"

definition fwd :: "string \<Rightarrow> string \<Rightarrow> dest_type \<Rightarrow> forward" where
  "fwd src dst t = \<lparr>SrcAddress = src, DstAddress = dst, DstType = t\<rparr>"

definition terminator_egress :: "path \<Rightarrow> terminator \<Rightarrow> route_egress" where
  "terminator_egress p t = \<lparr>Binding = t_Binding t, Address = EgressId p, Destination = t_Address t, PeerData = []\<rparr>"

definition route_messages_at ::
  "net \<Rightarrow> path \<Rightarrow> u32 \<Rightarrow> string \<Rightarrow> terminator \<Rightarrow> u64 \<Rightarrow> nat \<Rightarrow> route list" where
  "route_messages_at n p attempt circuitId term remaining i =
     (let link = l_Id (net_links n (Links p ! i));
          msg = (\<lambda>egress forwards.
                   \<lparr>CircuitId = circuitId, Attempt = attempt, Egress = egress, Forwards = forwards,
                    Timeout = remaining, Tags = []\<rparr>)
      in (if i = 0
          then [msg None [fwd (IngressId p) link DestLink, fwd link (IngressId p) DestStart]]
          else []) @
         (if i < length (Links p) - 1
          then let nextLink = l_Id (net_links n (Links p ! (i + 1)))
               in [msg None [fwd link nextLink DestLink, fwd nextLink link DestLink]]
          else []) @
         (if i = length (Links p) - 1
          then [msg (if attempt \<noteq> SmartRerouteAttempt then Some (terminator_egress p term) else None)
                  [fwd (EgressId p) link DestLink, fwd link (EgressId p) DestEnd]]
          else []))"

definition CreateRouteMessages ::
  "net \<Rightarrow> path \<Rightarrow> u32 \<Rightarrow> string \<Rightarrow> terminator \<Rightarrow> int \<Rightarrow> route list" where
  "CreateRouteMessages n p attempt circuitId term remainingTime =
     (let remaining = of_int remainingTime
      in (if length (Links p) = 0
          then [\<lparr>CircuitId = circuitId, Attempt = attempt, Egress = Some (terminator_egress p term),
                 Forwards = [fwd (IngressId p) (EgressId p) DestEnd, fwd (EgressId p) (IngressId p) DestStart],
                 Timeout = remaining, Tags = []\<rparr>]
          else []) @
         concat (map (route_messages_at n p attempt circuitId term remaining) [0..<length (Links p)]))"

section \<open>What a usable path is\<close>

text \<open>A link that can carry a hop between two router connections, in either direction.\<close>

definition carries :: "net \<Rightarrow> nat \<Rightarrow> nat \<Rightarrow> nat \<Rightarrow> bool" where
  "carries n l a b \<longleftrightarrow> l_usable (net_links n l) \<and>
     (l_Src (net_links n l) = a \<and> l_Dst (net_links n l) = Some b \<or>
      l_Src (net_links n l) = b \<and> l_Dst (net_links n l) = Some a)"

definition path_ok :: "net \<Rightarrow> path \<Rightarrow> bool" where
  "path_ok n p \<longleftrightarrow> Nodes p \<noteq> [] \<and> distinct (Nodes p) \<and> Suc (length (Links p)) = length (Nodes p) \<and>
     (\<forall>i < length (Links p). carries n (Links p ! i) (Nodes p ! i) (Nodes p ! Suc i)) \<and>
     distinct (map (\<lambda>l. l_Id (net_links n l)) (Links p))"

lemma AllConnected_current:
  assumes "net_inv {} n" and "r \<in> set (AllConnected n)"
  shows "current n r"
proof -
  obtain i where "(i, r) \<in> set (net.connected n)" using assms(2) by (auto simp: AllConnected_def)
  moreover have "distinct (map fst (net.connected n))" "\<And>i r. map_of (net.connected n) i = Some r \<Longrightarrow> router_id n r = i"
    using assms(1) unfolding net_inv_def conn_ok_def by blast+
  ultimately have "map_of (net.connected n) i = Some r" "router_id n r = i" by simp_all
  then show ?thesis by (simp add: current_def)
qed

lemma LeastExpensiveLink_carries:
  assumes inv: "net_inv {} n" and a: "current n a" and b: "current n b" and l: "LeastExpensiveLink n a b = Some l"
  shows "l \<in> tab n \<and> carries n l a b"
proof -
  note L = LeastExpensiveLink_indexed [OF l]
  have ends: "l \<in> tab n" "l_Src (net_links n l) = a \<and> l_DstId (net_links n l) = router_id n b \<or>
      l_Src (net_links n l) = b \<and> l_DstId (net_links n l) = router_id n a"
    using L(1) unfolding index_symmetric [OF inv a b] by auto
  have dst: "l_DstId (net_links n l) = router_id n r \<Longrightarrow> l_Dst (net_links n l) = Some r" if "current n r" for r
    using inv that ends(1) unfolding net_inv_def router_index_def by auto
  show ?thesis using ends dst [OF a] dst [OF b] L(2) unfolding carries_def by blast
qed

lemma links_between_complete:
  assumes "\<And>i. Suc i < length ns \<Longrightarrow> LeastExpensiveLink n (ns ! i) (ns ! Suc i) \<noteq> None" and "ns \<noteq> []"
  shows "\<exists>ls. links_between n ns = Some ls \<and> Suc (length ls) = length ns \<and>
    (\<forall>i < length ls. LeastExpensiveLink n (ns ! i) (ns ! Suc i) = Some (ls ! i))"
  using assms
proof (induction n ns rule: links_between.induct)
  case (1 n a b nodes)
  obtain l where l: "LeastExpensiveLink n a b = Some l" using 1(2) [of 0] by auto
  have "\<And>i. Suc i < length (b # nodes) \<Longrightarrow> LeastExpensiveLink n ((b # nodes) ! i) ((b # nodes) ! Suc i) \<noteq> None"
    using 1(2) [of "Suc _"] by auto
  from 1(1) [OF l this] obtain ls where ls: "links_between n (b # nodes) = Some ls" "length ls = length nodes"
    "\<forall>i < length ls. LeastExpensiveLink n ((b # nodes) ! i) ((b # nodes) ! Suc i) = Some (ls ! i)" by auto
  have "\<forall>i < length (l # ls). LeastExpensiveLink n ((a # b # nodes) ! i) ((a # b # nodes) ! Suc i) = Some ((l # ls) ! i)"
    using l ls(3) by (auto simp: less_Suc_eq_0_disj)
  then show ?case using l ls(1,2) by (intro exI [of _ "l # ls"]) auto
qed auto

lemma same_link_same_hop:
  assumes "distinct ns" and "Suc i < length ns" and "Suc j < length ns"
    and "carries n l (ns ! i) (ns ! Suc i)" and "carries n l (ns ! j) (ns ! Suc j)"
  shows "i = j"
proof -
  have eq: "ns ! x = ns ! y \<longleftrightarrow> x = y" if "x < length ns" "y < length ns" for x y
    using nth_eq_iff_index_eq [OF assms(1) that] .
  have "a = c \<or> (a = d \<and> c = b)" if "carries n l a b" "carries n l c d" for a b c d
    using that unfolding carries_def by (elim conjE disjE) simp_all
  from this [OF assms(4,5)] show ?thesis
    using eq [of i j] eq [of i "Suc j"] eq [of j "Suc i"] assms(2,3) by linarith
qed

lemma setLinks_complete:
  assumes inv: "net_inv {} n" and ns: "Nodes p \<noteq> []" "distinct (Nodes p)" "Links p = []"
    and cur: "length (Nodes p) > 1 \<Longrightarrow> set (Nodes p) \<subseteq> Collect (current n)"
    and hops: "\<And>i. Suc i < length (Nodes p) \<Longrightarrow> LeastExpensiveLink n (Nodes p ! i) (Nodes p ! Suc i) \<noteq> None"
  shows "\<exists>ls. setLinks n p = Inr (p\<lparr>Links := ls\<rparr>) \<and> path_ok n (p\<lparr>Links := ls\<rparr>) \<and>
    (\<forall>i < length ls. LeastExpensiveLink n (Nodes p ! i) (Nodes p ! Suc i) = Some (ls ! i))"
proof -
  obtain ls where ls: "links_between n (Nodes p) = Some ls" "Suc (length ls) = length (Nodes p)"
    "\<forall>i < length ls. LeastExpensiveLink n (Nodes p ! i) (Nodes p ! Suc i) = Some (ls ! i)"
    using links_between_complete [OF hops ns(1)] by blast
  have hop: "ls ! i \<in> tab n \<and> carries n (ls ! i) (Nodes p ! i) (Nodes p ! Suc i)" if "i < length ls" for i
  proof -
    have "set (Nodes p) \<subseteq> Collect (current n)" "Nodes p ! i \<in> set (Nodes p)" "Nodes p ! Suc i \<in> set (Nodes p)"
      using cur ls(2) that by simp_all
    then have "current n (Nodes p ! i)" "current n (Nodes p ! Suc i)" by blast+
    then show ?thesis using LeastExpensiveLink_carries [OF inv] ls(3) that by blast
  qed
  have ok: "table_ok n" using inv by (simp add: net_inv_def)
  have "i = j" if "i < length ls" "j < length ls" "l_Id (net_links n (ls ! i)) = l_Id (net_links n (ls ! j))" for i j
  proof (rule same_link_same_hop [OF ns(2)])
    have "ls ! i = ls ! j" using hop that tab_iff [OF ok] by (metis option.inject)
    then show "carries n (ls ! j) (Nodes p ! i) (Nodes p ! Suc i)" "carries n (ls ! j) (Nodes p ! j) (Nodes p ! Suc j)"
      using hop that(1,2) by metis+
  qed (use that ls(2) in auto)
  then have "distinct (map (\<lambda>l. l_Id (net_links n l)) ls)" by (auto simp: distinct_conv_nth)
  then have "path_ok n (p\<lparr>Links := ls\<rparr>)" using ns ls(2) hop by (simp add: path_ok_def)
  then show ?thesis using ls(1,3) ns(3) by (auto simp: setLinks_def)
qed

section \<open>Costs of paths\<close>

lemma fold_wrap_sum:
  assumes "\<And>x. x \<in> set xs \<Longrightarrow> 0 \<le> f x" and "0 \<le> acc" and "acc + sum_list (map f xs) \<le> maxInt64"
  shows "fold (\<lambda>x cost. wrap64 (cost + f x)) xs acc = acc + sum_list (map f xs)"
  using assms
proof (induction xs arbitrary: acc)
  case (Cons x xs)
  have "0 \<le> sum_list (map f xs)" by (rule sum_list_nonneg) (use Cons.prems(1) in auto)
  moreover have "0 \<le> f x" using Cons.prems(1) by simp
  ultimately have "wrap64 (acc + f x) = acc + f x"
    using Cons.prems(2,3) by (intro wrap64_id) (simp_all add: maxInt64_def)
  then show ?case using Cons.IH [of "acc + f x"] Cons.prems \<open>0 \<le> f x\<close> by simp
qed simp

lemma hop_cost_link:
  assumes inv: "net_inv {} n" and cb: "cost_bounded n" and a: "current n a" and b: "current n b"
    and l: "LeastExpensiveLink n a b = Some l"
  shows "hop_cost n m a b = l_Cost (net_links n l) + router_cost n m b \<and> 0 \<le> l_Cost (net_links n l)"
proof -
  obtain l' where l': "LeastExpensiveLink n b a = Some l'" "l_Cost (net_links n l') = l_Cost (net_links n l)"
    using least_cost_symmetric [OF inv a b] l by (cases "LeastExpensiveLink n b a") auto
  have "0 \<le> l_Cost (net_links n l)"
    using cb LeastExpensiveLink_indexed(1) [OF l] unfolding cost_bounded_def by blast
  then show ?thesis using l' by (simp add: hop_cost_def)
qed

lemma sum_list_nth: "sum_list (map f xs) = (\<Sum>i < length xs. f (xs ! i))"
  by (simp add: sum_list_sum_nth lessThan_atLeast0)

lemma router_cost_sum:
  "ns \<noteq> [] \<Longrightarrow> sum_list (map (router_cost n m) ns) =
     router_cost n m (hd ns) + (\<Sum>i < length ns - 1. router_cost n m (ns ! Suc i))"
  by (cases ns) (simp_all add: sum_list_nth [symmetric])

lemma Path_Cost_sum:
  assumes cb: "cost_bounded n" and ok: "Nodes p \<noteq> []" "Suc (length (Links p)) = length (Nodes p)"
    and hop: "\<And>i. i < length (Links p) \<Longrightarrow> hop_cost n m (Nodes p ! i) (Nodes p ! Suc i) =
      l_Cost (net_links n (Links p ! i)) + router_cost n m (Nodes p ! Suc i) \<and> 0 \<le> l_Cost (net_links n (Links p ! i))"
    and c: "c = (\<Sum>i < length (Nodes p) - 1. hop_cost n m (Nodes p ! i) (Nodes p ! Suc i))" "c < maxInt32"
  shows "Path_Cost n m p = router_cost n m (hd (Nodes p)) + c"
proof -
  let ?L = "sum_list (map (\<lambda>l. l_Cost (net_links n l)) (Links p))"
  let ?R = "sum_list (map (router_cost n m) (Nodes p))"
  have len: "length (Nodes p) - 1 = length (Links p)" using ok(2) by simp
  have L: "?L = (\<Sum>i < length (Links p). l_Cost (net_links n (Links p ! i)))" by (rule sum_list_nth)
  have tot: "?L + ?R = router_cost n m (hd (Nodes p)) + c"
    unfolding router_cost_sum [OF ok(1)] L c(1) len using hop by (simp add: sum.distrib [symmetric])
  have nn: "0 \<le> l_Cost (net_links n l)" if "l \<in> set (Links p)" for l
    using hop that unfolding in_set_conv_nth by blast
  then have L0: "0 \<le> ?L" by (intro sum_list_nonneg) auto
  have R0: "0 \<le> ?R" by (intro sum_list_nonneg) (auto simp: router_cost_bounds)
  have bound: "?L + ?R \<le> maxInt64"
    using tot c(2) router_cost_bounds [of n m "hd (Nodes p)"] by (simp add: maxInt32_def maxInt64_def)
  have "fold (\<lambda>l cost. wrap64 (cost + l_Cost (net_links n l))) (Links p) 0 = 0 + ?L"
    by (rule fold_wrap_sum) (use nn R0 bound in auto)
  moreover have "fold (\<lambda>r cost. wrap64 (cost + router_cost n m r)) (Nodes p) ?L = ?L + ?R"
    by (rule fold_wrap_sum) (use L0 bound in \<open>auto simp: router_cost_bounds\<close>)
  ultimately show ?thesis using tot by (simp add: Path_Cost_def)
qed

section \<open>Properties\<close>

lemma shortestPath_links:
  assumes inv: "net_inv {} n" and cb: "cost_bounded n"
    and r: "shortestPath qr nr n m (Some s) (Some t) = Some (Inr (ns, c))"
    and p: "Nodes p = ns" "Links p = []"
  shows "\<exists>ls. setLinks n p = Inr (p\<lparr>Links := ls\<rparr>) \<and> path_ok n (p\<lparr>Links := ls\<rparr>) \<and>
    Path_Cost n m (p\<lparr>Links := ls\<rparr>) = router_cost n m (hd ns) + c"
proof -
  note F = shortestPath_found [OF cb r]
  have U: "\<And>i. Suc i < length ns \<Longrightarrow> LeastExpensiveLink n (ns ! Suc i) (ns ! i) \<noteq> None"
    "c = (\<Sum>i < length ns - 1. hop_cost n m (ns ! i) (ns ! Suc i))"
    using shortestPath_hops [OF cb r] by force+
  have cur: "set ns \<subseteq> Collect (current n)" if "length ns > 1"
    using F that AllConnected_current [OF inv] unfolding route_between_def by blast
  have cur': "current n (ns ! i)" "current n (ns ! Suc i)" if "Suc i < length ns" for i
  proof -
    have "set ns \<subseteq> Collect (current n)" "ns ! i \<in> set ns" "ns ! Suc i \<in> set ns" using cur that by simp_all
    then show "current n (ns ! i)" "current n (ns ! Suc i)" by blast+
  qed
  have hops: "LeastExpensiveLink n (ns ! i) (ns ! Suc i) \<noteq> None" if "Suc i < length ns" for i
    using least_cost_symmetric [OF inv cur' [OF that]] U(1) [OF that] by (auto simp flip: map_option_is_None)
  obtain ls where ls: "setLinks n p = Inr (p\<lparr>Links := ls\<rparr>)" "path_ok n (p\<lparr>Links := ls\<rparr>)"
    "\<forall>i < length ls. LeastExpensiveLink n (ns ! i) (ns ! Suc i) = Some (ls ! i)"
    using setLinks_complete [OF inv, of p] F p cur hops by auto
  have len: "Suc (length ls) = length ns" using ls(2) p by (simp add: path_ok_def)
  have "Path_Cost n m (p\<lparr>Links := ls\<rparr>) = router_cost n m (hd (Nodes (p\<lparr>Links := ls\<rparr>))) + c"
  proof (rule Path_Cost_sum [OF cb])
    show "hop_cost n m (Nodes (p\<lparr>Links := ls\<rparr>) ! i) (Nodes (p\<lparr>Links := ls\<rparr>) ! Suc i) =
      l_Cost (net_links n (Links (p\<lparr>Links := ls\<rparr>) ! i)) + router_cost n m (Nodes (p\<lparr>Links := ls\<rparr>) ! Suc i) \<and>
      0 \<le> l_Cost (net_links n (Links (p\<lparr>Links := ls\<rparr>) ! i))" if "i < length (Links (p\<lparr>Links := ls\<rparr>))" for i
    proof -
      have "Suc i < length ns" "LeastExpensiveLink n (ns ! i) (ns ! Suc i) = Some (ls ! i)"
        using that len ls(3) by simp_all
      from hop_cost_link [OF inv cb cur' [OF this(1)] this(2), of m] show ?thesis using p(1) by simp
    qed
  qed (use F U len p in auto)
  then show ?thesis using ls p by auto
qed

lemma UpdatePath_result:
  assumes inv: "net_inv {} n" and cb: "cost_bounded n" and ne: "Nodes p \<noteq> []"
  shows "\<exists>res. UpdatePath qr nr n m p = Some res \<and>
    (case res of
       Inl e \<Rightarrow> e = CantRoute
     | Inr q \<Rightarrow> path_ok n q \<and> IngressId q = IngressId p \<and> EgressId q = EgressId p \<and>
         hd (Nodes q) = current_instance n (hd (Nodes p)) \<and> last (Nodes q) = current_instance n (last (Nodes p)) \<and>
         (\<forall>ns. route_between n (hd (Nodes q)) (last (Nodes q)) ns \<longrightarrow>
            Path_Cost n m q \<le> router_cost n m (hd (Nodes q)) + weight (edge_cost n m (hd (Nodes q)) (last (Nodes q))) ns))"
proof -
  let ?sp = "shortestPath qr nr n m (Some (hd (Nodes p))) (Some (last (Nodes p)))"
  let ?s = "current_instance n (hd (Nodes p))" and ?t = "current_instance n (last (Nodes p))"
  have ends: "Nodes p ! 0 = hd (Nodes p)" "Nodes p ! (length (Nodes p) - 1) = last (Nodes p)"
    using ne by (simp_all add: hd_conv_nth last_conv_nth)
  obtain res where res: "?sp = Some res" "case res of Inl e \<Rightarrow> e = CantRoute
     | Inr (ns, c) \<Rightarrow> \<forall>q. route_between n ?s ?t q \<longrightarrow> c \<le> weight (edge_cost n m ?s ?t) q"
    using shortestPath_total [OF cb, of qr nr m "hd (Nodes p)" "last (Nodes p)"] by blast
  show ?thesis
  proof (cases res)
    case (Inl e)
    then show ?thesis using res ne ends by (simp add: UpdatePath_def)
  next
    case (Inr r)
    obtain ns c where r: "r = (ns, c)" by (rule prod.exhaust)
    let ?p = "p\<lparr>Nodes := ns, Links := []\<rparr>"
    have sp: "?sp = Some (Inr (ns, c))" using res(1) Inr r by simp
    note F = shortestPath_found [OF cb sp]
    obtain ls where ls: "setLinks n ?p = Inr (?p\<lparr>Links := ls\<rparr>)" "path_ok n (?p\<lparr>Links := ls\<rparr>)"
      "Path_Cost n m (?p\<lparr>Links := ls\<rparr>) = router_cost n m (hd ns) + c"
      using shortestPath_links [OF inv cb sp, of ?p] by auto
    have "UpdatePath qr nr n m p = Some (Inr (?p\<lparr>Links := ls\<rparr>))"
      using ne ends sp ls(1) by (cases p) (simp add: UpdatePath_def)
    then show ?thesis using ls(2,3) F res(2) Inr r by auto
  qed
qed

lemma setLinks_fields: "setLinks n p = Inr q \<Longrightarrow> q = p\<lparr>Links := Links q\<rparr>" "setLinks n p \<noteq> Inl CantRoute"
  by (auto simp: setLinks_def split: option.splits)

text \<open>A recomputed path differs in its routers and links only, and the search failed if there is none.\<close>

lemma UpdatePath_fields: "UpdatePath qr nr n m p = Some (Inr q) \<Longrightarrow> q = p\<lparr>Nodes := Nodes q, Links := Links q\<rparr>"
  by (cases p; cases q) (auto simp: UpdatePath_def Let_def split: option.splits sum.splits if_splits dest!: setLinks_fields(1))

lemma UpdatePath_failed:
  assumes "cost_bounded n" and "Nodes p \<noteq> []" and "UpdatePath qr nr n m p = Some (Inl CantRoute)"
    and "route_between n (current_instance n (hd (Nodes p))) (current_instance n (last (Nodes p))) ns"
  shows "maxInt32 \<le> weight (edge_cost n m (current_instance n (hd (Nodes p))) (current_instance n (last (Nodes p)))) ns \<and>
    current_instance n (hd (Nodes p)) \<noteq> current_instance n (last (Nodes p))"
proof (rule shortestPath_failed [OF assms(1) _ assms(4)])
  have "Nodes p ! 0 = hd (Nodes p)" "Nodes p ! (length (Nodes p) - 1) = last (Nodes p)"
    using assms(2) by (simp_all add: hd_conv_nth last_conv_nth)
  then show "shortestPath qr nr n m (Some (hd (Nodes p))) (Some (last (Nodes p))) = Some (Inl CantRoute)"
    using assms(2,3) setLinks_fields(2) by (auto simp: UpdatePath_def Let_def split: option.splits sum.splits)
qed

text \<open>
  C18. Recomputing the path of a circuit is complete. In every reachable state of the network with bounded
  link costs, which does not change during the call, the call returns. If it fails, the error is that there is no route, and indeed every route
  between the current connections of the two end points costs at least the 32 bit limit of the search. In
  particular a path that the search found never lacks a link: the search asks for the links of a hop from
  the far router and the link assignment from the near one, and both find one. If it succeeds, the new path
  runs between the current connections of the same two end points, keeps the ids and addresses of the old
  path, has one usable link per hop, all different, and its cost, computed without overflow, is that of a
  cheapest route.
\<close>

theorem UpdatePath_complete:
  assumes st: "net_start n0" and n: "n = foldl net_step n0 ops" and cb: "cost_bounded n" and ne: "Nodes p \<noteq> []"
    and s: "s = current_instance n (hd (Nodes p))" and t: "t = current_instance n (last (Nodes p))"
  shows "\<exists>res. UpdatePath qr nr n m p = Some res \<and>
    (case res of
       Inl e \<Rightarrow> e = CantRoute \<and> (\<forall>ns. route_between n s t ns \<longrightarrow> maxInt32 \<le> weight (edge_cost n m s t) ns)
     | Inr q \<Rightarrow> path_ok n q \<and> q = p\<lparr>Nodes := Nodes q, Links := Links q\<rparr> \<and> hd (Nodes q) = s \<and> last (Nodes q) = t \<and>
         (\<forall>ns. route_between n s t ns \<longrightarrow> Path_Cost n m q \<le> router_cost n m s + weight (edge_cost n m s t) ns))"
proof -
  have inv: "net_inv {} n" using net_run_inv [OF net_start_inv [OF st]] unfolding n .
  obtain res where res: "UpdatePath qr nr n m p = Some res" using UpdatePath_result [OF inv cb ne] by blast
  show ?thesis
  proof (cases res)
    case (Inl e)
    then have "UpdatePath qr nr n m p = Some (Inl CantRoute)" "e = CantRoute"
      using res UpdatePath_result [OF inv cb ne, of qr nr m] by simp_all
    then show ?thesis using UpdatePath_failed [OF cb ne, of qr nr m] unfolding s t by auto
  next
    case (Inr q)
    then show ?thesis using res UpdatePath_result [OF inv cb ne, of qr nr m] UpdatePath_fields [of qr nr n m p q] unfolding s t by auto
  qed
qed

definition route_addresses :: "net \<Rightarrow> path \<Rightarrow> string list" where
  "route_addresses n p = IngressId p # map (\<lambda>l. l_Id (net_links n l)) (Links p) @ [EgressId p]"

text \<open>The message for the router at position \<open>i\<close> of a path.\<close>

definition hop_message :: "net \<Rightarrow> path \<Rightarrow> u32 \<Rightarrow> string \<Rightarrow> terminator \<Rightarrow> u64 \<Rightarrow> nat \<Rightarrow> route" where
  "hop_message n p attempt circuitId term remaining i =
     (let as = route_addresses n p; L = length (Links p);
          up = fwd (as ! i) (as ! Suc i) (if i = L then DestEnd else DestLink);
          down = fwd (as ! Suc i) (as ! i) (if i = 0 then DestStart else DestLink)
      in \<lparr>CircuitId = circuitId, Attempt = attempt,
          Egress = (if i = L \<and> (attempt \<noteq> SmartRerouteAttempt \<or> L = 0) then Some (terminator_egress p term) else None),
          Forwards = (if i = L \<and> 0 < L then [down, up] else [up, down]),
          Timeout = remaining, Tags = []\<rparr>)"

lemma route_addresses_nth:
  "route_addresses n p ! 0 = IngressId p" "route_addresses n p ! Suc (length (Links p)) = EgressId p"
  "i < length (Links p) \<Longrightarrow> route_addresses n p ! Suc i = l_Id (net_links n (Links p ! i))"
  by (simp_all add: route_addresses_def nth_append)

lemma route_messages_at_hop:
  assumes "i < length (Links p)"
  shows "route_messages_at n p attempt c term rem i =
    (if i = 0 then [hop_message n p attempt c term rem 0] else []) @ [hop_message n p attempt c term rem (Suc i)]"
proof (cases "Suc i = length (Links p)")
  case True
  then show ?thesis using assms route_addresses_nth(1,2) [of n p] route_addresses_nth(3) [of i p n]
    by (auto simp: route_messages_at_def hop_message_def Let_def fwd_def)
next
  case False
  then have "Suc i < length (Links p)" using assms by simp
  then show ?thesis
    using assms route_addresses_nth(1,2) [of n p] route_addresses_nth(3) [of i p n] route_addresses_nth(3) [of "Suc i" p n]
    by (auto simp: route_messages_at_def hop_message_def Let_def fwd_def)
qed

lemma CreateRouteMessages_map:
  "CreateRouteMessages n p attempt c term rem =
     map (hop_message n p attempt c term (of_int rem)) [0..<Suc (length (Links p))]"
proof -
  let ?h = "hop_message n p attempt c term (of_int rem)"
  have "concat (map (route_messages_at n p attempt c term (of_int rem)) [0..<k]) =
      (if k = 0 then [] else map ?h [0..<Suc k])" if "k \<le> length (Links p)" for k
    using that by (induction k) (auto simp: route_messages_at_hop)
  from this [OF order_refl] show ?thesis
    by (auto simp: CreateRouteMessages_def Let_def hop_message_def route_addresses_def)
qed

text \<open>
  C19. The route messages of a circuit describe one two-way chain. There is one message per router of the
  path. Read along the path, the addresses are the ingress, the links in order, and the egress; the
  message for a router forwards between the address before it and the address after it, in both
  directions, and nothing else. Traffic leaves the chain at the two ends only, and only the last message
  may ask for the egress to be dialed: always for a path of one router, and otherwise unless the
  messages are for a reroute.
\<close>

theorem CreateRouteMessages_chain:
  assumes "Suc (length (Links p)) = length (Nodes p)"
  shows "let rms = CreateRouteMessages n p attempt c term rem; as = route_addresses n p; L = length (Links p) in
    length rms = length (Nodes p) \<and>
    (\<forall>i < length rms. CircuitId (rms ! i) = c \<and> Attempt (rms ! i) = attempt \<and>
       set (Forwards (rms ! i)) =
         {fwd (as ! i) (as ! Suc i) (if i = L then DestEnd else DestLink),
          fwd (as ! Suc i) (as ! i) (if i = 0 then DestStart else DestLink)} \<and>
       Egress (rms ! i) = (if i = L \<and> (attempt \<noteq> SmartRerouteAttempt \<or> L = 0)
                           then Some (terminator_egress p term) else None))"
  using assms by (auto simp: CreateRouteMessages_map Let_def hop_message_def simp del: upt_Suc)

subsection \<open>Witnesses\<close>

definition sample_route :: "nat list \<Rightarrow> nat list \<Rightarrow> path" where
  "sample_route ns ls = \<lparr>Nodes = ns, Links = ls, IngressId = ''in'', EgressId = ''out'', InitiatorLocalAddr = '''',
     InitiatorRemoteAddr = '''', TerminatorLocalAddr = '''', TerminatorRemoteAddr = ''''\<rparr>"

theorem UpdatePath_complete_witness:
  "\<exists>q. UpdatePath (\<lambda>_ r. r) (\<lambda>_ _. 0) (foldl net_step sample_net sample_ops) 10 (sample_route [0, 1] []) = Some (Inr q) \<and>
     path_ok (foldl net_step sample_net sample_ops) q \<and> IngressId q = ''in'' \<and> hd (Nodes q) = 0 \<and> last (Nodes q) = 1"
proof -
  define n where "n = foldl net_step sample_net sample_ops"
  define p where "p = sample_route [0, 1] []"
  have p: "Nodes p = [0, 1]" "Nodes p \<noteq> []" "0 = current_instance n (hd (Nodes p))" "1 = current_instance n (last (Nodes p))" "IngressId p = ''in''"
    using sample_current by (simp_all add: p_def n_def sample_route_def)
  have "UpdatePath (\<lambda>_ r. r) (\<lambda>_ _. 0) n 10 p \<noteq> Some (Inl CantRoute)"
    using sample_path [folded n_def] p(1) setLinks_fields(2) by (simp add: UpdatePath_def)
  moreover note C = UpdatePath_complete [OF sample_start_net n_def sample_cost_bounded [folded n_def] p(2-4), of "\<lambda>_ r. r" "\<lambda>_ _. 0" 10]
  moreover from C obtain res where u: "UpdatePath (\<lambda>_ r. r) (\<lambda>_ _. 0) n 10 p = Some res" by blast
  ultimately obtain q where "UpdatePath (\<lambda>_ r. r) (\<lambda>_ _. 0) n 10 p = Some (Inr q)" "path_ok n q" "hd (Nodes q) = 0" "last (Nodes q) = 1"
    "q = p\<lparr>Nodes := Nodes q, Links := Links q\<rparr>" by (cases res) simp_all
  moreover from this(5) have "IngressId q = ''in''" using p(5) by (metis path.select_convs(3) path.surjective path.update_convs(1,2))
  ultimately show ?thesis unfolding n_def [symmetric] p_def [symmetric] by blast
qed

theorem CreateRouteMessages_chain_witness:
  "length (CreateRouteMessages sample_net (sample_route [0, 1, 2] [4, 5]) 0 ''c'' (rt_Terminator (sample_terminator ''t'' Default 7)) 5) = 3"
  using CreateRouteMessages_chain [of "sample_route [0, 1, 2] [4, 5]" sample_net 0 "''c''"
      "rt_Terminator (sample_terminator ''t'' Default 7)" 5]
  by (simp add: Let_def sample_route_def)

end
