(* ===== verification/Forwarder.thy ===== *)
theory Forwarder
  imports Route_Messages
begin

text \<open>
  The data plane of a router: \<^verbatim>\<open>router/forwarder/tables.go\<close>, \<^verbatim>\<open>router/forwarder/forwarder.go\<close>,
  \<^verbatim>\<open>router/forwarder/faulter.go\<close> and \<^verbatim>\<open>router/forwarder/scanner.go\<close>.

  A destination is an object with an identity, an xgress (the end of a circuit) or a link. Whether
  handing a message to a destination fails is an argument, as is the clock. The controllers a router
  has a control channel to are a list of their ids.
\<close>

section \<open>Tables\<close>

record forward_table =
  ft_ctrlId :: string
  ft_last :: int
  ft_destinations :: "string cmap"

datatype destination = XgressDest nat | LinkDest nat

record forwarder =
  f_circuits :: "forward_table cmap"
  f_destinations :: "destination cmap"
  f_xgress :: "string list cmap"

definition newForwardTable :: "string \<Rightarrow> forward_table" where
  "newForwardTable ctrlId = \<lparr>ft_ctrlId = ctrlId, ft_last = 0, ft_destinations = []\<rparr>"

definition setForwardTable :: "string \<Rightarrow> forward_table \<Rightarrow> int \<Rightarrow> forwarder \<Rightarrow> forwarder" where
  "setForwardTable circuitId ft now f = f\<lparr>f_circuits := AList.update circuitId (ft\<lparr>ft_last := now\<rparr>) (f_circuits f)\<rparr>"

text \<open>A lookup that marks the circuit as active writes the time into the stored table.\<close>

definition getForwardTable :: "string \<Rightarrow> bool \<Rightarrow> int \<Rightarrow> forwarder \<Rightarrow> forwarder \<times> forward_table option" where
  "getForwardTable circuitId markActive now f =
     (case map_of (f_circuits f) circuitId of
        Some ft \<Rightarrow>
          if markActive
          then let ft' = ft\<lparr>ft_last := now\<rparr>
               in (f\<lparr>f_circuits := AList.update circuitId ft' (f_circuits f)\<rparr>, Some ft')
          else (f, Some ft)
      | None \<Rightarrow> (f, None))"

definition removeForwardTable :: "string \<Rightarrow> forwarder \<Rightarrow> forwarder" where
  "removeForwardTable circuitId f = f\<lparr>f_circuits := AList.delete circuitId (f_circuits f)\<rparr>"

definition setForwardAddress :: "string \<Rightarrow> string \<Rightarrow> forward_table \<Rightarrow> forward_table" where
  "setForwardAddress src dst ft = ft\<lparr>ft_destinations := AList.update src dst (ft_destinations ft)\<rparr>"

definition getForwardAddress :: "forward_table \<Rightarrow> string \<Rightarrow> string option" where
  "getForwardAddress ft src = map_of (ft_destinations ft) src"

definition addDestination :: "string \<Rightarrow> destination \<Rightarrow> forwarder \<Rightarrow> forwarder" where
  "addDestination addr d f = f\<lparr>f_destinations := AList.update addr d (f_destinations f)\<rparr>"

definition getDestination :: "forwarder \<Rightarrow> string \<Rightarrow> destination option" where
  "getDestination f addr = map_of (f_destinations f) addr"

definition removeDestination :: "string \<Rightarrow> forwarder \<Rightarrow> forwarder" where
  "removeDestination addr f = f\<lparr>f_destinations := AList.delete addr (f_destinations f)\<rparr>"

definition removeDestinationIfMatches :: "string \<Rightarrow> destination \<Rightarrow> forwarder \<Rightarrow> forwarder" where
  "removeDestinationIfMatches addr d f =
     f\<lparr>f_destinations := fst (cmap_remove_cb (f_destinations f) addr (\<lambda>v. v = Some d))\<rparr>"

definition linkDestinationToCircuit :: "string \<Rightarrow> string \<Rightarrow> forwarder \<Rightarrow> forwarder" where
  "linkDestinationToCircuit circuitId address f =
     (let addresses = (case map_of (f_xgress f) circuitId of Some i \<Rightarrow> i | None \<Rightarrow> [])
      in f\<lparr>f_xgress := AList.update circuitId (addresses @ [address]) (f_xgress f)\<rparr>)"

definition getAddressesForCircuit :: "forwarder \<Rightarrow> string \<Rightarrow> string list option" where
  "getAddressesForCircuit f circuitId = map_of (f_xgress f) circuitId"

definition unlinkCircuit :: "string \<Rightarrow> forwarder \<Rightarrow> forwarder" where
  "unlinkCircuit circuitId f = f\<lparr>f_xgress := AList.delete circuitId (f_xgress f)\<rparr>"

section \<open>Forwarder\<close>

definition RegisterDestination :: "string \<Rightarrow> string \<Rightarrow> destination \<Rightarrow> forwarder \<Rightarrow> forwarder" where
  "RegisterDestination circuitId address d f =
     linkDestinationToCircuit circuitId address (addDestination address d f)"

text \<open>
  Unregistering notifies the removed destinations. The source asserts that they are xgress
  destinations; the result \<open>None\<close> is the panic of that assertion on a link.
\<close>

fun unregister_addresses :: "string list \<Rightarrow> forwarder \<Rightarrow> (forwarder \<times> nat list) option" where
  "unregister_addresses [] f = Some (f, [])"
| "unregister_addresses (address # addresses) f =
     (case getDestination f address of
        None \<Rightarrow> unregister_addresses addresses f
      | Some (LinkDest _) \<Rightarrow> None
      | Some (XgressDest x) \<Rightarrow>
          (case unregister_addresses addresses (removeDestination address f) of
             None \<Rightarrow> None
           | Some (f', unrouted) \<Rightarrow> Some (f', x # unrouted)))"

definition UnregisterDestinations :: "string \<Rightarrow> forwarder \<Rightarrow> (forwarder \<times> nat list) option" where
  "UnregisterDestinations circuitId f =
     (case getAddressesForCircuit f circuitId of
        None \<Rightarrow> Some (f, [])
      | Some addresses \<Rightarrow>
          (case unregister_addresses addresses f of
             None \<Rightarrow> None
           | Some (f', unrouted) \<Rightarrow> Some (unlinkCircuit circuitId f', unrouted)))"

definition HasDestination :: "forwarder \<Rightarrow> string \<Rightarrow> bool" where
  "HasDestination f address \<longleftrightarrow> getDestination f address \<noteq> None"

definition RegisterLink :: "string \<Rightarrow> nat \<Rightarrow> forwarder \<Rightarrow> forwarder" where
  "RegisterLink linkId l f = addDestination linkId (LinkDest l) f"

definition UnregisterLink :: "string \<Rightarrow> nat \<Rightarrow> forwarder \<Rightarrow> forwarder" where
  "UnregisterLink linkId l f = removeDestinationIfMatches linkId (LinkDest l) f"

datatype route_error = InvalidLinkDestination string | InvalidEgressDestination string

text \<open>The loop over the forwards of a message: the table so far, and the error that ended the loop.\<close>

fun route_forwards :: "forwarder \<Rightarrow> forward list \<Rightarrow> forward_table \<Rightarrow> forward_table \<times> route_error option" where
  "route_forwards f [] ft = (ft, None)"
| "route_forwards f (x # xs) ft =
     (if \<not> HasDestination f (DstAddress x) \<and> DstType x = DestLink
      then (ft, Some (InvalidLinkDestination (DstAddress x)))
      else if \<not> HasDestination f (DstAddress x) \<and> DstType x = DestEnd
      then (ft, Some (InvalidEgressDestination (DstAddress x)))
      else route_forwards f xs (setForwardAddress (SrcAddress x) (DstAddress x) ft))"

text \<open>
  A table that exists is changed in place: what the loop wrote before an error stays. A new table is
  stored only when the loop succeeds. The last component lists the links reported as invalid.
\<close>

definition Route :: "string \<Rightarrow> int \<Rightarrow> route \<Rightarrow> forwarder \<Rightarrow> forwarder \<times> route_error option \<times> string list" where
  "Route ctrlId now rt f =
     (let circuitId = CircuitId rt;
          (f1, found) = getForwardTable circuitId True now f;
          ft = (case found of Some ft \<Rightarrow> ft | None \<Rightarrow> newForwardTable ctrlId);
          (ft', err) = route_forwards f1 (Forwards rt) ft
      in case err of
           None \<Rightarrow> (setForwardTable circuitId ft' now f1, None, [])
         | Some e \<Rightarrow>
             (case found of None \<Rightarrow> f1 | Some _ \<Rightarrow> f1\<lparr>f_circuits := AList.update circuitId ft' (f_circuits f1)\<rparr>,
              Some e, case e of InvalidLinkDestination l \<Rightarrow> [l] | InvalidEgressDestination _ \<Rightarrow> []))"

definition EndCircuit :: "string \<Rightarrow> forwarder \<Rightarrow> (forwarder \<times> nat list) option" where
  "EndCircuit circuitId f = UnregisterDestinations circuitId f"

text \<open>An unroute that need not happen at once starts the timeout loop, whose ticks are below.\<close>

definition Unroute :: "string \<Rightarrow> bool \<Rightarrow> forwarder \<Rightarrow> (forwarder \<times> nat list) option" where
  "Unroute circuitId now f =
     (if now then EndCircuit circuitId (removeForwardTable circuitId f) else Some (f, []))"

primrec first_destination :: "forwarder \<Rightarrow> string list \<Rightarrow> destination option" where
  "first_destination f [] = None"
| "first_destination f (a # as) =
     (case getDestination f a of Some d \<Rightarrow> Some d | None \<Rightarrow> first_destination f as)"

definition getXgressForCircuit :: "string \<Rightarrow> forwarder \<Rightarrow> destination option" where
  "getXgressForCircuit circuitId f =
     (case getAddressesForCircuit f circuitId of
        None \<Rightarrow> None | Some addresses \<Rightarrow> first_destination f addresses)"

text \<open>
  One tick of the timeout loop of an unroute. \<open>lastRx\<close> is the time a destination last received from a
  link, in milliseconds; \<open>interval\<close> is in nanoseconds. The flag says that the loop ended.
\<close>

definition unrouteTimeout_tick ::
  "string \<Rightarrow> int \<Rightarrow> int \<Rightarrow> (destination \<Rightarrow> int) \<Rightarrow> forwarder \<Rightarrow> (forwarder \<times> nat list \<times> bool) option" where
  "unrouteTimeout_tick circuitId interval now lastRx f =
     (let finish = (case EndCircuit circuitId (removeForwardTable circuitId f) of
                      None \<Rightarrow> None | Some (f', u) \<Rightarrow> Some (f', u, True))
      in case getXgressForCircuit circuitId f of
           None \<Rightarrow> finish
         | Some (LinkDest _) \<Rightarrow> None
         | Some d \<Rightarrow>
             if wrap64 (wrap64 (now - lastRx d) * 1000000) \<ge> interval then finish else Some (f, [], False))"

datatype payload_type = PayloadTypeXg | PayloadTypeRtx | PayloadTypeFwd

datatype forward_error = NoForwardTable | NoForwardAddress | NoDestination string | SendFailed destination

definition forwardPayload ::
  "(destination \<Rightarrow> bool) \<Rightarrow> string \<Rightarrow> string \<Rightarrow> bool \<Rightarrow> int \<Rightarrow> int \<Rightarrow> forwarder \<Rightarrow>
   forwarder \<times> (forward_error + destination \<times> payload_type)" where
  "forwardPayload fails srcAddr circuitId markActive timeout now f =
     (let (f1, found) = getForwardTable circuitId markActive now f
      in case found of
           None \<Rightarrow> (f1, Inl NoForwardTable)
         | Some ft \<Rightarrow>
             (case getForwardAddress ft srcAddr of
                None \<Rightarrow> (f1, Inl NoForwardAddress)
              | Some dstAddr \<Rightarrow>
                  (case getDestination f1 dstAddr of
                     None \<Rightarrow> (f1, Inl (NoDestination dstAddr))
                   | Some dst \<Rightarrow>
                       let payloadType = (if \<not> markActive then PayloadTypeRtx
                                          else if timeout = 0 then PayloadTypeFwd else PayloadTypeXg)
                       in if fails dst then (f1, Inl (SendFailed dst)) else (f1, Inr (dst, payloadType)))))"

definition ForwardPayload ::
  "(destination \<Rightarrow> bool) \<Rightarrow> string \<Rightarrow> string \<Rightarrow> int \<Rightarrow> int \<Rightarrow> forwarder \<Rightarrow>
   forwarder \<times> (forward_error + destination \<times> payload_type)" where
  "ForwardPayload fails srcAddr circuitId timeout now f = forwardPayload fails srcAddr circuitId True timeout now f"

definition RetransmitPayload ::
  "(destination \<Rightarrow> bool) \<Rightarrow> string \<Rightarrow> string \<Rightarrow> int \<Rightarrow> forwarder \<Rightarrow>
   forwarder \<times> (forward_error + destination \<times> payload_type)" where
  "RetransmitPayload fails srcAddr circuitId now f = forwardPayload fails srcAddr circuitId False 0 now f"

definition ForwardAcknowledgement ::
  "(destination \<Rightarrow> bool) \<Rightarrow> string \<Rightarrow> string \<Rightarrow> int \<Rightarrow> forwarder \<Rightarrow> forwarder \<times> (forward_error + destination)" where
  "ForwardAcknowledgement fails srcAddr circuitId now f =
     (let (f1, found) = getForwardTable circuitId True now f
      in case found of
           None \<Rightarrow> (f1, Inl NoForwardTable)
         | Some ft \<Rightarrow>
             (case getForwardAddress ft srcAddr of
                None \<Rightarrow> (f1, Inl NoForwardAddress)
              | Some dstAddr \<Rightarrow>
                  (case getDestination f1 dstAddr of
                     None \<Rightarrow> (f1, Inl (NoDestination dstAddr))
                   | Some dst \<Rightarrow> if fails dst then (f1, Inl (SendFailed dst)) else (f1, Inr dst))))"

text \<open>
  Control messages are objects of the SDK: whether a message is a trace request, its circuit, the hop
  count it carries, and the answers to a trace are the fields of \<open>control_ops\<close>. A trace request whose
  hops are used up is answered towards the side it came from, by a second call; the result \<open>None\<close> is a
  call that never returns.
\<close>

record 'c control_ops =
  co_circuit :: "'c \<Rightarrow> string"
  co_isTrace :: "'c \<Rightarrow> bool"
  co_decrementHop :: "'c \<Rightarrow> 'c \<times> u32"
  co_response :: "'c \<Rightarrow> 'c"
  co_putError :: "'c \<Rightarrow> 'c"

definition control_failed ::
  "'c control_ops \<Rightarrow> (destination \<Rightarrow> bool) \<Rightarrow> string \<Rightarrow> 'c \<Rightarrow> forwarder \<Rightarrow> forward_error \<Rightarrow>
   forwarder \<times> forward_error option \<times> (destination \<times> 'c) list" where
  "control_failed ops fails srcAddr c f err =
     (if co_isTrace ops c then
        let resp = co_putError ops (co_response ops c)
        in case getDestination f srcAddr of
             None \<Rightarrow> (f, Some err, [])
           | Some dst \<Rightarrow> (f, Some err, if fails dst then [] else [(dst, resp)])
      else (f, Some err, []))"

partial_function (option) ForwardControl ::
  "'c control_ops \<Rightarrow> (destination \<Rightarrow> bool) \<Rightarrow> string \<Rightarrow> 'c \<Rightarrow> int \<Rightarrow> forwarder \<Rightarrow>
   (forwarder \<times> forward_error option \<times> (destination \<times> 'c) list) option" where
  "ForwardControl ops fails srcAddr c now f =
     (let f1 = fst (getForwardTable (co_circuit ops c) True now f)
      in case snd (getForwardTable (co_circuit ops c) True now f) of
           None \<Rightarrow> Some (control_failed ops fails srcAddr c f1 NoForwardTable)
         | Some ft \<Rightarrow>
             (case getForwardAddress ft srcAddr of
                None \<Rightarrow> Some (control_failed ops fails srcAddr c f1 NoForwardAddress)
              | Some dstAddr \<Rightarrow>
                  (case getDestination f1 dstAddr of
                     None \<Rightarrow> Some (control_failed ops fails srcAddr c f1 (NoDestination dstAddr))
                   | Some dst \<Rightarrow>
                       let c' = (if co_isTrace ops c then fst (co_decrementHop ops c) else c)
                       in if co_isTrace ops c \<and> snd (co_decrementHop ops c) = 0
                          then ForwardControl ops fails dstAddr (co_response ops c') now f1
                          else if fails dst then Some (control_failed ops fails srcAddr c' f1 (SendFailed dst))
                          else Some (f1, None, [(dst, c')]))))"

section \<open>Faults\<close>

record faulter =
  fa_interval :: int
  fa_circuitIds :: "string cmap"

datatype fault_subject = LinkFault | LinkDuplicate | IngressFault | EgressFault | ForwardFault | UnknownOwnerForwardFault

record fault =
  fault_Subject :: fault_subject
  fault_Id :: string

definition Report :: "string \<Rightarrow> string \<Rightarrow> faulter \<Rightarrow> faulter" where
  "Report circuitId ctrlId fa =
     (if fa_interval fa > 0 then fa\<lparr>fa_circuitIds := AList.update circuitId ctrlId (fa_circuitIds fa)\<rparr> else fa)"

text \<open>The faults sent for an invalid link, with the controller each one goes to.\<close>

definition NotifyInvalidLink :: "string list \<Rightarrow> string \<Rightarrow> (string \<times> fault) list" where
  "NotifyInvalidLink ctrls linkId = map (\<lambda>ctrlId. (ctrlId, \<lparr>fault_Subject = LinkFault, fault_Id = linkId\<rparr>)) ctrls"

definition ReportForwardingFault :: "string \<Rightarrow> string \<Rightarrow> forwarder \<Rightarrow> faulter option \<Rightarrow> faulter option" where
  "ReportForwardingFault circuitId ctrlId f faulter =
     (let ctrl = (if ctrlId = ''''
                  then case snd (getForwardTable circuitId False 0 f) of Some ct \<Rightarrow> ft_ctrlId ct | None \<Rightarrow> ctrlId
                  else ctrlId)
      in case faulter of None \<Rightarrow> None | Some fa \<Rightarrow> Some (Report circuitId ctrl fa))"

fun join_ids :: "string list \<Rightarrow> string" where
  "join_ids [] = ''''"
| "join_ids [x] = x"
| "join_ids (x # xs) = x @ '' '' @ join_ids xs"

definition workload_step :: "string \<times> string \<Rightarrow> string list cmap \<Rightarrow> string list cmap" where
  "workload_step e w =
     (case e of (circuitId, ctrlId) \<Rightarrow>
        AList.update ctrlId ((case map_of w ctrlId of Some ids \<Rightarrow> ids | None \<Rightarrow> []) @ [circuitId]) w)"

definition workloadByCtrl :: "faulter \<Rightarrow> string list cmap" where
  "workloadByCtrl fa = fold workload_step (fa_circuitIds fa) []"

text \<open>Reporting the workload of one controller: the faults sent, with the controller each one goes to.\<close>

definition send_workload :: "string list \<Rightarrow> string \<times> string list \<Rightarrow> (string \<times> fault) list" where
  "send_workload ctrls e =
     (case e of (ctrlId, workload) \<Rightarrow>
        if ctrlId \<noteq> ''''
        then if ctrlId \<in> set ctrls then [(ctrlId, \<lparr>fault_Subject = ForwardFault, fault_Id = join_ids workload\<rparr>)] else []
        else map (\<lambda>c. (c, \<lparr>fault_Subject = UnknownOwnerForwardFault, fault_Id = join_ids workload\<rparr>)) ctrls)"

definition report_step ::
  "string list \<Rightarrow> string \<times> string list \<Rightarrow> faulter \<times> (string \<times> fault) list \<Rightarrow> faulter \<times> (string \<times> fault) list" where
  "report_step ctrls e st =
     (case st of (fa, sent) \<Rightarrow>
        (fa\<lparr>fa_circuitIds := fold AList.delete (snd e) (fa_circuitIds fa)\<rparr>, sent @ send_workload ctrls e))"

definition faulter_tick ::
  "(string \<times> string list \<Rightarrow> nat) \<Rightarrow> string list \<Rightarrow> faulter \<Rightarrow> faulter \<times> (string \<times> fault) list" where
  "faulter_tick rank ctrls fa =
     fold (report_step ctrls) (range_order rank (workloadByCtrl fa)) (fa, [])"

section \<open>Idle circuits\<close>

record circuit_confirmation =
  cc_CircuitIds :: "string list"
  cc_IdleTimes :: "(string \<times> int) list"

definition idle_time :: "int \<Rightarrow> forward_table \<Rightarrow> int" where
  "idle_time now ft = wrap64 (wrap64 (now - ft_last ft) * 1000000)"

definition idle_step :: "int \<Rightarrow> int \<Rightarrow> string \<times> forward_table \<Rightarrow> int cmap cmap \<Rightarrow> int cmap cmap" where
  "idle_step now timeout e idle =
     (case e of (circuitId, ft) \<Rightarrow>
        if idle_time now ft > timeout
        then AList.update (ft_ctrlId ft)
               (AList.update circuitId (idle_time now ft)
                  (case map_of idle (ft_ctrlId ft) of Some m \<Rightarrow> m | None \<Rightarrow> [])) idle
        else idle)"

definition idleCircuits :: "int \<Rightarrow> int \<Rightarrow> forwarder \<Rightarrow> int cmap cmap" where
  "idleCircuits now timeout f = fold (idle_step now timeout) (f_circuits f) []"

text \<open>The confirmation requests of a scan, with the controller each one goes to.\<close>

definition scan ::
  "(string \<times> int cmap \<Rightarrow> nat) \<Rightarrow> string list \<Rightarrow> int \<Rightarrow> int \<Rightarrow> forwarder \<Rightarrow> (string \<times> circuit_confirmation) list" where
  "scan rank ctrls now timeout f =
     map (\<lambda>(ctrlId, m). (ctrlId, \<lparr>cc_CircuitIds = map fst m, cc_IdleTimes = m\<rparr>))
       (filter (\<lambda>(ctrlId, m). m \<noteq> [] \<and> ctrlId \<in> set ctrls) (range_order rank (idleCircuits now timeout f)))"

section \<open>Routing\<close>

abbreviation route_pairs :: "forward list \<Rightarrow> (string \<times> string) list" where
  "route_pairs xs \<equiv> map (\<lambda>x. (SrcAddress x, DstAddress x)) xs"

text \<open>A forward whose destination must exist when the route is installed.\<close>

definition missing :: "forwarder \<Rightarrow> forward \<Rightarrow> bool" where
  "missing f x \<longleftrightarrow> \<not> HasDestination f (DstAddress x) \<and> DstType x \<noteq> DestStart"

definition missing_error :: "forward \<Rightarrow> route_error" where
  "missing_error x = (if DstType x = DestLink then InvalidLinkDestination (DstAddress x)
                      else InvalidEgressDestination (DstAddress x))"

lemma route_forwards_step:
  "route_forwards f (x # xs) ft =
     (if missing f x then (ft, Some (missing_error x))
      else route_forwards f xs (setForwardAddress (SrcAddress x) (DstAddress x) ft))"
  by (cases "DstType x") (auto simp: missing_def missing_error_def)

lemma route_forwards_addresses:
  "map_of (ft_destinations (fst (route_forwards f xs ft))) =
     map_of (ft_destinations ft) ++ map_of (rev (route_pairs (takeWhile (\<lambda>x. \<not> missing f x) xs)))"
proof (induction xs arbitrary: ft)
  case (Cons x xs)
  then show ?case
    by (auto simp: route_forwards_step setForwardAddress_def update_conv' map_add_def fun_eq_iff split: option.splits
        simp del: route_forwards.simps(2))
qed simp

lemma route_forwards_fields:
  "ft_ctrlId (fst (route_forwards f xs ft)) = ft_ctrlId ft \<and> ft_last (fst (route_forwards f xs ft)) = ft_last ft"
  by (induction xs arbitrary: ft)
    (auto simp: route_forwards_step setForwardAddress_def simp del: route_forwards.simps(2))

lemma route_forwards_error:
  "snd (route_forwards f xs ft) = map_option missing_error (List.find (missing f) xs)"
  by (induction xs arbitrary: ft) (auto simp: route_forwards_step simp del: route_forwards.simps(2))

lemma find_None_takeWhile: "List.find P xs = None \<Longrightarrow> takeWhile (\<lambda>x. \<not> P x) xs = xs"
  by (simp add: find_None_iff)

lemma HasDestination_circuits [simp]: "HasDestination (f\<lparr>f_circuits := c\<rparr>) a = HasDestination f a"
  by (simp add: HasDestination_def getDestination_def)

lemma missing_circuits [simp]: "missing (f\<lparr>f_circuits := c\<rparr>) x = missing f x"
  by (simp add: missing_def)

lemma getForwardTable_fst:
  "fst (getForwardTable c b now f) = f\<lparr>f_circuits := f_circuits (fst (getForwardTable c b now f))\<rparr>"
  by (simp add: getForwardTable_def Let_def split: option.split)

lemma getForwardTable_lookup:
  "map_of (f_circuits (fst (getForwardTable c b now f))) k =
     (if k = c \<and> b then map_option (\<lambda>ft. ft\<lparr>ft_last := now\<rparr>) (map_of (f_circuits f) c) else map_of (f_circuits f) k)"
  "snd (getForwardTable c b now f) =
     (if b then map_option (\<lambda>ft. ft\<lparr>ft_last := now\<rparr>) (map_of (f_circuits f) c) else map_of (f_circuits f) c)"
  by (auto simp: getForwardTable_def Let_def update_conv' split: option.split)

text \<open>What a route message does to the tables, on success and on every error.\<close>

definition route_effect :: "string \<Rightarrow> int \<Rightarrow> route \<Rightarrow> forwarder \<Rightarrow> forwarder \<Rightarrow> bool" where
  "route_effect ctrlId now rt f f' \<longleftrightarrow>
     f_destinations f' = f_destinations f \<and> f_xgress f' = f_xgress f \<and>
     (\<forall>c. c \<noteq> CircuitId rt \<longrightarrow> map_of (f_circuits f') c = map_of (f_circuits f) c) \<and>
     (let done = takeWhile (\<lambda>x. \<not> missing f x) (Forwards rt);
          old = map_of (f_circuits f) (CircuitId rt)
      in if old = None \<and> done \<noteq> Forwards rt then map_of (f_circuits f') (CircuitId rt) = None
         else \<exists>ft. map_of (f_circuits f') (CircuitId rt) = Some ft \<and> ft_last ft = now \<and>
           ft_ctrlId ft = (case old of None \<Rightarrow> ctrlId | Some o' \<Rightarrow> ft_ctrlId o') \<and>
           map_of (ft_destinations ft) =
             (case old of None \<Rightarrow> Map.empty | Some o' \<Rightarrow> map_of (ft_destinations o')) ++ map_of (rev (route_pairs done)))"

lemma takeWhile_find: "takeWhile (\<lambda>x. \<not> P x) xs = xs \<longleftrightarrow> List.find P xs = None"
  by (auto simp: find_None_iff)

lemma Route_spec:
  assumes "Route ctrlId now rt f = (f', err, notified)"
  shows "err = map_option missing_error (List.find (missing f) (Forwards rt)) \<and>
    notified = (case err of Some (InvalidLinkDestination l) \<Rightarrow> [l] | _ \<Rightarrow> []) \<and> route_effect ctrlId now rt f f'"
proof -
  let ?c = "CircuitId rt"
  obtain f1 found where g: "getForwardTable ?c True now f = (f1, found)" by (rule prod.exhaust)
  let ?ft = "case found of Some ft \<Rightarrow> ft | None \<Rightarrow> newForwardTable ctrlId"
  obtain ft' e where r: "route_forwards f1 (Forwards rt) ?ft = (ft', e)" by (rule prod.exhaust)
  have f1: "f1 = f\<lparr>f_circuits := f_circuits f1\<rparr>" using getForwardTable_fst [of ?c True now f] g by simp
  have look: "map_of (f_circuits f1) k = (if k = ?c then found else map_of (f_circuits f) k)"
    "found = map_option (\<lambda>ft. ft\<lparr>ft_last := now\<rparr>) (map_of (f_circuits f) ?c)" for k
    using getForwardTable_lookup [of ?c True now f] g by simp_all
  have mis: "missing f1 = missing f" by (subst f1) (simp add: fun_eq_iff)
  have ft': "map_of (ft_destinations ft') = map_of (ft_destinations ?ft) ++
      map_of (rev (route_pairs (takeWhile (\<lambda>x. \<not> missing f x) (Forwards rt))))"
    "ft_ctrlId ft' = ft_ctrlId ?ft" "ft_last ft' = ft_last ?ft"
    "e = map_option missing_error (List.find (missing f) (Forwards rt))"
    using route_forwards_addresses [of f1 "Forwards rt" ?ft] route_forwards_fields [of f1 "Forwards rt" ?ft]
      route_forwards_error [of f1 "Forwards rt" ?ft] r mis by simp_all
  have dests: "f_destinations f1 = f_destinations f" "f_xgress f1 = f_xgress f" by (subst f1, simp)+
  have res: "err = e" "notified = (case e of Some (InvalidLinkDestination l) \<Rightarrow> [l] | _ \<Rightarrow> [])"
    "f' = (case e of None \<Rightarrow> setForwardTable ?c ft' now f1
       | Some _ \<Rightarrow> (case found of None \<Rightarrow> f1 | Some _ \<Rightarrow> f1\<lparr>f_circuits := AList.update ?c ft' (f_circuits f1)\<rparr>))"
    using assms g r by (auto simp: Route_def Let_def split: option.splits route_error.splits)
  have "route_effect ctrlId now rt f f'"
    unfolding route_effect_def Let_def takeWhile_find
    using res(3) ft' look dests
    by (cases "map_of (f_circuits f) ?c"; cases "List.find (missing f) (Forwards rt)")
      (auto simp: setForwardTable_def update_conv' newForwardTable_def)
  then show ?thesis using res(1,2) ft'(4) by simp
qed

lemma Route_accepted:
  assumes R: "Route ctrlId now rt f = (f', err, notified)" and ok: "List.find (missing f) (Forwards rt) = None"
  shows "\<exists>ft. map_of (f_circuits f') (CircuitId rt) = Some ft \<and> ft_last ft = now \<and>
      (\<forall>src. getForwardAddress ft src = (case map_of (rev (route_pairs (Forwards rt))) src of
         Some dst \<Rightarrow> Some dst
       | None \<Rightarrow> Option.bind (map_of (f_circuits f) (CircuitId rt)) (\<lambda>old. getForwardAddress old src)))"
proof -
  have "route_effect ctrlId now rt f f'" using Route_spec [OF R] by blast
  then obtain ft where ft: "map_of (f_circuits f') (CircuitId rt) = Some ft" "ft_last ft = now"
    "map_of (ft_destinations ft) = (case map_of (f_circuits f) (CircuitId rt) of None \<Rightarrow> Map.empty
       | Some o' \<Rightarrow> map_of (ft_destinations o')) ++ map_of (rev (route_pairs (Forwards rt)))"
    unfolding route_effect_def Let_def find_None_takeWhile [OF ok] by auto
  then show ?thesis by (auto simp: getForwardAddress_def map_add_def split: option.splits)
qed

section \<open>Removing circuits\<close>

definition circuit_addresses :: "forwarder \<Rightarrow> string \<Rightarrow> string set" where
  "circuit_addresses f c = (case getAddressesForCircuit f c of None \<Rightarrow> {} | Some as \<Rightarrow> set as)"

text \<open>No address that belongs to a circuit leads to a link. \<open>A\<close> are the addresses of xgress destinations.\<close>

definition fwd_inv :: "string set \<Rightarrow> forwarder \<Rightarrow> bool" where
  "fwd_inv A f \<longleftrightarrow> (\<forall>c. circuit_addresses f c \<subseteq> A) \<and> (\<forall>a \<in> A. \<forall>l. getDestination f a \<noteq> Some (LinkDest l))"

lemma getDestination_remove:
  "getDestination (removeDestination b f) a = (if a = b then None else getDestination f a)"
  by (simp add: getDestination_def removeDestination_def delete_conv')

lemma unregister_addresses_ok:
  assumes "\<forall>a \<in> set as. \<forall>l. getDestination f a \<noteq> Some (LinkDest l)"
  shows "\<exists>f' u. unregister_addresses as f = Some (f', u) \<and> f_circuits f' = f_circuits f \<and> f_xgress f' = f_xgress f \<and>
    (\<forall>a. getDestination f' a = (if a \<in> set as then None else getDestination f a)) \<and>
    set u = {x. \<exists>a \<in> set as. getDestination f a = Some (XgressDest x)}"
  using assms
proof (induction as arbitrary: f)
  case (Cons a as)
  show ?case
  proof (cases "getDestination f a")
    case None
    then show ?thesis using Cons.IH [of f] Cons.prems by force
  next
    case (Some d)
    then obtain x where d: "d = XgressDest x" using Cons.prems by (cases d) auto
    have pre: "\<forall>b \<in> set as. \<forall>l. getDestination (removeDestination a f) b \<noteq> Some (LinkDest l)"
      using Cons.prems by (simp add: getDestination_remove)
    obtain f' u where I: "unregister_addresses as (removeDestination a f) = Some (f', u)"
      "f_circuits f' = f_circuits f" "f_xgress f' = f_xgress f"
      "\<And>b. getDestination f' b = (if b \<in> set as then None else getDestination (removeDestination a f) b)"
      "set u = {x. \<exists>b \<in> set as. getDestination (removeDestination a f) b = Some (XgressDest x)}"
      using Cons.IH [OF pre] by (auto simp: removeDestination_def)
    have "unregister_addresses (a # as) f = Some (f', x # u)" using Some d I(1) by simp
    moreover have "set (x # u) = {y. \<exists>b \<in> set (a # as). getDestination f b = Some (XgressDest y)}"
      using I(5) Some d by (auto simp: getDestination_remove) (metis destination.inject(1) option.inject)
    moreover have "getDestination f' b = (if b \<in> set (a # as) then None else getDestination f b)" for b
      using I(4) by (simp add: getDestination_remove)
    ultimately show ?thesis using I(2,3) by blast
  qed
qed auto

text \<open>What ending a circuit does.\<close>

definition ended :: "string \<Rightarrow> forwarder \<Rightarrow> forwarder \<times> nat list \<Rightarrow> bool" where
  "ended c f r \<longleftrightarrow>
     map_of (f_circuits (fst r)) = (map_of (f_circuits f))(c := None) \<and>
     map_of (f_xgress (fst r)) = (map_of (f_xgress f))(c := None) \<and>
     (\<forall>a. getDestination (fst r) a = (if a \<in> circuit_addresses f c then None else getDestination f a)) \<and>
     set (snd r) = {x. \<exists>a \<in> circuit_addresses f c. getDestination f a = Some (XgressDest x)}"

lemma EndCircuit_ended:
  assumes "fwd_inv A f"
  shows "\<exists>r. EndCircuit c (removeForwardTable c f) = Some r \<and> ended c f r"
proof -
  let ?f = "removeForwardTable c f"
  have f: "getDestination ?f = getDestination f" "getAddressesForCircuit ?f c = getAddressesForCircuit f c"
    "f_xgress ?f = f_xgress f" "map_of (f_circuits ?f) = (map_of (f_circuits f))(c := None)"
    by (simp_all add: removeForwardTable_def getDestination_def getAddressesForCircuit_def fun_eq_iff delete_conv')
  show ?thesis
  proof (cases "getAddressesForCircuit f c")
    case None
    then have "map_of (f_xgress f) c = None" by (simp add: getAddressesForCircuit_def)
    then have "ended c f (?f, [])"
      using None f by (auto simp: ended_def circuit_addresses_def fun_eq_iff)
    then show ?thesis using None f(2) by (auto simp: EndCircuit_def UnregisterDestinations_def)
  next
    case (Some as)
    have as: "circuit_addresses f c = set as" using Some by (simp add: circuit_addresses_def)
    have "set as \<subseteq> A" using assms unfolding fwd_inv_def as [symmetric] by blast
    then have "\<forall>a \<in> set as. \<forall>l. getDestination ?f a \<noteq> Some (LinkDest l)"
      using assms unfolding f(1) fwd_inv_def by blast
    then obtain f' u where u: "unregister_addresses as ?f = Some (f', u)" "f_circuits f' = f_circuits ?f"
      "f_xgress f' = f_xgress ?f" "\<And>a. getDestination f' a = (if a \<in> set as then None else getDestination ?f a)"
      "set u = {x. \<exists>a \<in> set as. getDestination ?f a = Some (XgressDest x)}"
      using unregister_addresses_ok by blast
    have "ended c f (unlinkCircuit c f', u)"
      using u f as by (simp add: ended_def unlinkCircuit_def delete_conv' getDestination_def)
    then show ?thesis using Some f(2) u(1) by (auto simp: EndCircuit_def UnregisterDestinations_def)
  qed
qed

lemma ended_inv:
  assumes "fwd_inv A f" and "ended c f r"
  shows "fwd_inv A (fst r)"
proof -
  have "circuit_addresses (fst r) k \<subseteq> circuit_addresses f k" for k
    using assms(2) by (auto simp: ended_def circuit_addresses_def getAddressesForCircuit_def)
  moreover have "getDestination (fst r) a \<noteq> Some (LinkDest l)" if "a \<in> A" for a l
    using assms that unfolding fwd_inv_def ended_def by simp
  ultimately show ?thesis using assms(1) unfolding fwd_inv_def by blast
qed

section \<open>Runs of a forwarder\<close>

datatype fwd_op =
  FwdRegister string string nat
| FwdRegisterLink string nat
| FwdUnregisterLink string nat
| FwdRoute string int route
| FwdUnroute string bool
| FwdUnrouteTick string int int "destination \<Rightarrow> int"
| FwdPayload "destination \<Rightarrow> bool" string string bool int int

definition fwd_step :: "fwd_op \<Rightarrow> forwarder \<Rightarrow> forwarder option" where
  "fwd_step op f =
     (case op of
        FwdRegister c a x \<Rightarrow> Some (RegisterDestination c a (XgressDest x) f)
      | FwdRegisterLink i l \<Rightarrow> Some (RegisterLink i l f)
      | FwdUnregisterLink i l \<Rightarrow> Some (UnregisterLink i l f)
      | FwdRoute ctrl now rt \<Rightarrow> Some (fst (Route ctrl now rt f))
      | FwdUnroute c now \<Rightarrow> map_option fst (Unroute c now f)
      | FwdUnrouteTick c i now rx \<Rightarrow> map_option fst (unrouteTimeout_tick c i now rx f)
      | FwdPayload fails src c mark timeout now \<Rightarrow> Some (fst (forwardPayload fails src c mark timeout now f)))"

fun fwd_run :: "fwd_op list \<Rightarrow> forwarder \<Rightarrow> forwarder option" where
  "fwd_run [] f = Some f"
| "fwd_run (op # ops) f = (case fwd_step op f of None \<Rightarrow> None | Some f' \<Rightarrow> fwd_run ops f')"

definition empty_forwarder :: forwarder where
  "empty_forwarder = \<lparr>f_circuits = [], f_destinations = [], f_xgress = []\<rparr>"

text \<open>The ids of links are not addresses of xgress destinations.\<close>

definition op_ids :: "string set \<Rightarrow> fwd_op \<Rightarrow> bool" where
  "op_ids A op = (case op of FwdRegister c a x \<Rightarrow> a \<in> A | FwdRegisterLink i l \<Rightarrow> i \<notin> A | _ \<Rightarrow> True)"

lemma same_tables_inv:
  assumes "fwd_inv A f" and "f_destinations f' = f_destinations f" and "f_xgress f' = f_xgress f"
  shows "fwd_inv A f'"
  using assms by (simp add: fwd_inv_def circuit_addresses_def getAddressesForCircuit_def getDestination_def)

lemma getForwardTable_tables:
  "f_destinations (fst (getForwardTable c b now f)) = f_destinations f"
  "f_xgress (fst (getForwardTable c b now f)) = f_xgress f"
  by (simp_all add: getForwardTable_def Let_def split: option.split)

lemma forwardPayload_fst:
  "fst (forwardPayload fails src c mark timeout now f) = fst (getForwardTable c mark now f)"
  by (simp add: forwardPayload_def Let_def split: option.split prod.split)

lemma RegisterDestination_tables:
  "circuit_addresses (RegisterDestination c a d f) k =
     (if k = c then insert a (circuit_addresses f c) else circuit_addresses f k)"
  "getDestination (RegisterDestination c a d f) b = (if b = a then Some d else getDestination f b)"
  by (cases "map_of (f_xgress f) c";
      simp add: RegisterDestination_def linkDestinationToCircuit_def addDestination_def Let_def
        circuit_addresses_def getAddressesForCircuit_def getDestination_def update_conv')+

lemma RegisterDestination_inv:
  assumes "fwd_inv A f" and "a \<in> A"
  shows "fwd_inv A (RegisterDestination c a (XgressDest x) f)"
  using assms by (simp add: fwd_inv_def RegisterDestination_tables)

lemma RegisterLink_inv:
  assumes "fwd_inv A f" and "i \<notin> A"
  shows "fwd_inv A (RegisterLink i l f)"
  using assms
  by (auto simp: fwd_inv_def RegisterLink_def addDestination_def circuit_addresses_def getAddressesForCircuit_def
      getDestination_def update_conv')

lemma UnregisterLink_inv:
  assumes "fwd_inv A f"
  shows "fwd_inv A (UnregisterLink i l f)"
  using assms
  by (auto simp: fwd_inv_def UnregisterLink_def removeDestinationIfMatches_def cmap_remove_cb_def Let_def
      circuit_addresses_def getAddressesForCircuit_def getDestination_def delete_conv')

lemma first_destination_addresses:
  "first_destination f as = Some d \<Longrightarrow> \<exists>a \<in> set as. getDestination f a = Some d"
  by (induction as) (auto split: option.splits)

lemma getXgressForCircuit_xgress:
  assumes "fwd_inv A f"
  shows "getXgressForCircuit c f \<noteq> Some (LinkDest l)"
  using assms first_destination_addresses [of f _ "LinkDest l"]
  by (fastforce simp: getXgressForCircuit_def fwd_inv_def circuit_addresses_def split: option.splits)

lemma fwd_step_inv:
  assumes inv: "fwd_inv A f" and op: "op_ids A op"
  shows "\<exists>f'. fwd_step op f = Some f' \<and> fwd_inv A f'"
proof -
  have fin: "\<exists>r. EndCircuit c (removeForwardTable c f) = Some r \<and> fwd_inv A (fst r)" for c
    using EndCircuit_ended [OF inv, of c] ended_inv [OF inv] by blast
  show ?thesis
  proof (cases op)
    case (FwdRoute ctrl now rt)
    obtain f' err notified where R: "Route ctrl now rt f = (f', err, notified)" by (metis prod_cases3)
    have "fwd_inv A f'"
      using Route_spec [OF R] inv by (intro same_tables_inv [OF inv]) (simp_all add: route_effect_def)
    then show ?thesis using FwdRoute R by (simp add: fwd_step_def)
  next
    case (FwdUnroute c now)
    then show ?thesis using fin [of c] inv by (auto simp: fwd_step_def Unroute_def)
  next
    case (FwdUnrouteTick c i now rx)
    obtain r where "EndCircuit c (removeForwardTable c f) = Some r" "fwd_inv A (fst r)" using fin by blast
    then show ?thesis using FwdUnrouteTick inv getXgressForCircuit_xgress [OF inv, of c]
      by (cases "getXgressForCircuit c f") (auto simp: fwd_step_def unrouteTimeout_tick_def Let_def split: destination.split prod.split)
  next
    case (FwdPayload fails src c mark timeout now)
    then show ?thesis using same_tables_inv [OF inv getForwardTable_tables]
      by (simp add: fwd_step_def forwardPayload_fst)
  qed (use op inv in \<open>auto simp: fwd_step_def op_ids_def RegisterDestination_inv RegisterLink_inv UnregisterLink_inv\<close>)
qed

lemma fwd_run_inv:
  assumes "fwd_inv A f" and "\<forall>op \<in> set ops. op_ids A op"
  shows "\<exists>f'. fwd_run ops f = Some f' \<and> fwd_inv A f'"
  using assms
proof (induction ops arbitrary: f)
  case (Cons op ops)
  obtain f1 where "fwd_step op f = Some f1" "fwd_inv A f1" using fwd_step_inv [OF Cons.prems(1)] Cons.prems(2) by auto
  then show ?case using Cons.IH [of f1] Cons.prems(2) by simp
qed simp

lemma empty_forwarder_inv: "fwd_inv A empty_forwarder"
  by (simp add: fwd_inv_def empty_forwarder_def circuit_addresses_def getAddressesForCircuit_def getDestination_def)

section \<open>Fault reports\<close>

text \<open>The circuits whose faults wait to be reported to a controller, in the order of the map.\<close>

definition pending_faults :: "faulter \<Rightarrow> string \<Rightarrow> string list" where
  "pending_faults fa ctrl = map fst (filter (\<lambda>e. snd e = ctrl) (fa_circuitIds fa))"

lemma workload_fold:
  assumes "\<forall>k. map_of w k \<noteq> Some []"
  shows "map_of (fold workload_step es w) k =
    (let ids = (case map_of w k of Some ids \<Rightarrow> ids | None \<Rightarrow> []) @ map fst (filter (\<lambda>e. snd e = k) es)
     in if ids = [] then None else Some ids)"
  using assms
proof (induction es arbitrary: w)
  case Nil
  then show ?case by (cases "map_of w k") auto
next
  case (Cons e es)
  obtain c ctrl where e: "e = (c, ctrl)" by (rule prod.exhaust)
  have w: "map_of (workload_step (c, ctrl) w) j = (if j = ctrl
      then Some ((case map_of w ctrl of Some ids \<Rightarrow> ids | None \<Rightarrow> []) @ [c]) else map_of w j)" for j
    by (simp add: workload_step_def update_conv')
  have "\<forall>j. map_of (workload_step (c, ctrl) w) j \<noteq> Some []" using Cons.prems by (simp add: w)
  from Cons.IH [OF this] show ?case by (simp add: w e Let_def)
qed

lemma workload_distinct: "distinct (map fst w) \<Longrightarrow> distinct (map fst (fold workload_step es w))"
  by (induction es arbitrary: w) (auto simp: workload_step_def distinct_update split: prod.split)

lemma set_workloadByCtrl:
  "set (workloadByCtrl fa) = {(k, pending_faults fa k) | k. pending_faults fa k \<noteq> []}"
proof -
  have "map_of (workloadByCtrl fa) k = (if pending_faults fa k = [] then None else Some (pending_faults fa k))" for k
    using workload_fold [of "[]" "fa_circuitIds fa" k] by (simp add: workloadByCtrl_def pending_faults_def Let_def)
  moreover have "distinct (map fst (workloadByCtrl fa))" by (simp add: workloadByCtrl_def workload_distinct)
  then have "(k, ids) \<in> set (workloadByCtrl fa) \<longleftrightarrow> map_of (workloadByCtrl fa) k = Some ids" for k ids by simp
  ultimately show ?thesis by (auto split: if_splits)
qed

lemma report_fold:
  "snd (fold (report_step ctrls) es (fa, sent)) = sent @ concat (map (send_workload ctrls) es) \<and>
   fa_circuitIds (fst (fold (report_step ctrls) es (fa, sent))) =
     fold (fold AList.delete) (map snd es) (fa_circuitIds fa) \<and>
   fa_interval (fst (fold (report_step ctrls) es (fa, sent))) = fa_interval fa"
  by (induction es arbitrary: fa sent) (simp_all add: report_step_def)

lemma fold_delete: "map_of (fold AList.delete ids m) c = (if c \<in> set ids then None else map_of m c)"
  by (induction ids arbitrary: m) (auto simp: delete_conv')

lemma fold_fold_delete:
  "map_of (fold (fold AList.delete) idss m) c = (if \<exists>ids \<in> set idss. c \<in> set ids then None else map_of m c)"
  by (induction idss arbitrary: m) (auto simp: fold_delete)

lemma faulter_tick_spec:
  assumes "faulter_tick rank ctrls fa = (fa', sent)"
  shows "map_of (fa_circuitIds fa') = Map.empty \<and>
    set sent = {(k, \<lparr>fault_Subject = (if owner = '''' then UnknownOwnerForwardFault else ForwardFault),
                     fault_Id = join_ids (pending_faults fa owner)\<rparr>) | k owner.
                  k \<in> set ctrls \<and> (owner = '''' \<or> owner = k) \<and> pending_faults fa owner \<noteq> []}"
proof -
  let ?W = "range_order rank (workloadByCtrl fa)"
  have r: "sent = concat (map (send_workload ctrls) ?W)"
    "fa_circuitIds fa' = fold (fold AList.delete) (map snd ?W) (fa_circuitIds fa)"
    using assms report_fold [of ctrls ?W fa "[]"] by (simp_all add: faulter_tick_def)
  have "map_of (fa_circuitIds fa') c = None" for c
  proof (cases "map_of (fa_circuitIds fa) c")
    case (Some k)
    then have c: "c \<in> set (pending_faults fa k)"
      using map_of_SomeD [OF Some] by (force simp: pending_faults_def)
    then have "(k, pending_faults fa k) \<in> set (workloadByCtrl fa)" unfolding set_workloadByCtrl by auto
    then show ?thesis using c by (auto simp: r(2) fold_fold_delete)
  qed (simp add: r(2) fold_fold_delete)
  moreover have "set sent = (\<Union>e \<in> set (workloadByCtrl fa). set (send_workload ctrls e))" by (simp add: r(1))
  ultimately show ?thesis
    unfolding set_workloadByCtrl by (auto simp: send_workload_def fun_eq_iff split: if_splits)
qed

section \<open>Idle scans\<close>

abbreviation idle_entry :: "int cmap cmap \<Rightarrow> string \<Rightarrow> string \<Rightarrow> int option" where
  "idle_entry idle k c \<equiv> Option.bind (map_of idle k) (\<lambda>m. map_of m c)"

lemma idle_step_entry:
  "idle_entry (idle_step now timeout (d, ft) idle) k c =
     (if idle_time now ft > timeout \<and> k = ft_ctrlId ft \<and> c = d then Some (idle_time now ft) else idle_entry idle k c)"
  by (auto simp: idle_step_def update_conv' split: option.splits)

lemma idle_fold_entry:
  assumes "distinct (map fst es)"
  shows "idle_entry (fold (idle_step now timeout) es idle) k c =
    (case map_of es c of
       Some ft \<Rightarrow> if idle_time now ft > timeout \<and> ft_ctrlId ft = k then Some (idle_time now ft) else idle_entry idle k c
     | None \<Rightarrow> idle_entry idle k c)"
  using assms
proof (induction es arbitrary: idle)
  case (Cons e es)
  obtain d ft where e: "e = (d, ft)" by (rule prod.exhaust)
  have "map_of es d = None" using Cons.prems e by (simp add: map_of_eq_None_iff)
  then show ?case
    using Cons.IH [of "idle_step now timeout e idle"] Cons.prems
    by (cases "c = d") (auto simp: e idle_step_entry split: option.split)
qed simp

lemma idle_distinct:
  assumes "distinct (map fst idle)" and "\<And>k m. map_of idle k = Some m \<Longrightarrow> distinct (map fst m)"
  shows "distinct (map fst (fold (idle_step now timeout) es idle)) \<and>
    (\<forall>k m. map_of (fold (idle_step now timeout) es idle) k = Some m \<longrightarrow> distinct (map fst m))"
  using assms
proof (induction es arbitrary: idle)
  case (Cons e es)
  obtain d ft where e: "e = (d, ft)" by (rule prod.exhaust)
  have 1: "distinct (map fst (idle_step now timeout e idle))"
    using Cons.prems(1) by (simp add: e idle_step_def distinct_update)
  have 2: "map_of (idle_step now timeout e idle) k = Some m \<Longrightarrow> distinct (map fst m)" for k m
    using Cons.prems(2) by (auto simp: e idle_step_def update_conv' distinct_update split: if_splits option.splits)
  from Cons.IH [OF 1 2] show ?case by simp
qed simp

lemma scan_spec:
  assumes "distinct (map fst (f_circuits f))" and "k \<in> set ctrls"
  shows "(\<exists>msg. (k, msg) \<in> set (scan rank ctrls now timeout f) \<and> c \<in> set (cc_CircuitIds msg) \<and>
            map_of (cc_IdleTimes msg) c = Some t) \<longleftrightarrow>
    (\<exists>ft. map_of (f_circuits f) c = Some ft \<and> ft_ctrlId ft = k \<and> t = idle_time now ft \<and> t > timeout)"
proof -
  let ?I = "idleCircuits now timeout f"
  have D: "distinct (map fst ?I)" "\<And>k m. map_of ?I k = Some m \<Longrightarrow> distinct (map fst m)"
    using idle_distinct [of "[]" now timeout "f_circuits f"] unfolding idleCircuits_def by auto
  have "(\<exists>msg. (k, msg) \<in> set (scan rank ctrls now timeout f) \<and> c \<in> set (cc_CircuitIds msg) \<and>
            map_of (cc_IdleTimes msg) c = Some t) \<longleftrightarrow> (\<exists>m. (k, m) \<in> set ?I \<and> map_of m c = Some t)"
    using assms(2) by (force simp: scan_def dest: map_of_SomeD)
  also have "\<dots> \<longleftrightarrow> idle_entry ?I k c = Some t"
    using D(1) by (auto simp: bind_eq_Some_conv)
  also have "\<dots> \<longleftrightarrow> (\<exists>ft. map_of (f_circuits f) c = Some ft \<and> ft_ctrlId ft = k \<and> t = idle_time now ft \<and> t > timeout)"
    using idle_fold_entry [OF assms(1), of now timeout "[]" k c] unfolding idleCircuits_def by (auto split: option.splits if_splits)
  finally show ?thesis .
qed

section \<open>Properties\<close>

text \<open>
  C20. A route message is installed completely or refused. It is refused exactly when one of its forwards
  needs a destination that does not exist, and a missing link is then reported as invalid. When it is
  accepted, the forwarding table of the circuit maps every source address of the message to the last
  destination the message gives for it, keeps its other entries, and is marked as active; a circuit that
  was not known gets no table from a refused message. Other circuits, the destinations and the ends of
  circuits are not touched.
\<close>

theorem Route_installs:
  assumes "Route ctrlId now rt f = (f', err, notified)"
  shows "(err = None \<longleftrightarrow> (\<forall>x \<in> set (Forwards rt). DstType x \<noteq> DestStart \<longrightarrow> HasDestination f (DstAddress x))) \<and>
    (\<forall>l. l \<in> set notified \<longleftrightarrow> err = Some (InvalidLinkDestination l)) \<and>
    (err = None \<longrightarrow> (\<exists>ft. map_of (f_circuits f') (CircuitId rt) = Some ft \<and> ft_last ft = now \<and>
       (\<forall>src. getForwardAddress ft src = (case map_of (rev (route_pairs (Forwards rt))) src of
          Some dst \<Rightarrow> Some dst
        | None \<Rightarrow> Option.bind (map_of (f_circuits f) (CircuitId rt)) (\<lambda>old. getForwardAddress old src))))) \<and>
    (err \<noteq> None \<and> map_of (f_circuits f) (CircuitId rt) = None \<longrightarrow> map_of (f_circuits f') (CircuitId rt) = None) \<and>
    (\<forall>c. c \<noteq> CircuitId rt \<longrightarrow> map_of (f_circuits f') c = map_of (f_circuits f) c) \<and>
    f_destinations f' = f_destinations f \<and> f_xgress f' = f_xgress f"
proof -
  note S = Route_spec [OF assms]
  have ok: "err = None \<longleftrightarrow> List.find (missing f) (Forwards rt) = None" using S by simp
  have all: "List.find (missing f) (Forwards rt) = None \<longleftrightarrow>
      (\<forall>x \<in> set (Forwards rt). DstType x \<noteq> DestStart \<longrightarrow> HasDestination f (DstAddress x))"
    by (auto simp: find_None_iff missing_def)
  have "l \<in> set notified \<longleftrightarrow> err = Some (InvalidLinkDestination l)" for l
    using S [THEN conjunct2, THEN conjunct1] by (auto split: option.splits route_error.splits)
  moreover have "\<exists>ft. map_of (f_circuits f') (CircuitId rt) = Some ft \<and> ft_last ft = now \<and>
      (\<forall>src. getForwardAddress ft src = (case map_of (rev (route_pairs (Forwards rt))) src of
         Some dst \<Rightarrow> Some dst
       | None \<Rightarrow> Option.bind (map_of (f_circuits f) (CircuitId rt)) (\<lambda>old. getForwardAddress old src)))" if "err = None"
    by (rule Route_accepted [OF assms]) (use that ok in simp)
  moreover have "map_of (f_circuits f') (CircuitId rt) = None"
    if "err \<noteq> None" "map_of (f_circuits f) (CircuitId rt) = None"
  proof -
    have "takeWhile (\<lambda>x. \<not> missing f x) (Forwards rt) \<noteq> Forwards rt" using that(1) ok takeWhile_find by metis
    then show ?thesis using S that(2) unfolding route_effect_def Let_def by presburger
  qed
  ultimately show ?thesis using S ok all by (simp add: route_effect_def)
qed

text \<open>
  C21. Unrouting a circuit removes all of it and nothing else. In every state a forwarder reaches, as
  long as link ids are not used as addresses of xgress destinations, an immediate unroute does not
  panic; afterwards the circuit has no forwarding table and no addresses, exactly its own destinations
  are gone and were notified, and a payload of the circuit is refused.
\<close>

theorem Unroute_removes:
  assumes "\<forall>op \<in> set ops. op_ids A op" and "fwd_run ops empty_forwarder = Some f"
  shows "\<exists>f' unrouted. Unroute c True f = Some (f', unrouted) \<and>
    map_of (f_circuits f') = (map_of (f_circuits f))(c := None) \<and> getAddressesForCircuit f' c = None \<and>
    (\<forall>a. getDestination f' a = (if a \<in> circuit_addresses f c then None else getDestination f a)) \<and>
    set unrouted = {x. \<exists>a \<in> circuit_addresses f c. getDestination f a = Some (XgressDest x)} \<and>
    snd (forwardPayload fails src c mark timeout now f') = Inl NoForwardTable"
proof -
  have "fwd_inv A f" using fwd_run_inv [OF empty_forwarder_inv assms(1)] assms(2) by auto
  from EndCircuit_ended [OF this, of c] obtain f' u
    where r: "EndCircuit c (removeForwardTable c f) = Some (f', u)" and e: "ended c f (f', u)" by auto
  have "snd (forwardPayload fails src c mark timeout now f') = Inl NoForwardTable"
    using e by (simp add: forwardPayload_def getForwardTable_def ended_def)
  then show ?thesis using r e by (simp add: Unroute_def ended_def getAddressesForCircuit_def)
qed

text \<open>
  C22. A forwarder never panics: every sequence of registrations, link changes, routes, unroutes, timeout
  ticks and payloads runs to its end, provided link ids and addresses of xgress destinations differ.
\<close>

theorem forwarder_never_panics:
  assumes "\<forall>op \<in> set ops. op_ids A op"
  shows "fwd_run ops empty_forwarder \<noteq> None"
  using fwd_run_inv [OF empty_forwarder_inv assms] by auto

text \<open>
  C25. Forwarding a control message returns. The only assumption on the SDK is that the answer to a trace
  request is not itself a trace request; then the second call that answers an exhausted trace makes no
  further call. At most one message is sent.
\<close>

theorem ForwardControl_returns:
  assumes "\<And>c. \<not> co_isTrace ops (co_response ops c)"
  shows "\<exists>f' err sent. ForwardControl ops fails srcAddr c now f = Some (f', err, sent) \<and> length sent \<le> 1"
proof -
  have failed: "length (snd (snd (control_failed ops fails a d g e))) \<le> 1" for a d g e
    by (simp add: control_failed_def Let_def split: option.split)
  have plain: "\<exists>r. ForwardControl ops fails a d now g = Some r \<and> length (snd (snd r)) \<le> 1" if "\<not> co_isTrace ops d" for a d g
    using that failed by (subst ForwardControl.simps) (simp add: Let_def split: option.split del: split_paired_Ex)
  have "\<exists>r. ForwardControl ops fails srcAddr c now f = Some r \<and> length (snd (snd r)) \<le> 1"
    using plain [OF assms] failed
    by (subst ForwardControl.simps) (simp add: Let_def split: option.split del: split_paired_Ex)
  then show ?thesis by auto
qed

subsection \<open>Witnesses\<close>

definition sample_fwd_ops :: "fwd_op list" where
  "sample_fwd_ops =
     [FwdRegisterLink ''l1'' 7, FwdRegister ''c'' ''out'' 3,
      FwdRoute ''ctrl1'' 5 \<lparr>CircuitId = ''c'', Attempt = 0, Egress = None,
        Forwards = [fwd ''out'' ''l1'' DestLink, fwd ''l1'' ''out'' DestEnd], Timeout = 0, Tags = []\<rparr>]"

definition sample_forwarder :: forwarder where
  "sample_forwarder =
     \<lparr>f_circuits = [(''c'', \<lparr>ft_ctrlId = ''ctrl1'', ft_last = 5, ft_destinations = [(''out'', ''l1''), (''l1'', ''out'')]\<rparr>)],
      f_destinations = [(''l1'', LinkDest 7), (''out'', XgressDest 3)], f_xgress = [(''c'', [''out''])]\<rparr>"

lemma sample_fwd_run: "fwd_run sample_fwd_ops empty_forwarder = Some sample_forwarder"
  by code_simp

lemma sample_fwd_ids: "\<forall>op \<in> set sample_fwd_ops. op_ids {''out''} op"
  by (simp add: sample_fwd_ops_def op_ids_def)

theorem Route_installs_witness:
  "fst (snd (Route ''ctrl1'' 9 \<lparr>CircuitId = ''d'', Attempt = 0, Egress = None, Forwards = [fwd ''x'' ''l1'' DestLink],
     Timeout = 0, Tags = []\<rparr> sample_forwarder)) = None"
proof -
  let ?rt = "\<lparr>CircuitId = ''d'', Attempt = 0, Egress = None, Forwards = [fwd ''x'' ''l1'' DestLink], Timeout = 0, Tags = []\<rparr>"
  obtain f' e n where R: "Route ''ctrl1'' 9 ?rt sample_forwarder = (f', e, n)" by (metis prod_cases3)
  have "HasDestination sample_forwarder ''l1''"
    by (simp add: HasDestination_def getDestination_def sample_forwarder_def)
  then show ?thesis using Route_installs [OF R] R by (simp add: fwd_def)
qed

theorem Unroute_removes_witness:
  "\<exists>f' u. Unroute ''c'' True sample_forwarder = Some (f', u) \<and> getDestination f' ''out'' = None \<and> set u = {3}"
proof -
  have "circuit_addresses sample_forwarder ''c'' = {''out''}"
    "getDestination sample_forwarder ''out'' = Some (XgressDest 3)"
    by (simp_all add: circuit_addresses_def getAddressesForCircuit_def getDestination_def sample_forwarder_def)
  then show ?thesis using Unroute_removes [OF sample_fwd_ids sample_fwd_run, of "''c''"] by force
qed

theorem forwarder_never_panics_witness: "fwd_run sample_fwd_ops empty_forwarder \<noteq> None"
  by (rule forwarder_never_panics [OF sample_fwd_ids])

theorem ForwardControl_returns_witness:
  "ForwardControl \<lparr>co_circuit = (\<lambda>_. ''c''), co_isTrace = (\<lambda>c. c < (5::nat)), co_decrementHop = (\<lambda>c. (c, 0)),
     co_response = (\<lambda>_. 9), co_putError = (\<lambda>c. c)\<rparr> (\<lambda>_. False) ''out'' 1 9 sample_forwarder \<noteq> None"
  using ForwardControl_returns [of "\<lparr>co_circuit = (\<lambda>_. ''c''), co_isTrace = (\<lambda>c. c < (5::nat)), co_decrementHop = (\<lambda>c. (c, 0)),
     co_response = (\<lambda>_. 9), co_putError = (\<lambda>c. c)\<rparr>" "\<lambda>_. False" "''out''" 1 9 sample_forwarder]
  by auto

end
