(* ===== verification/Route_Handler.thy ===== *)
theory Route_Handler
  imports Forwarder "HOL-Library.Sublist"
begin

text \<open>
  The router's side of circuit creation: \<^verbatim>\<open>router/handler_ctrl/route.go\<close> and
  \<^verbatim>\<open>router/handler_ctrl/unroute.go\<close>, with the error codes of \<^verbatim>\<open>common/ctrl_msg/messages.go\<close>.

  Dialing a terminator is a parameter: a function that may change the forwarder, because a successful
  dial registers the egress xgress, and returns the peer data or the error of the dial. An error is the
  answers to the questions the code asks about it.
\<close>

section \<open>Error codes\<close>

definition ErrorTypeGeneric :: u8 where "ErrorTypeGeneric = 0"
definition ErrorTypeInvalidTerminator :: u8 where "ErrorTypeInvalidTerminator = 1"
definition ErrorTypeMisconfiguredTerminator :: u8 where "ErrorTypeMisconfiguredTerminator = 2"
definition ErrorTypeDialTimedOut :: u8 where "ErrorTypeDialTimedOut = 3"
definition ErrorTypeConnectionRefused :: u8 where "ErrorTypeConnectionRefused = 4"
definition ErrorTypeRejectedByApplication :: u8 where "ErrorTypeRejectedByApplication = 5"
definition ErrorTypeDnsResolutionFailed :: u8 where "ErrorTypeDnsResolutionFailed = 6"
definition ErrorTypePortNotAllowed :: u8 where "ErrorTypePortNotAllowed = 7"
definition ErrorTypeInvalidLinkDestination :: u8 where "ErrorTypeInvalidLinkDestination = 8"
definition ErrorTypeResourcesNotAvailable :: u8 where "ErrorTypeResourcesNotAvailable = 9"

lemmas error_type_defs = ErrorTypeGeneric_def ErrorTypeInvalidTerminator_def ErrorTypeMisconfiguredTerminator_def
  ErrorTypeDialTimedOut_def ErrorTypeConnectionRefused_def ErrorTypeRejectedByApplication_def
  ErrorTypeDnsResolutionFailed_def ErrorTypePortNotAllowed_def ErrorTypeInvalidLinkDestination_def
  ErrorTypeResourcesNotAvailable_def

section \<open>Dial errors\<close>

record dial_error =
  de_ECONNREFUSED :: bool
  de_EMFILE :: bool
  de_ENFILE :: bool
  de_ENOBUFS :: bool
  de_ETIMEDOUT :: bool
  de_DNSError :: bool
  de_NetTimeout :: bool
  de_MisconfiguredTerminator :: bool
  de_InvalidTerminator :: bool
  de_message :: string

definition strings_Contains :: "string \<Rightarrow> string \<Rightarrow> bool" where
  "strings_Contains s substr \<longleftrightarrow> list_ex (\<lambda>t. prefix substr t) (suffixes s)"

definition isResourcesNotAvailable :: "dial_error \<Rightarrow> bool" where
  "isResourcesNotAvailable err \<longleftrightarrow> de_EMFILE err \<or> de_ENFILE err \<or> de_ENOBUFS err"

definition isDnsError :: "dial_error \<Rightarrow> bool" where
  "isDnsError err \<longleftrightarrow> de_DNSError err \<or>
     strings_Contains (de_message err) ''no such host'' \<or> strings_Contains (de_message err) ''server misbehaving''"

definition isPortNotAllowedError :: "dial_error \<Rightarrow> bool" where
  "isPortNotAllowedError err \<longleftrightarrow> strings_Contains (de_message err) ''not in allowed port ranges''"

definition isRejectedByApplicationError :: "dial_error \<Rightarrow> bool" where
  "isRejectedByApplicationError err \<longleftrightarrow> strings_Contains (de_message err) ''rejected by application''"

definition isNetworkTimeout :: "dial_error \<Rightarrow> bool" where
  "isNetworkTimeout err \<longleftrightarrow> de_NetTimeout err \<or> de_ETIMEDOUT err"

definition classifyDialError :: "dial_error \<Rightarrow> u8" where
  "classifyDialError err =
     (if de_ECONNREFUSED err then ErrorTypeConnectionRefused
      else if isResourcesNotAvailable err then ErrorTypeResourcesNotAvailable
      else if isDnsError err then ErrorTypeDnsResolutionFailed
      else if isNetworkTimeout err then ErrorTypeDialTimedOut
      else if de_MisconfiguredTerminator err then ErrorTypeMisconfiguredTerminator
      else if de_InvalidTerminator err then ErrorTypeInvalidTerminator
      else if isPortNotAllowedError err then ErrorTypePortNotAllowed
      else if isRejectedByApplicationError err then ErrorTypeRejectedByApplication
      else ErrorTypeGeneric)"

section \<open>Route messages\<close>

datatype route_response =
  RouteResultSuccess string u32 peer_data
| RouteResultFailed string u32 u8

text \<open>What the xgress registry and a dialer do for a binding.\<close>

record egress_env =
  ee_hasFactory :: "string \<Rightarrow> bool"
  ee_canDial :: "string \<Rightarrow> bool"
  ee_dial :: "route \<Rightarrow> route_egress \<Rightarrow> forwarder \<Rightarrow> forwarder \<times> (dial_error + peer_data)"

definition completeRoute :: "string \<Rightarrow> int \<Rightarrow> route \<Rightarrow> peer_data \<Rightarrow> forwarder \<Rightarrow> forwarder \<times> route_response" where
  "completeRoute ctrlId now rt peerData f =
     (let (f', err, _) = Route ctrlId now rt f
      in case err of
           Some e \<Rightarrow>
             (f', RouteResultFailed (CircuitId rt) (Attempt rt)
                (case e of InvalidLinkDestination _ \<Rightarrow> ErrorTypeInvalidLinkDestination | _ \<Rightarrow> ErrorTypeGeneric))
         | None \<Rightarrow> (f', RouteResultSuccess (CircuitId rt) (Attempt rt) peerData))"

definition connectEgress ::
  "egress_env \<Rightarrow> string \<Rightarrow> int \<Rightarrow> route \<Rightarrow> route_egress \<Rightarrow> forwarder \<Rightarrow> forwarder \<times> route_response" where
  "connectEgress env ctrlId now rt e f =
     (if ee_hasFactory env (Binding e) then
        if ee_canDial env (Binding e) then
          let (f', r) = ee_dial env rt e f
          in case r of
               Inr peerData \<Rightarrow> completeRoute ctrlId now rt peerData f'
             | Inl err \<Rightarrow> (f', RouteResultFailed (CircuitId rt) (Attempt rt) (classifyDialError err))
        else (f, RouteResultFailed (CircuitId rt) (Attempt rt) ErrorTypeMisconfiguredTerminator)
      else (f, RouteResultFailed (CircuitId rt) (Attempt rt) ErrorTypeMisconfiguredTerminator))"

text \<open>The message is dropped without an answer when the queue of the worker pool is full.\<close>

definition route_HandleReceive ::
  "egress_env \<Rightarrow> bool \<Rightarrow> string \<Rightarrow> int \<Rightarrow> route \<Rightarrow> forwarder \<Rightarrow> forwarder \<times> route_response option" where
  "route_HandleReceive env queued ctrlId now rt f =
     (if \<not> queued then (f, None)
      else
        let (f', r) =
          (case Egress rt of
             Some e \<Rightarrow>
               if HasDestination f (Address e) then completeRoute ctrlId now rt [] f
               else connectEgress env ctrlId now rt e f
           | None \<Rightarrow> completeRoute ctrlId now rt [] f)
        in (f', Some r))"

definition unroute_HandleReceive :: "string \<Rightarrow> bool \<Rightarrow> forwarder \<Rightarrow> (forwarder \<times> nat list) option" where
  "unroute_HandleReceive circuitId now f = Unroute circuitId now f"

section \<open>Dialers\<close>

text \<open>
  Two of the dialers: \<^verbatim>\<open>router/xgress_transport/dialer.go\<close> and \<^verbatim>\<open>router/xgress_transport_udp/dialer.go\<close>,
  with the bind handler \<^verbatim>\<open>router/handler_xgress/bind.go\<close>. Parsing an address and connecting to it are
  parameters. The timeout of a dial is the connect timeout or the time that is left, if that is positive
  and less. A parse error is wrapped, so that it is recognised as a misconfigured terminator.
\<close>

definition TerminatorLocalAddressHeader :: u32 where "TerminatorLocalAddressHeader = 1110"
definition TerminatorRemoteAddressHeader :: u32 where "TerminatorRemoteAddressHeader = 1111"
definition InitiatorLocalAddressHeader :: u32 where "InitiatorLocalAddressHeader = 1112"
definition InitiatorRemoteAddressHeader :: u32 where "InitiatorRemoteAddressHeader = 1113"

record transport_env =
  te_parse :: "string \<Rightarrow> dial_error option"
  te_connect :: "string \<Rightarrow> string \<Rightarrow> int option \<Rightarrow> dial_error + string \<times> string"
  te_ConnectTimeout :: int
  te_timeToDeadline :: int

definition HandleXgressBind :: "string \<Rightarrow> string \<Rightarrow> nat \<Rightarrow> forwarder \<Rightarrow> forwarder" where
  "HandleXgressBind circuitId address x f = RegisterDestination circuitId address (XgressDest x) f"

definition transport_Dial ::
  "transport_env \<Rightarrow> nat \<Rightarrow> route \<Rightarrow> route_egress \<Rightarrow> forwarder \<Rightarrow> forwarder \<times> (dial_error + peer_data)" where
  "transport_Dial te x rt e f =
     (case te_parse te (Destination e) of
        Some err \<Rightarrow> (f, Inl (err\<lparr>de_MisconfiguredTerminator := True\<rparr>))
      | None \<Rightarrow>
          let timeout = (if te_timeToDeadline te > 0 \<and> te_timeToDeadline te < te_ConnectTimeout te
                         then te_timeToDeadline te else te_ConnectTimeout te)
          in case te_connect te (Destination e) (''x/'' @ CircuitId rt) (Some timeout) of
               Inl err \<Rightarrow> (f, Inl err)
             | Inr (localAddr, remoteAddr) \<Rightarrow>
                 (HandleXgressBind (CircuitId rt) (Address e) x f,
                  Inr [(TerminatorLocalAddressHeader, localAddr), (TerminatorRemoteAddressHeader, remoteAddr)]))"

text \<open>The UDP dialer returns no peer data, and without time left it connects without a timeout.\<close>

definition transport_udp_Dial ::
  "transport_env \<Rightarrow> nat \<Rightarrow> route \<Rightarrow> route_egress \<Rightarrow> forwarder \<Rightarrow> forwarder \<times> (dial_error + peer_data)" where
  "transport_udp_Dial te x rt e f =
     (case te_parse te (Destination e) of
        Some err \<Rightarrow> (f, Inl (err\<lparr>de_MisconfiguredTerminator := True\<rparr>))
      | None \<Rightarrow>
          (case te_connect te (Destination e) ''''
                  (if te_timeToDeadline te > 0 then Some (te_timeToDeadline te) else None) of
             Inl err \<Rightarrow> (f, Inl err)
           | Inr _ \<Rightarrow> (HandleXgressBind (CircuitId rt) (Address e) x f, Inr [])))"

section \<open>Handled route messages\<close>

text \<open>
  The forwarder after a route message that was answered with success: it has all destinations of the
  message, its table has the forwards, and an egress without a destination got an xgress.
\<close>

definition handled :: "route \<Rightarrow> forwarder \<Rightarrow> forwarder \<Rightarrow> bool" where
  "handled rt f f' \<longleftrightarrow>
     (\<forall>x \<in> set (Forwards rt). DstType x \<noteq> DestStart \<longrightarrow> HasDestination f' (DstAddress x)) \<and>
     (\<forall>e. Egress rt = Some e \<longrightarrow> HasDestination f' (Address e)) \<and>
     (\<forall>a. (\<forall>e. Egress rt = Some e \<longrightarrow> a \<noteq> Address e) \<longrightarrow> getDestination f' a = getDestination f a) \<and>
     (\<forall>e. Egress rt = Some e \<and> getDestination f (Address e) = None \<longrightarrow>
        (\<exists>x. getDestination f' (Address e) = Some (XgressDest x))) \<and>
     (\<exists>ft. map_of (f_circuits f') (CircuitId rt) = Some ft \<and>
        (\<forall>src. getForwardAddress ft src = (case map_of (rev (route_pairs (Forwards rt))) src of
           Some dst \<Rightarrow> Some dst
         | None \<Rightarrow> Option.bind (map_of (f_circuits f) (CircuitId rt)) (\<lambda>old. getForwardAddress old src))))"

lemma completeRoute_handled:
  assumes c: "completeRoute ctrlId now rt pd f1 = (f', RouteResultSuccess i k pd')" and circ: "f_circuits f1 = f_circuits f"
    and keep: "\<forall>a. (\<forall>e. Egress rt = Some e \<longrightarrow> a \<noteq> Address e) \<longrightarrow> getDestination f1 a = getDestination f a"
    and eg: "\<forall>e. Egress rt = Some e \<longrightarrow> HasDestination f1 (Address e)"
    and new: "\<forall>e. Egress rt = Some e \<and> getDestination f (Address e) = None \<longrightarrow> (\<exists>x. getDestination f1 (Address e) = Some (XgressDest x))"
  shows "handled rt f f' \<and> i = CircuitId rt \<and> k = Attempt rt \<and> pd' = pd"
proof -
  obtain f2 err l where R: "Route ctrlId now rt f1 = (f2, err, l)" by (rule prod_cases3)
  have eq: "f2 = f'" "err = None" "i = CircuitId rt \<and> k = Attempt rt \<and> pd' = pd"
    using c R by (auto simp: completeRoute_def split: option.splits)
  note S = Route_spec [OF R]
  have none: "List.find (missing f1) (Forwards rt) = None" using S eq(2) by simp
  have dest: "getDestination f' = getDestination f1"
    using S eq(1) by (auto simp: route_effect_def getDestination_def fun_eq_iff Let_def split: option.splits if_splits)
  have "\<forall>x \<in> set (Forwards rt). DstType x \<noteq> DestStart \<longrightarrow> HasDestination f1 (DstAddress x)"
    using none by (auto simp: find_None_iff missing_def)
  then show ?thesis
    unfolding handled_def HasDestination_def dest
    using keep eg new eq(3) Route_accepted [OF R none, unfolded circ] by (auto simp: HasDestination_def eq(1))
qed

section \<open>The contract of a dialer\<close>

text \<open>
  What the handler relies on when it dials: a successful dial registers an xgress destination at the
  address of the egress, and a dial leaves all other destinations and the forwarding tables alone.
\<close>

locale dialer =
  fixes dial :: "route \<Rightarrow> route_egress \<Rightarrow> forwarder \<Rightarrow> forwarder \<times> (dial_error + peer_data)"
  assumes dial_registers: "dial rt e f = (f', Inr pd) \<Longrightarrow> \<exists>x. getDestination f' (Address e) = Some (XgressDest x)"
    and dial_keeps: "dial rt e f = (f', r) \<Longrightarrow> f_circuits f' = f_circuits f \<and>
      (\<forall>a. a \<noteq> Address e \<longrightarrow> getDestination f' a = getDestination f a)"
    and dial_fails: "dial rt e f = (f', Inl err) \<Longrightarrow> f' = f"
begin

lemma connectEgress_handled:
  assumes env: "ee_dial env = dial" and e: "Egress rt = Some e"
    and c: "connectEgress env ctrlId now rt e f = (f', RouteResultSuccess i k pd)"
  shows "handled rt f f' \<and> i = CircuitId rt \<and> k = Attempt rt"
proof -
  obtain f1 r where d: "dial rt e f = (f1, r)" by (rule prod.exhaust)
  obtain pd1 where r: "r = Inr pd1" and c1: "completeRoute ctrlId now rt pd1 f1 = (f', RouteResultSuccess i k pd)"
    using c d by (auto simp: connectEgress_def env split: if_splits sum.splits)
  note K = dial_keeps [OF d] and D = dial_registers [OF d [unfolded r]]
  from completeRoute_handled [OF c1, of f] show ?thesis using K D e by (auto simp: HasDestination_def)
qed

lemma handler_success:
  assumes env: "ee_dial env = dial"
    and h: "route_HandleReceive env queued ctrlId now rt f = (f', Some (RouteResultSuccess i k pd))"
  shows "handled rt f f' \<and> i = CircuitId rt \<and> k = Attempt rt"
proof (cases "Egress rt")
  case None
  then have "completeRoute ctrlId now rt [] f = (f', RouteResultSuccess i k pd)"
    using h by (auto simp: route_HandleReceive_def Let_def split: if_splits prod.splits)
  from completeRoute_handled [OF this, of f] show ?thesis using None by simp
next
  case (Some e)
  show ?thesis
  proof (cases "HasDestination f (Address e)")
    case True
    then have "completeRoute ctrlId now rt [] f = (f', RouteResultSuccess i k pd)"
      using h Some by (auto simp: route_HandleReceive_def Let_def split: if_splits prod.splits)
    from completeRoute_handled [OF this, of f] show ?thesis using Some True by (auto simp: HasDestination_def)
  next
    case False
    then have "connectEgress env ctrlId now rt e f = (f', RouteResultSuccess i k pd)"
      using h Some by (auto simp: route_HandleReceive_def Let_def split: if_splits prod.splits)
    from connectEgress_handled [OF env Some this] show ?thesis .
  qed
qed

end

lemma HandleXgressBind_destination:
  "getDestination (HandleXgressBind c a x f) b = (if b = a then Some (XgressDest x) else getDestination f b)"
  "f_circuits (HandleXgressBind c a x f) = f_circuits f"
  by (simp_all add: HandleXgressBind_def RegisterDestination_def linkDestinationToCircuit_def addDestination_def
      getDestination_def update_conv' Let_def)

interpretation transport: dialer "transport_Dial te x" for te x
  by unfold_locales
    (auto simp: transport_Dial_def HandleXgressBind_destination Let_def split: option.splits sum.splits if_splits)

interpretation transport_udp: dialer "transport_udp_Dial te x" for te x
  by unfold_locales
    (auto simp: transport_udp_Dial_def HandleXgressBind_destination split: option.splits sum.splits if_splits)

section \<open>Properties\<close>

text \<open>
  C26. A router with the transport dialer answers a route message with success only when the route works.
  The answer names the circuit and the attempt of the message. Afterwards every destination the message
  forwards to exists, an egress that was not there before has a newly dialed xgress, no other
  destination changed, and the forwarding table of the circuit holds the forwards of the message.
\<close>

theorem transport_route_handled:
  assumes "ee_dial env = transport_Dial te x"
    and "route_HandleReceive env queued ctrlId now rt f = (f', Some (RouteResultSuccess i k pd))"
  shows "i = CircuitId rt \<and> k = Attempt rt \<and>
    (\<forall>d \<in> set (Forwards rt). DstType d \<noteq> DestStart \<longrightarrow> HasDestination f' (DstAddress d)) \<and>
    (\<forall>e. Egress rt = Some e \<and> getDestination f (Address e) = None \<longrightarrow>
       (\<exists>y. getDestination f' (Address e) = Some (XgressDest y))) \<and>
    (\<forall>a. (\<forall>e. Egress rt = Some e \<longrightarrow> a \<noteq> Address e) \<longrightarrow> getDestination f' a = getDestination f a) \<and>
    (\<exists>ft. map_of (f_circuits f') (CircuitId rt) = Some ft \<and>
       (\<forall>src dst. map_of (rev (route_pairs (Forwards rt))) src = Some dst \<longrightarrow> getForwardAddress ft src = Some dst))"
  using transport.handler_success [OF assms] unfolding handled_def by auto

text \<open>
  C27. A dial that is followed by a failing route is not undone. When the terminator was dialed and the
  forwarder then rejects the route because a link is missing, the router answers with the failure code
  for links, the forwarding table is not installed, and the xgress of the dial stays registered.
\<close>

theorem failed_route_keeps_dial:
  assumes env: "ee_hasFactory env (Binding e)" "ee_canDial env (Binding e)" "ee_dial env = transport_Dial te x"
    and e: "Egress rt = Some e" "getDestination f (Address e) = None"
    and dial: "te_parse te (Destination e) = None" "\<exists>a. \<forall>t. te_connect te (Destination e) (''x/'' @ CircuitId rt) t = Inr a"
    and new: "map_of (f_circuits f) (CircuitId rt) = None"
    and link: "Forwards rt = d # ds" "DstType d = DestLink" "getDestination f (DstAddress d) = None" "DstAddress d \<noteq> Address e"
  shows "\<exists>f'. route_HandleReceive env True ctrlId now rt f =
      (f', Some (RouteResultFailed (CircuitId rt) (Attempt rt) ErrorTypeInvalidLinkDestination)) \<and>
    map_of (f_circuits f') (CircuitId rt) = None \<and> getDestination f' (Address e) = Some (XgressDest x)"
proof -
  let ?f = "HandleXgressBind (CircuitId rt) (Address e) x f"
  obtain pd where d: "transport_Dial te x rt e f = (?f, Inr pd)"
    using dial by (auto simp: transport_Dial_def Let_def split: option.splits sum.splits)
  obtain f' err l where R: "Route ctrlId now rt ?f = (f', err, l)" by (rule prod_cases3)
  have "missing ?f d" using link by (simp add: missing_def HasDestination_def HandleXgressBind_destination)
  then have err: "err = Some (InvalidLinkDestination (DstAddress d))"
    using Route_spec [OF R] link(1,2) by (simp add: missing_error_def)
  have "route_effect ctrlId now rt ?f f'" using Route_spec [OF R] by blast
  then have "getDestination f' = getDestination ?f" "map_of (f_circuits f') (CircuitId rt) = None"
    using \<open>missing ?f d\<close> link(1) new by (auto simp: route_effect_def getDestination_def fun_eq_iff HandleXgressBind_destination(2))
  moreover have "route_HandleReceive env True ctrlId now rt f =
      (f', Some (RouteResultFailed (CircuitId rt) (Attempt rt) ErrorTypeInvalidLinkDestination))"
    using e by (simp add: route_HandleReceive_def HasDestination_def connectEgress_def env d completeRoute_def R err)
  ultimately show ?thesis by (simp add: HandleXgressBind_destination)
qed

section \<open>Witnesses\<close>

definition sample_transport :: transport_env where
  "sample_transport = \<lparr>te_parse = (\<lambda>_. None), te_connect = (\<lambda>_ _ _. Inr (''here'', ''there'')), te_ConnectTimeout = 5, te_timeToDeadline = 3\<rparr>"

definition sample_egress_env :: egress_env where
  "sample_egress_env = \<lparr>ee_hasFactory = (\<lambda>_. True), ee_canDial = (\<lambda>_. True), ee_dial = transport_Dial sample_transport 7\<rparr>"

definition sample_egress_route :: "forward list \<Rightarrow> route" where
  "sample_egress_route fs = \<lparr>CircuitId = ''d'', Attempt = 2,
     Egress = Some \<lparr>Binding = ''transport'', Address = ''eg'', Destination = ''tcp'', PeerData = []\<rparr>,
     Forwards = fs, Timeout = 9, Tags = []\<rparr>"

theorem transport_route_handled_witness:
  "\<exists>f'. route_HandleReceive sample_egress_env True ''ctrl1'' 9 (sample_egress_route [fwd ''eg'' ''l1'' DestLink, fwd ''l1'' ''eg'' DestEnd])
      sample_forwarder = (f', Some (RouteResultSuccess ''d'' 2
        [(TerminatorLocalAddressHeader, ''here''), (TerminatorRemoteAddressHeader, ''there'')])) \<and>
    (\<exists>y. getDestination f' ''eg'' = Some (XgressDest y))"
proof -
  let ?rt = "sample_egress_route [fwd ''eg'' ''l1'' DestLink, fwd ''l1'' ''eg'' DestEnd]"
  obtain f' where h: "route_HandleReceive sample_egress_env True ''ctrl1'' 9 ?rt sample_forwarder = (f', Some (RouteResultSuccess ''d'' 2
        [(TerminatorLocalAddressHeader, ''here''), (TerminatorRemoteAddressHeader, ''there'')]))"
    by (simp add: route_HandleReceive_def sample_egress_route_def connectEgress_def sample_egress_env_def transport_Dial_def
        sample_transport_def HandleXgressBind_def RegisterDestination_def linkDestinationToCircuit_def addDestination_def
        completeRoute_def Route_def getForwardTable_def sample_forwarder_def HasDestination_def getDestination_def fwd_def Let_def)
  have "ee_dial sample_egress_env = transport_Dial sample_transport 7" by (simp add: sample_egress_env_def)
  from transport_route_handled [OF this h] h show ?thesis
    by (simp add: sample_egress_route_def getDestination_def sample_forwarder_def)
qed

theorem failed_route_keeps_dial_witness:
  "\<exists>f'. route_HandleReceive sample_egress_env True ''ctrl1'' 9 (sample_egress_route [fwd ''eg'' ''gone'' DestLink]) sample_forwarder =
      (f', Some (RouteResultFailed ''d'' 2 ErrorTypeInvalidLinkDestination)) \<and> getDestination f' ''eg'' = Some (XgressDest 7)"
  using failed_route_keeps_dial [of sample_egress_env "the (Egress (sample_egress_route []))" sample_transport 7
      "sample_egress_route [fwd ''eg'' ''gone'' DestLink]" sample_forwarder "fwd ''eg'' ''gone'' DestLink" "[]" "''ctrl1''" 9]
  by (auto simp: sample_egress_env_def sample_egress_route_def sample_transport_def getDestination_def sample_forwarder_def fwd_def)

end
