(* ===== verification/Route_Sender.thy ===== *)
theory Route_Sender
  imports Route_Handler
begin

text \<open>
  The controller's side of circuit creation: \<^verbatim>\<open>controller/network/routesender.go\<close> and
  \<^verbatim>\<open>controller/handler_ctrl/route_result.go\<close>, with the failure causes of
  \<^verbatim>\<open>controller/network/circuit_lifecycle.go\<close>.

  A route attempt waits for the answers of the routers until its deadline. The answers that arrive
  before the deadline are a list; when the list is used up the deadline passes.
\<close>

section \<open>Model\<close>

datatype circuit_failure =
  CircuitFailureInvalidService
| CircuitFailureIdGenerationError
| CircuitFailureNoTerminators
| CircuitFailureNoOnlineTerminators
| CircuitFailureNoPath
| CircuitFailurePathMissingLink
| CircuitFailureInvalidStrategy
| CircuitFailureStrategyError
| CircuitFailureRouterResponseTimeout
| CircuitFailureRouterErrGeneric
| CircuitFailureRouterErrInvalidTerminator
| CircuitFailureRouterErrMisconfiguredTerminator
| CircuitFailureRouterErrDialTimedOut
| CircuitFailureRouterErrDialConnRefused
| CircuitFailureRouterErrRejectedByApp
| CircuitFailureRouterErrDnsResolutionFailed
| CircuitFailureRouterErrPortNotAllowed
| CircuitFailureRouterErrInvalidLinkDest
| CircuitFailureRouterErrResourcesNotAvailable

record route_status =
  rs_Router :: string
  rs_CircuitId :: string
  rs_Attempt :: u32
  rs_Success :: bool
  rs_PeerData :: peer_data
  rs_ErrorCode :: "u8 option"

text \<open>What a route attempt does besides waiting: events for the strategy, counters, terminator changes.\<close>

datatype sender_effect =
  NotifyDialFailed string
| ServiceDialSuccess string string
| ServiceDialFail string string
| ServiceDialTimeout string string
| ServiceDialOtherError string
| ServiceTerminatorTimeout string string
| ServiceTerminatorConnectionRefused string string
| ServiceInvalidTerminator string string
| ServiceMisconfiguredTerminator string string
| DeleteTerminator string
| SetPrecedenceFailed string

record route_sender =
  sender_circuitId :: string
  sender_attendance :: "bool cmap"

definition newRouteSender :: "string \<Rightarrow> route_sender" where
  "newRouteSender circuitId = \<lparr>sender_circuitId = circuitId, sender_attendance = []\<rparr>"

definition cleanups :: "net \<Rightarrow> path \<Rightarrow> route_sender \<Rightarrow> string list" where
  "cleanups n p rs =
     remdups (filter (\<lambda>i. map_of (sender_attendance rs) i = Some True) (map (router_id n) (Nodes p)))"

definition failure_cause :: "u8 \<Rightarrow> terminator \<Rightarrow> circuit_failure \<times> sender_effect list" where
  "failure_cause errorCode t =
     (if errorCode = ErrorTypeGeneric then (CircuitFailureRouterErrGeneric, [ServiceDialOtherError (t_Service t)])
      else if errorCode = ErrorTypeInvalidTerminator then
        (if t_Binding t = ''edge'' \<or> t_Binding t = ''tunnel''
         then (CircuitFailureRouterErrInvalidTerminator,
               [ServiceInvalidTerminator (t_Service t) (t_Id t), DeleteTerminator (t_Id t)])
         else (CircuitFailureRouterErrMisconfiguredTerminator,
               [ServiceMisconfiguredTerminator (t_Service t) (t_Id t), SetPrecedenceFailed (t_Id t)]))
      else if errorCode = ErrorTypeDialTimedOut
      then (CircuitFailureRouterErrDialTimedOut, [ServiceTerminatorTimeout (t_Service t) (t_Id t)])
      else if errorCode = ErrorTypeConnectionRefused
      then (CircuitFailureRouterErrDialConnRefused, [ServiceTerminatorConnectionRefused (t_Service t) (t_Id t)])
      else if errorCode = ErrorTypeRejectedByApplication
      then (CircuitFailureRouterErrRejectedByApp, [ServiceDialOtherError (t_Service t)])
      else if errorCode = ErrorTypeDnsResolutionFailed
      then (CircuitFailureRouterErrDnsResolutionFailed, [ServiceDialOtherError (t_Service t)])
      else if errorCode = ErrorTypePortNotAllowed
      then (CircuitFailureRouterErrPortNotAllowed, [ServiceDialOtherError (t_Service t)])
      else if errorCode = ErrorTypeInvalidLinkDestination
      then (CircuitFailureRouterErrInvalidLinkDest, [ServiceDialOtherError (t_Service t)])
      else if errorCode = ErrorTypeResourcesNotAvailable
      then (CircuitFailureRouterErrResourcesNotAvailable, [ServiceDialOtherError (t_Service t)])
      else (CircuitFailureRouterErrGeneric, []))"

text \<open>
  The answer of one router: the sender with its attendance, the peer data or the failure with the
  routers to clean up, and the effects.
\<close>

definition handleRouteSend ::
  "net \<Rightarrow> u32 \<Rightarrow> path \<Rightarrow> route_status \<Rightarrow> terminator \<Rightarrow> route_sender \<Rightarrow>
   route_sender \<times> (circuit_failure \<times> string list + peer_data option) \<times> sender_effect list" where
  "handleRouteSend n attempt p status t rs =
     (if rs_Success status then
        if rs_Attempt status = attempt then
          let rs' = rs\<lparr>sender_attendance := AList.update (rs_Router status) True (sender_attendance rs)\<rparr>
          in if rs_Router status = t_Router t
             then (rs', Inr (Some (rs_PeerData status)), [ServiceDialSuccess (t_Service t) (t_Id t)])
             else (rs', Inr None, [])
        else (rs, Inr None, [])
      else if rs_Attempt status = attempt then
        let errorCode = (case rs_ErrorCode status of Some c \<Rightarrow> c | None \<Rightarrow> 0);
            (cause, effects) = failure_cause errorCode t;
            failed = (if rs_Router status = t_Router t
                      then [NotifyDialFailed (t_Id t), ServiceDialFail (t_Service t) (t_Id t)] else [])
        in (rs, Inl (cause, cleanups n p rs), effects @ failed)
      else (rs, Inr None, []))"

definition allPresent :: "route_sender \<Rightarrow> bool" where
  "allPresent rs \<longleftrightarrow> list_all snd (sender_attendance rs)"

fun route_wait ::
  "net \<Rightarrow> u32 \<Rightarrow> path \<Rightarrow> terminator \<Rightarrow> route_status list \<Rightarrow> peer_data option \<Rightarrow> route_sender \<Rightarrow>
   route_sender \<times> (circuit_failure \<times> string list + peer_data option) \<times> sender_effect list" where
  "route_wait n attempt p t [] peerData rs =
     (rs, Inl (CircuitFailureRouterResponseTimeout, cleanups n p rs),
      [NotifyDialFailed (t_Id t), ServiceDialTimeout (t_Service t) (t_Id t)])"
| "route_wait n attempt p t (status # statuses) peerData rs =
     (case handleRouteSend n attempt p status t rs of
        (rs', Inl e, effects) \<Rightarrow> (rs', Inl e, effects)
      | (rs', Inr tmpPeerData, effects) \<Rightarrow>
          let peerData' = (if tmpPeerData \<noteq> None \<and> rs_Attempt status = attempt \<and> rs_Router status = t_Router t
                           then tmpPeerData else peerData)
          in if allPresent rs' then (rs', Inr peerData', effects)
             else (case route_wait n attempt p t statuses peerData' rs' of
                     (rs'', r, effects') \<Rightarrow> (rs'', r, effects @ effects')))"

text \<open>The messages are sent to the routers of the path one to one, and each router is marked absent.\<close>

definition send_routes ::
  "net \<Rightarrow> path \<Rightarrow> route list \<Rightarrow> route_sender \<Rightarrow> route_sender \<times> (nat \<times> route) list" where
  "send_routes n p rms rs =
     (rs\<lparr>sender_attendance := fold (\<lambda>r. AList.update (router_id n r) False) (Nodes p) (sender_attendance rs)\<rparr>,
      map (\<lambda>i. (Nodes p ! i, rms ! i)) [0..<length (Nodes p)])"

definition sender_route ::
  "net \<Rightarrow> u32 \<Rightarrow> path \<Rightarrow> route list \<Rightarrow> terminator \<Rightarrow> route_status list \<Rightarrow> route_sender \<Rightarrow>
   route_sender \<times> (circuit_failure \<times> string list + peer_data option) \<times> sender_effect list" where
  "sender_route n attempt p rms t statuses rs =
     route_wait n attempt p t statuses None (fst (send_routes n p rms rs))"

section \<open>Route results\<close>

text \<open>The senders that wait for answers, and what becomes of an answer.\<close>

definition forwardRouteResult :: "route_sender cmap \<Rightarrow> route_status \<Rightarrow> bool" where
  "forwardRouteResult senders status \<longleftrightarrow> map_of senders (rs_CircuitId status) \<noteq> None"


text \<open>
  An answer travels as the headers of a message, to which the router adds the peer data of the dial. The
  attempt is read as four bytes, least significant first. \<open>GetByteHeader\<close> is the reader of one byte headers
  of the message library.
\<close>

definition RouteResultAttemptHeader :: u32 where "RouteResultAttemptHeader = 1101"
definition RouteResultSuccessHeader :: u32 where "RouteResultSuccessHeader = 1102"
definition RouteResultErrorHeader :: u32 where "RouteResultErrorHeader = 1103"
definition RouteResultErrorCodeHeader :: u32 where "RouteResultErrorCodeHeader = 1104"

lemmas route_header_defs = RouteResultAttemptHeader_def RouteResultSuccessHeader_def RouteResultErrorHeader_def
  RouteResultErrorCodeHeader_def

definition ReadUint32 :: "string \<Rightarrow> u32 option" where
  "ReadUint32 bs =
     (if length bs < 4 then None
      else Some (of_nat (foldr (\<lambda>b acc. of_char b + 256 * acc) (take 4 bs) 0)))"

definition is_peer_header :: "u32 \<Rightarrow> bool" where
  "is_peer_header k \<longleftrightarrow> sint k > 0 \<and> (sint k < sint RouteResultSuccessHeader \<or> sint k > sint RouteResultErrorCodeHeader)"

definition status_of_message ::
  "((u32 \<times> string) list \<Rightarrow> u32 \<Rightarrow> u8 option) \<Rightarrow> string \<Rightarrow> string \<Rightarrow> (u32 \<times> string) list \<Rightarrow> route_status option" where
  "status_of_message GetByteHeader rid body headers =
     (case map_of headers RouteResultAttemptHeader of
        None \<Rightarrow> None
      | Some v \<Rightarrow>
          (case ReadUint32 v of
             None \<Rightarrow> None
           | Some attempt \<Rightarrow> Some
               \<lparr>rs_Router = rid, rs_CircuitId = body, rs_Attempt = attempt,
                rs_Success = (map_of headers RouteResultSuccessHeader \<noteq> None),
                rs_PeerData = filter (\<lambda>(k, v). is_peer_header k) headers,
                rs_ErrorCode = GetByteHeader headers RouteResultErrorCodeHeader\<rparr>))"

text \<open>
  The answer of a router: the status that is queued at the sender of the circuit, and the circuit an
  unroute is sent back for, when no sender waits and the answer is not for a reroute.
\<close>

definition handleRouteResult ::
  "((u32 \<times> string) list \<Rightarrow> u32 \<Rightarrow> u8 option) \<Rightarrow> route_sender cmap \<Rightarrow> string \<Rightarrow> string \<Rightarrow> (u32 \<times> string) list \<Rightarrow> route_status option \<times> string option" where
  "handleRouteResult GetByteHeader senders rid body headers =
     (case status_of_message GetByteHeader rid body headers of
        None \<Rightarrow> (None, None)
      | Some rs \<Rightarrow>
          let routing = forwardRouteResult senders rs
          in (if routing then Some rs else None,
              if \<not> routing \<and> rs_Attempt rs \<noteq> SmartRerouteAttempt then Some (rs_CircuitId rs) else None))"

text \<open>
  The filter for the peer data lets the attempt header through, so every answer hands its own attempt
  number on as peer data of the circuit.
\<close>

lemma attempt_header_is_peer_data:
  assumes "status_of_message gb rid body headers = Some st"
  shows "\<exists>v. (RouteResultAttemptHeader, v) \<in> set (rs_PeerData st) \<and> ReadUint32 v = Some (rs_Attempt st)"
proof -
  obtain v where v: "map_of headers RouteResultAttemptHeader = Some v" "ReadUint32 v = Some (rs_Attempt st)"
    and pd: "rs_PeerData st = filter (\<lambda>(k, v). is_peer_header k) headers"
    using assms by (auto simp: status_of_message_def split: option.splits)
  have "is_peer_header RouteResultAttemptHeader" by (simp add: is_peer_header_def route_header_defs)
  then show ?thesis using v pd map_of_SomeD [OF v(1)] by auto
qed

section \<open>Attendance\<close>

text \<open>An answer that confirms the route of an attempt at a router.\<close>

definition confirms :: "u32 \<Rightarrow> string \<Rightarrow> route_status \<Rightarrow> bool" where
  "confirms attempt i status \<longleftrightarrow> rs_Success status \<and> rs_Attempt status = attempt \<and> rs_Router status = i"

lemma handleRouteSend_attendance:
  "map_of (sender_attendance (fst (handleRouteSend n attempt p status t rs))) i =
     (if confirms attempt i status then Some True else map_of (sender_attendance rs) i)"
  by (auto simp: handleRouteSend_def confirms_def Let_def update_conv' split: prod.split)

lemma handleRouteSend_error:
  "(\<exists>e. fst (snd (handleRouteSend n attempt p status t rs)) = Inl e) \<longleftrightarrow> \<not> rs_Success status \<and> rs_Attempt status = attempt"
  by (auto simp: handleRouteSend_def Let_def split: prod.split)

lemma handleRouteSend_peer:
  "fst (snd (handleRouteSend n attempt p status t rs)) = Inr (Some pd) \<longleftrightarrow>
     confirms attempt (t_Router t) status \<and> pd = rs_PeerData status"
  by (auto simp: handleRouteSend_def confirms_def Let_def split: prod.split)

lemma route_wait_step:
  "route_wait n attempt p t (status # statuses) pd rs =
     (let h = handleRouteSend n attempt p status t rs;
          pd' = (if confirms attempt (t_Router t) status then Some (rs_PeerData status) else pd)
      in if \<not> rs_Success status \<and> rs_Attempt status = attempt then h
         else if allPresent (fst h) then (fst h, Inr pd', snd (snd h))
         else let w = route_wait n attempt p t statuses pd' (fst h) in (fst w, fst (snd w), snd (snd h) @ snd (snd w)))"
  by (auto simp: handleRouteSend_def confirms_def Let_def split: prod.split)

lemma route_wait_attendance:
  assumes "fst (snd (route_wait n attempt p t statuses pd rs)) = Inr pd'"
  shows "allPresent (fst (route_wait n attempt p t statuses pd rs)) \<and>
    (\<forall>i. map_of (sender_attendance (fst (route_wait n attempt p t statuses pd rs))) i = Some True \<longrightarrow>
       map_of (sender_attendance rs) i = Some True \<or> list_ex (confirms attempt i) statuses) \<and>
    (\<forall>i. map_of (sender_attendance rs) i \<noteq> None \<longrightarrow>
       map_of (sender_attendance (fst (route_wait n attempt p t statuses pd rs))) i \<noteq> None)"
  using assms
proof (induction statuses arbitrary: pd rs)
  case (Cons status statuses)
  let ?h = "handleRouteSend n attempt p status t rs"
  let ?pd = "if confirms attempt (t_Router t) status then Some (rs_PeerData status) else pd"
  have ok: "\<not> (\<not> rs_Success status \<and> rs_Attempt status = attempt)"
    using Cons.prems handleRouteSend_error [of n attempt p status t rs] by (auto simp: route_wait_step Let_def simp del: route_wait.simps(2))
  show ?case
  proof (cases "allPresent (fst ?h)")
    case True
    then show ?thesis using ok
      by (auto simp: route_wait_step Let_def handleRouteSend_attendance simp del: route_wait.simps(2))
  next
    case False
    then have "fst (snd (route_wait n attempt p t statuses ?pd (fst ?h))) = Inr pd'"
      using Cons.prems ok by (simp add: route_wait_step Let_def del: route_wait.simps(2))
    from Cons.IH [OF this] show ?thesis using ok False
      by (auto simp: route_wait_step Let_def handleRouteSend_attendance simp del: route_wait.simps(2) split: if_splits)
  qed
qed simp

lemma route_wait_peer:
  assumes "fst (snd (route_wait n attempt p t statuses pd rs)) = Inr pd'"
    and "map_of (sender_attendance rs) (t_Router t) \<noteq> None"
    and "map_of (sender_attendance rs) (t_Router t) = Some True \<longrightarrow> pd \<noteq> None"
  shows "\<exists>d. pd' = Some d \<and>
    (pd = Some d \<or> (\<exists>s \<in> set statuses. confirms attempt (t_Router t) s \<and> d = rs_PeerData s))"
  using assms
proof (induction statuses arbitrary: pd rs)
  case (Cons status statuses)
  let ?h = "handleRouteSend n attempt p status t rs" and ?i = "t_Router t"
  let ?pd = "if confirms attempt ?i status then Some (rs_PeerData status) else pd"
  have ok: "\<not> (\<not> rs_Success status \<and> rs_Attempt status = attempt)"
    using Cons.prems(1) handleRouteSend_error [of n attempt p status t rs]
    by (auto simp: route_wait_step Let_def simp del: route_wait.simps(2))
  have att: "map_of (sender_attendance (fst ?h)) ?i \<noteq> None"
    "map_of (sender_attendance (fst ?h)) ?i = Some True \<longrightarrow> ?pd \<noteq> None"
    using Cons.prems(2,3) by (auto simp: handleRouteSend_attendance)
  show ?case
  proof (cases "allPresent (fst ?h)")
    case True
    then have "pd' = ?pd" using Cons.prems(1) ok by (simp add: route_wait_step Let_def del: route_wait.simps(2))
    moreover obtain v where v: "map_of (sender_attendance (fst ?h)) ?i = Some v" using att(1) by blast
    then have "v" using True map_of_SomeD [OF v] by (auto simp: allPresent_def list_all_iff)
    ultimately show ?thesis using att(2) v by (auto split: if_splits)
  next
    case False
    then have "fst (snd (route_wait n attempt p t statuses ?pd (fst ?h))) = Inr pd'"
      using Cons.prems(1) ok by (simp add: route_wait_step Let_def del: route_wait.simps(2))
    from Cons.IH [OF this att] show ?thesis by (auto split: if_splits)
  qed
qed simp

lemma route_wait_blocked:
  assumes "map_of (sender_attendance rs) i = Some False"
    and "\<forall>s \<in> set statuses. \<not> confirms attempt i s \<and> (rs_Attempt s = attempt \<longrightarrow> rs_Success s)"
  shows "\<exists>cl. fst (snd (route_wait n attempt p t statuses pd rs)) = Inl (CircuitFailureRouterResponseTimeout, cl)"
  using assms
proof (induction statuses arbitrary: pd rs)
  case (Cons status statuses)
  let ?h = "handleRouteSend n attempt p status t rs"
  have a: "map_of (sender_attendance (fst ?h)) i = Some False"
    using Cons.prems by (simp add: handleRouteSend_attendance)
  then have "\<not> allPresent (fst ?h)" by (force simp: allPresent_def list_all_iff dest: map_of_SomeD)
  then show ?case
    using Cons.IH [OF a] Cons.prems(2) by (auto simp: route_wait_step Let_def simp del: route_wait.simps(2))
qed simp

lemma send_routes_attendance:
  "map_of (sender_attendance (fst (send_routes n p rms rs))) i =
     (if i \<in> router_id n ` set (Nodes p) then Some False else map_of (sender_attendance rs) i)"
proof -
  have "map_of (fold (\<lambda>r. AList.update (router_id n r) False) ns m) i =
      (if i \<in> router_id n ` set ns then Some False else map_of m i)" for ns m
    by (induction ns arbitrary: m) (auto simp: update_conv')
  then show ?thesis by (simp add: send_routes_def)
qed

lemma route_wait_keeps:
  assumes "\<forall>s \<in> set statuses. \<not> confirms attempt i s"
  shows "map_of (sender_attendance (fst (route_wait n attempt p t statuses pd rs))) i = map_of (sender_attendance rs) i"
  using assms
  by (induction statuses arbitrary: pd rs)
    (simp_all add: route_wait_step Let_def handleRouteSend_attendance del: route_wait.simps(2))

lemma sender_route_success:
  assumes "sender_route n attempt p rms t statuses rs = (rs', Inr pd, effects)"
    and "t_Router t \<in> router_id n ` set (Nodes p)"
  shows "(\<forall>r \<in> set (Nodes p). \<exists>s \<in> set statuses. confirms attempt (router_id n r) s) \<and>
    (\<exists>s \<in> set statuses. confirms attempt (t_Router t) s \<and> pd = Some (rs_PeerData s))"
proof -
  let ?rs = "fst (send_routes n p rms rs)"
  have w: "route_wait n attempt p t statuses None ?rs = (rs', Inr pd, effects)"
    using assms(1) by (simp add: sender_route_def)
  note A = route_wait_attendance [of n attempt p t statuses None ?rs pd, unfolded w, simplified]
  have "\<exists>s \<in> set statuses. confirms attempt (router_id n r) s" if r: "r \<in> set (Nodes p)" for r
  proof -
    have i: "map_of (sender_attendance ?rs) (router_id n r) = Some False" using r by (simp add: send_routes_attendance)
    then obtain v where v: "map_of (sender_attendance rs') (router_id n r) = Some v" using A by force
    then have "v" using A map_of_SomeD [OF v] by (auto simp: allPresent_def list_all_iff)
    then show ?thesis using A v i by (auto simp: list_ex_iff)
  qed
  moreover have "map_of (sender_attendance ?rs) (t_Router t) = Some False"
    using assms(2) by (simp add: send_routes_attendance)
  then have "\<exists>s \<in> set statuses. confirms attempt (t_Router t) s \<and> pd = Some (rs_PeerData s)"
    using route_wait_peer [of n attempt p t statuses None ?rs pd] w by auto
  ultimately show ?thesis by blast
qed

section \<open>Properties\<close>

text \<open>
  C28. A route attempt succeeds only with all routers. When it reports success, every router of the path
  has confirmed this very attempt in time, an answer to an earlier attempt does not count, and the
  returned peer data is that of an answer of the terminator's router.
\<close>

theorem sender_route_confirmed:
  assumes "sender_route n attempt p rms t statuses rs = (rs', Inr pd, effects)"
    and "t_Router t \<in> router_id n ` set (Nodes p)"
  shows "(\<forall>r \<in> set (Nodes p). \<exists>s \<in> set statuses. confirms attempt (router_id n r) s) \<and>
    (\<exists>s \<in> set statuses. confirms attempt (t_Router t) s \<and> pd = Some (rs_PeerData s))"
  using assms by (rule sender_route_success)

text \<open>
  C29. A retry over other routers cannot succeed. The attendance list of a circuit survives from one
  attempt to the next. When a router of the first path never confirmed and is not on the path of the
  second attempt, the second attempt runs into its deadline even if every router of its path confirms
  it and no router reports a failure.
\<close>

theorem retry_on_other_path_times_out:
  assumes "sender_route n a1 p1 rms1 t1 statuses1 (newRouteSender c) = (rs1, r1, effects1)"
    and "i \<in> router_id n ` set (Nodes p1)" and "\<forall>s \<in> set statuses1. \<not> confirms a1 i s"
    and "i \<notin> router_id n ` set (Nodes p2)"
    and "\<forall>s \<in> set statuses2. rs_Attempt s = a2 \<longrightarrow> rs_Success s \<and> rs_Router s \<in> router_id n ` set (Nodes p2)"
  shows "\<exists>rs2 cl effects2. sender_route n a2 p2 rms2 t2 statuses2 rs1 =
    (rs2, Inl (CircuitFailureRouterResponseTimeout, cl), effects2)"
proof -
  have "map_of (sender_attendance rs1) i = Some False"
    using route_wait_keeps [OF assms(3), of n p1 t1 None "fst (send_routes n p1 rms1 (newRouteSender c))"] assms(1,2)
    by (simp add: sender_route_def send_routes_attendance)
  then have "map_of (sender_attendance (fst (send_routes n p2 rms2 rs1))) i = Some False"
    using assms(4) by (simp add: send_routes_attendance)
  moreover have "\<forall>s \<in> set statuses2. \<not> confirms a2 i s \<and> (rs_Attempt s = a2 \<longrightarrow> rs_Success s)"
    using assms(4,5) unfolding confirms_def by blast
  ultimately obtain cl where "fst (snd (sender_route n a2 p2 rms2 t2 statuses2 rs1)) =
      Inl (CircuitFailureRouterResponseTimeout, cl)"
    using route_wait_blocked unfolding sender_route_def by blast
  then show ?thesis by (metis prod.collapse)
qed

subsection \<open>Witnesses\<close>

definition sample_status :: "string \<Rightarrow> u32 \<Rightarrow> bool \<Rightarrow> route_status" where
  "sample_status i attempt success = \<lparr>rs_Router = i, rs_CircuitId = ''c'', rs_Attempt = attempt, rs_Success = success,
     rs_PeerData = [], rs_ErrorCode = (if success then None else Some ErrorTypeGeneric)\<rparr>"

definition sample_term :: "string \<Rightarrow> terminator" where
  "sample_term r = \<lparr>t_Id = ''t'', t_Service = ''s'', t_Router = r, t_Binding = ''edge'', t_Address = ''a'',
     t_InstanceId = '''', t_Cost = 0, t_Precedence = Default\<rparr>"

lemma sample_ids: "router_id sample_net 0 = ''r0''" "router_id sample_net (Suc 0) = ''r1''" "router_id sample_net 2 = ''r2''"
  by (simp_all add: sample_net_def sample_router_def)

theorem sender_route_confirmed_witness:
  "\<exists>s \<in> set [sample_status ''r1'' 0 True, sample_status ''r0'' 0 True]. confirms 0 ''r1'' s"
proof -
  have "sender_route sample_net 0 (sample_route [0, 1] [5]) [] (sample_term ''r1'')
      [sample_status ''r1'' 0 True, sample_status ''r0'' 0 True] (newRouteSender ''c'') =
      (\<lparr>sender_circuitId = ''c'', sender_attendance = [(''r0'', True), (''r1'', True)]\<rparr>, Inr (Some []),
       [ServiceDialSuccess ''s'' ''t''])"
    by (simp add: sender_route_def send_routes_def newRouteSender_def sample_route_def sample_status_def sample_term_def
        handleRouteSend_def allPresent_def sample_ids)
  from sender_route_confirmed [OF this] show ?thesis
    by (force simp: sample_term_def sample_route_def sample_ids)
qed

theorem retry_on_other_path_times_out_witness:
  "\<exists>rs2 cl effects. sender_route sample_net 1 (sample_route [0, 1] [5]) [] (sample_term ''r1'')
      [sample_status ''r0'' 1 True, sample_status ''r1'' 1 True]
      (fst (sender_route sample_net 0 (sample_route [0, 2] [6]) [] (sample_term ''r2'')
        [sample_status ''r0'' 0 True, sample_status ''r2'' 0 False] (newRouteSender ''c''))) =
    (rs2, Inl (CircuitFailureRouterResponseTimeout, cl), effects)"
proof -
  let ?r = "sender_route sample_net 0 (sample_route [0, 2] [6]) [] (sample_term ''r2'')
        [sample_status ''r0'' 0 True, sample_status ''r2'' 0 False] (newRouteSender ''c'')"
  have "?r = (fst ?r, fst (snd ?r), snd (snd ?r))" by simp
  from retry_on_other_path_times_out [OF this, of "''r2''" "sample_route [0, 1] [5]"
      "[sample_status ''r0'' 1 True, sample_status ''r1'' 1 True]" 1 "[]" "sample_term ''r1''"]
  show ?thesis by (simp add: sample_route_def sample_ids sample_status_def confirms_def)
qed

end
