(* ===== verification/Circuit_Creation.thy ===== *)
theory Circuit_Creation
  imports Route_Sender
begin

text \<open>
  The circuits of a controller and how they are created: \<^verbatim>\<open>controller/model/circuit_manager.go\<close> and
  \<open>selectPath\<close> and \<open>CreateCircuit\<close> of \<^verbatim>\<open>controller/network/network.go\<close>.

  A circuit object is reached through the circuit table only, so the table holds the objects. What an
  operation sends to routers, reports as an event or tells a strategy is the list of its effects, in
  order. An operation that computes paths returns \<open>None\<close> if it does not return, because a path
  computation runs forever or panics.
\<close>

section \<open>State and effects\<close>

record circuit =
  c_Id :: string
  c_ClientId :: string
  c_ServiceId :: string
  c_Terminator :: "routing_terminator option"
  c_Path :: path
  c_Tags :: "(string \<times> string) list"
  c_Rerouting :: bool
  c_PeerData :: peer_data
  c_CreatedAt :: int
  c_UpdatedAt :: int

record service =
  svc_Id :: string
  svc_TerminatorStrategy :: string
  svc_Terminators :: "terminator list"
  svc_MaxIdleTime :: int

datatype circuit_effect =
  SentRoute nat route
| SentUnroute nat string bool
| Sender sender_effect
| CircuitFailed circuit_failure
| CircuitCreated string
| CircuitUpdated string
| CircuitDeleted string
| DialSucceeded string
| CircuitRemoved string

type_synonym ranks = "(nat list \<Rightarrow> nat \<Rightarrow> nat) \<times> (nat list \<Rightarrow> string \<times> nat \<Rightarrow> nat)"

definition Circuit_Add :: "circuit \<Rightarrow> circuit cmap \<Rightarrow> circuit cmap" where
  "Circuit_Add c cs = AList.update (c_Id c) c cs"

text \<open>
  The table of the source holds pointers, so an assignment to a field of a circuit shows in the table as long
  as the circuit is in it. Here the changed circuit is written back.
\<close>

definition Circuit_Store :: "circuit \<Rightarrow> circuit cmap \<Rightarrow> circuit cmap" where
  "Circuit_Store c cs = (if map_of cs (c_Id c) = None then cs else AList.update (c_Id c) c cs)"

definition Reserve :: "circuit \<Rightarrow> circuit cmap \<Rightarrow> circuit cmap \<times> bool" where
  "Reserve c cs = cmap_set_if_absent cs (c_Id c) c"

definition Circuit_Get :: "circuit cmap \<Rightarrow> string \<Rightarrow> circuit option" where
  "Circuit_Get cs i = map_of cs i"

definition Circuit_All :: "circuit cmap \<Rightarrow> circuit list" where
  "Circuit_All cs = map snd cs"

definition Circuit_Remove :: "circuit \<Rightarrow> circuit cmap \<Rightarrow> circuit cmap" where
  "Circuit_Remove c cs = AList.delete (c_Id c) cs"

definition HasRouter :: "net \<Rightarrow> circuit \<Rightarrow> string \<Rightarrow> bool" where
  "HasRouter n c rid \<longleftrightarrow> list_ex (\<lambda>r. router_id n r = rid) (Nodes (c_Path c))"

definition IsEndpointRouter :: "net \<Rightarrow> circuit \<Rightarrow> string \<Rightarrow> bool" where
  "IsEndpointRouter n c rid \<longleftrightarrow>
     (if length (Nodes (c_Path c)) = 0 then False
      else router_id n (Nodes (c_Path c) ! 0) = rid \<or>
           router_id n (Nodes (c_Path c) ! (length (Nodes (c_Path c)) - 1)) = rid)"

section \<open>Selecting a terminator\<close>

definition parseInstanceIdAndService :: "string \<Rightarrow> string \<times> string" where
  "parseInstanceIdAndService s =
     (if CHR ''@'' \<notin> set s then ('''', s)
      else (takeWhile (\<lambda>c. c \<noteq> CHR ''@'') s, tl (dropWhile (\<lambda>c. c \<noteq> CHR ''@'') s)))"

definition newPathAndCost :: "nat list \<Rightarrow> int \<Rightarrow> nat list \<times> u32" where
  "newPathAndCost p cost = (p, of_int (if cost > 2 ^ 20 then 2 ^ 20 else cost))"

record select_state =
  sel_paths :: "(nat list \<times> u32) cmap"
  sel_weighted :: "routing_terminator list"
  sel_offline :: bool
  sel_pathError :: bool

text \<open>
  The environment of one attempt to create a circuit. No lock is held over an attempt, so the network
  may change meanwhile: \<open>ae_net\<close> is the network in which the path is selected, \<open>ae_linkNet\<close> the one in
  which its links are chosen and the routes are sent, and \<open>ae_doneNet\<close> the one in which routers are
  told to forget the circuit, once the answers are in.
\<close>

record attempt_env =
  ae_net :: net
  ae_linkNet :: net
  ae_doneNet :: net
  ae_service :: "service option"
  ae_ranks :: "nat \<Rightarrow> ranks"
  ae_costs :: cost_globals
  ae_strategy :: "string \<Rightarrow> strategy option"
  ae_sortRank :: "routing_terminator \<Rightarrow> nat"
  ae_uuid1 :: "string option"
  ae_uuid2 :: "string option"
  ae_remaining :: int
  ae_statuses :: "route_status list"
  ae_now :: int

definition weigh :: "attempt_env \<Rightarrow> terminator \<Rightarrow> u32 \<Rightarrow> routing_terminator" where
  "weigh env t cost =
     (let dynamicCost = GetDynamicCost (ae_costs env) (t_Id t);
          unbiasedCost = ucast (t_Cost t) + ucast dynamicCost + cost
      in \<lparr>rt_RouteCost = GetBiasedCost (t_Precedence t) unbiasedCost, rt_Terminator = t\<rparr>)"

text \<open>The number \<open>i\<close> of a terminator selects the orders of the map loops of its path search.\<close>

fun select_loop ::
  "attempt_env \<Rightarrow> u16 \<Rightarrow> nat option \<Rightarrow> string \<Rightarrow> nat \<Rightarrow> terminator list \<Rightarrow> select_state \<Rightarrow> select_state option" where
  "select_loop env mrc src instanceId i [] st = Some st"
| "select_loop env mrc src instanceId i (t # ts) st =
     (if t_InstanceId t \<noteq> instanceId then select_loop env mrc src instanceId (Suc i) ts st
      else
        case map_of (sel_paths st) (t_Router t) of
          Some (p, cost) \<Rightarrow>
            select_loop env mrc src instanceId (Suc i) ts
              (st\<lparr>sel_weighted := sel_weighted st @ [weigh env t cost]\<rparr>)
        | None \<Rightarrow>
            (case GetConnected (ae_net env) (t_Router t) of
               None \<Rightarrow> select_loop env mrc src instanceId (Suc i) ts (st\<lparr>sel_offline := True\<rparr>)
             | Some dstR \<Rightarrow>
                 (case shortestPath (fst (ae_ranks env i)) (snd (ae_ranks env i)) (ae_net env) mrc src (Some dstR) of
                    None \<Rightarrow> None
                  | Some (Inl e) \<Rightarrow> select_loop env mrc src instanceId (Suc i) ts (st\<lparr>sel_pathError := True\<rparr>)
                  | Some (Inr (p, cost)) \<Rightarrow>
                      let pc = newPathAndCost p cost
                      in select_loop env mrc src instanceId (Suc i) ts
                           (st\<lparr>sel_paths := AList.update (t_Router t) pc (sel_paths st),
                               sel_weighted := sel_weighted st @ [weigh env t (snd pc)]\<rparr>))))"

text \<open>
  The sort is not stable: terminators of equal cost come in any order, which the rank gives. The
  result names the selected terminator, the routers of its path and the data of the strategy.
\<close>

definition selectPath ::
  "attempt_env \<Rightarrow> u16 \<Rightarrow> nat option \<Rightarrow> client_id \<Rightarrow> service \<Rightarrow> string \<Rightarrow>
   (circuit_failure + routing_terminator \<times> nat list \<times> peer_data) option" where
  "selectPath env mrc src client svc instanceId =
     (case select_loop env mrc src instanceId 0 (svc_Terminators svc)
             \<lparr>sel_paths = [], sel_weighted = [], sel_offline = False, sel_pathError = False\<rparr> of
        None \<Rightarrow> None
      | Some st \<Rightarrow>
          if length (svc_Terminators svc) = 0 then Some (Inl CircuitFailureNoTerminators)
          else if length (sel_weighted st) = 0 then
            Some (Inl (if sel_pathError st then CircuitFailureNoPath
                       else if sel_offline st then CircuitFailureNoOnlineTerminators
                       else CircuitFailureNoTerminators))
          else
            case ae_strategy env (svc_TerminatorStrategy svc) of
              None \<Rightarrow> Some (Inl CircuitFailureInvalidStrategy)
            | Some strategy \<Rightarrow>
                (case Select strategy (Some client)
                        (sort_key rt_RouteCost (range_order (ae_sortRank env) (sel_weighted st))) of
                   None \<Rightarrow> Some (Inl CircuitFailureStrategyError)
                 | Some (t, pd) \<Rightarrow>
                     (case map_of (sel_paths st) (t_Router (rt_Terminator t)) of
                        None \<Rightarrow> None
                      | Some (p, _) \<Rightarrow> Some (Inr (t, p, pd)))))"

section \<open>Creating a circuit\<close>

record circuit_params =
  cp_ClientId :: client_id
  cp_ServiceId :: string
  cp_SourceRouter :: "nat option"
  cp_CircuitId :: string
  cp_Tags :: "routing_terminator \<Rightarrow> (string \<times> string) list"

record network_options =
  opt_CreateCircuitRetries :: u32
  opt_MinRouterCost :: u16
  opt_RerouteCeiling :: "nat \<Rightarrow> int"
  opt_RerouteCap :: u32
  opt_MinCostDelta :: u32

datatype create_error =
  ErrIdGeneration
| ErrIdInUse
| ErrService
| ErrCircuit circuit_failure
| ErrRetriesExceeded circuit_failure


definition header :: "peer_data \<Rightarrow> u32 \<Rightarrow> string" where
  "header pd k = (case map_of pd k of Some v \<Rightarrow> v | None \<Rightarrow> '''')"

text \<open>
  The client's data goes into the egress request of the last message, the tags into all. Without a last
  message or without its egress request the code dereferences a nil pointer.
\<close>

definition dress_messages :: "peer_data \<Rightarrow> (string \<times> string) list \<Rightarrow> route list \<Rightarrow> route list option" where
  "dress_messages clientData tags rms =
     (if rms = [] \<or> Egress (last rms) = None then None
      else Some (map (\<lambda>m. m\<lparr>Tags := tags\<rparr>)
             (rms[length rms - 1 := (last rms)\<lparr>Egress := map_option (\<lambda>e. e\<lparr>PeerData := clientData\<rparr>) (Egress (last rms))\<rparr>])))"

definition cleanup_unroutes :: "net \<Rightarrow> string \<Rightarrow> string list \<Rightarrow> circuit_effect list" where
  "cleanup_unroutes n circuitId ids =
     concat (map (\<lambda>i. case GetConnected n i of Some r \<Rightarrow> [SentUnroute r circuitId True] | None \<Rightarrow> []) ids)"

text \<open>
  The circuit object after a successful attempt. Deleting from a nil map of peer data does nothing,
  while an assignment to it panics.
\<close>

definition finish_circuit :: "peer_data \<Rightarrow> peer_data option \<Rightarrow> peer_data \<Rightarrow> int \<Rightarrow> circuit \<Rightarrow> circuit option" where
  "finish_circuit clientData peerData strategyData now c =
     (let found = (case peerData of Some pd \<Rightarrow> pd | None \<Rightarrow> []);
          p = (c_Path c)\<lparr>InitiatorLocalAddr := header clientData InitiatorLocalAddressHeader,
                 InitiatorRemoteAddr := header clientData InitiatorRemoteAddressHeader,
                 TerminatorLocalAddr := header found TerminatorLocalAddressHeader,
                 TerminatorRemoteAddr := header found TerminatorRemoteAddressHeader\<rparr>;
          pd = fold AList.delete [InitiatorLocalAddressHeader, InitiatorRemoteAddressHeader,
                 TerminatorLocalAddressHeader, TerminatorRemoteAddressHeader] found;
          pd' = fold (\<lambda>(k, v). AList.update k v) strategyData pd
      in if peerData = None \<and> strategyData \<noteq> [] then None
         else Some (c\<lparr>c_Path := p, c_PeerData := pd', c_CreatedAt := now, c_UpdatedAt := now\<rparr>))"

text \<open>
  One attempt: it ends the creation with an error, fails after routes were sent, or has the answers of
  all routers. Each outcome has the circuit object and the effects so far.
\<close>

datatype attempt_result =
  Abort create_error circuit "circuit_effect list"
| Failed_attempt circuit_failure "string list" route_sender circuit "circuit_effect list"
| Routed routing_terminator "peer_data option" peer_data circuit "circuit_effect list"

definition create_attempt ::
  "network_options \<Rightarrow> circuit_params \<Rightarrow> attempt_env \<Rightarrow> u32 \<Rightarrow> route_sender \<Rightarrow> circuit \<Rightarrow> attempt_result option" where
  "create_attempt opts params env attempt rs c =
     (let n = ae_linkNet env; (instanceId, serviceId) = parseInstanceIdAndService (cp_ServiceId params);
          abort = (\<lambda>err cause c. Abort err c [CircuitFailed cause, Sender (ServiceDialOtherError serviceId)])
      in case ae_service env of
           None \<Rightarrow> Some (abort ErrService CircuitFailureInvalidService c)
         | Some svc \<Rightarrow>
             (case selectPath env (opt_MinRouterCost opts) (cp_SourceRouter params) (cp_ClientId params) svc instanceId of
                None \<Rightarrow> None
              | Some (Inl e) \<Rightarrow> Some (abort (ErrCircuit e) e c)
              | Some (Inr (t, pathNodes, strategyData)) \<Rightarrow>
                  let c1 = c\<lparr>c_Terminator := Some t\<rparr>
                  in case CreatePathWithNodes (ae_uuid1 env) (ae_uuid2 env) n pathNodes of
                       Inl e \<Rightarrow>
                         let cause = (case e of IdGenerationError \<Rightarrow> CircuitFailureIdGenerationError
                                                | PathFailure _ \<Rightarrow> CircuitFailurePathMissingLink)
                         in Some (abort (ErrCircuit cause) cause c1)
                     | Inr p \<Rightarrow>
                         let tags = cp_Tags params t; c2 = c1\<lparr>c_Path := p, c_Tags := tags\<rparr>
                         in case dress_messages (cid_Data (cp_ClientId params)) tags
                                   (CreateRouteMessages n p attempt (c_Id c) (rt_Terminator t) (ae_remaining env)) of
                              None \<Rightarrow> None
                            | Some rms \<Rightarrow>
                                let sends = map (\<lambda>(r, m). SentRoute r m) (snd (send_routes n p rms rs))
                                in case sender_route n attempt p rms (rt_Terminator t) (ae_statuses env) rs of
                                     (rs', Inl (cause, cl), effects) \<Rightarrow>
                                       Some (Failed_attempt cause cl rs' c2 (sends @ map Sender effects @ [CircuitFailed cause]))
                                   | (rs', Inr peerData, effects) \<Rightarrow>
                                       Some (Routed t peerData strategyData c2 (sends @ map Sender effects))))"

text \<open>
  The attempts. The environment may differ from one attempt to the next. \<open>cleanRank\<close> orders the loops
  over the routers to clean up.
\<close>

function create_loop ::
  "network_options \<Rightarrow> circuit_params \<Rightarrow> (nat \<Rightarrow> attempt_env) \<Rightarrow> (string \<Rightarrow> nat) \<Rightarrow> nat \<Rightarrow> string list \<Rightarrow> route_sender \<Rightarrow>
   circuit \<Rightarrow> ((create_error + unit) \<times> circuit \<times> circuit_effect list) option" where
  "create_loop opts params envs cleanRank attempt allCleanups rs c =
     (let env = envs attempt; n = ae_doneNet env
      in case create_attempt opts params env (of_nat attempt) rs c of
           None \<Rightarrow> None
         | Some (Abort e c' es) \<Rightarrow> Some (Inl e, c', es)
         | Some (Failed_attempt cause cl rs' c' es) \<Rightarrow>
             let all' = remdups (allCleanups @ cl)
             in if Suc attempt < unat (opt_CreateCircuitRetries opts)
                then (case create_loop opts params envs cleanRank (Suc attempt) all' rs' c' of
                        None \<Rightarrow> None
                      | Some (r, c'', es') \<Rightarrow> Some (r, c'', es @ es'))
                else Some (Inl (ErrRetriesExceeded cause), c',
                           es @ cleanup_unroutes n (c_Id c) (range_order cleanRank all'))
         | Some (Routed t peerData strategyData c' es) \<Rightarrow>
             let abandoned = filter (\<lambda>i. i \<notin> router_id n ` set (Nodes (c_Path c'))) (range_order cleanRank allCleanups)
             in (case finish_circuit (cid_Data (cp_ClientId params)) peerData strategyData (ae_now env) c' of
                   None \<Rightarrow> None
                 | Some c'' \<Rightarrow>
                     Some (Inr (), c'', es @ cleanup_unroutes n (c_Id c) abandoned @
                                        [CircuitCreated (c_Id c), DialSucceeded (rt_Id t)])))"
  by pat_completeness auto

termination
  by (relation "measure (\<lambda>(opts, params, envs, cleanRank, attempt, _). unat (opt_CreateCircuitRetries opts) - attempt)") auto

declare create_loop.simps [simp del]

definition empty_path :: path where
  "empty_path = \<lparr>Nodes = [], Links = [], IngressId = '''', EgressId = '''', InitiatorLocalAddr = '''',
     InitiatorRemoteAddr = '''', TerminatorLocalAddr = '''', TerminatorRemoteAddr = ''''\<rparr>"

text \<open>The object that reserves the id while the circuit is built.\<close>

definition reserved_circuit :: "circuit_params \<Rightarrow> string \<Rightarrow> circuit" where
  "reserved_circuit params i =
     \<lparr>c_Id = i, c_ClientId = cid_Token (cp_ClientId params), c_ServiceId = snd (parseInstanceIdAndService (cp_ServiceId params)),
      c_Terminator = None, c_Path = empty_path, c_Tags = [], c_Rerouting = False, c_PeerData = [], c_CreatedAt = 0, c_UpdatedAt = 0\<rparr>"

definition CreateCircuit ::
  "network_options \<Rightarrow> circuit_params \<Rightarrow> string option \<Rightarrow> (nat \<Rightarrow> attempt_env) \<Rightarrow> (string \<Rightarrow> nat) \<Rightarrow> circuit cmap \<Rightarrow>
   ((create_error + circuit) \<times> circuit cmap \<times> circuit_effect list) option" where
  "CreateCircuit opts params uuid envs cleanRank cs =
     (case (if cp_CircuitId params = '''' then uuid else Some (cp_CircuitId params)) of
        None \<Rightarrow> Some (Inl ErrIdGeneration, cs, [CircuitFailed CircuitFailureIdGenerationError])
      | Some i \<Rightarrow>
          (case Reserve (reserved_circuit params i) cs of
             (_, False) \<Rightarrow> Some (Inl ErrIdInUse, cs, [])
           | (cs1, True) \<Rightarrow>
               (case create_loop opts params envs cleanRank 0 [] (newRouteSender i) (reserved_circuit params i) of
                  None \<Rightarrow> None
                | Some (Inl e, c', es) \<Rightarrow> Some (Inl e, Circuit_Remove c' cs1, es)
                | Some (Inr _, c', es) \<Rightarrow> Some (Inr c', Circuit_Store c' cs1, es))))"

section \<open>Path selection\<close>

text \<open>A network state that a controller can reach, and a network in which path costs cannot overflow.\<close>

definition reachable_net :: "net \<Rightarrow> bool" where
  "reachable_net n \<longleftrightarrow> (\<exists>n0 ops. net_start n0 \<and> n = foldl net_step n0 ops)"

lemma reachable_net_inv: "reachable_net n \<Longrightarrow> net_inv {} n"
  unfolding reachable_net_def using net_run_inv [OF net_start_inv] by blast

definition searchable :: "attempt_env \<Rightarrow> u16 \<Rightarrow> nat option \<Rightarrow> terminator \<Rightarrow> bool" where
  "searchable env mrc src t \<longleftrightarrow> (\<exists>dst. GetConnected (ae_net env) (t_Router t) = Some dst \<and>
     (\<forall>qr nr. \<exists>p c. shortestPath qr nr (ae_net env) mrc src (Some dst) = Some (Inr (p, c))))"

definition path_entry :: "attempt_env \<Rightarrow> u16 \<Rightarrow> nat option \<Rightarrow> string \<Rightarrow> nat list \<times> u32 \<Rightarrow> bool" where
  "path_entry env mrc src rid pk \<longleftrightarrow> (\<exists>dst qr nr c. GetConnected (ae_net env) rid = Some dst \<and>
     shortestPath qr nr (ae_net env) mrc src (Some dst) = Some (Inr (fst pk, c)) \<and> pk = newPathAndCost (fst pk) c)"

definition sel_ok ::
  "attempt_env \<Rightarrow> u16 \<Rightarrow> nat option \<Rightarrow> string \<Rightarrow> terminator set \<Rightarrow> select_state \<Rightarrow> bool" where
  "sel_ok env mrc src inst seen st \<longleftrightarrow>
     (\<forall>rid pk. map_of (sel_paths st) rid = Some pk \<longrightarrow> path_entry env mrc src rid pk) \<and>
     (\<forall>w \<in> set (sel_weighted st). rt_Terminator w \<in> seen \<and> t_InstanceId (rt_Terminator w) = inst \<and>
        (\<exists>pk. map_of (sel_paths st) (t_Router (rt_Terminator w)) = Some pk \<and> w = weigh env (rt_Terminator w) (snd pk))) \<and>
     (\<forall>t \<in> seen. t_InstanceId t = inst \<and> searchable env mrc src t \<longrightarrow> (\<exists>w \<in> set (sel_weighted st). rt_Terminator w = t))"

lemma weigh_terminator [simp]: "rt_Terminator (weigh env t k) = t"
  by (simp add: weigh_def Let_def)

lemma sel_ok_skip:
  assumes "sel_ok env mrc src inst seen st" and "\<not> (t_InstanceId t = inst \<and> searchable env mrc src t)"
    and "sel_paths st' = sel_paths st" and "sel_weighted st' = sel_weighted st"
  shows "sel_ok env mrc src inst (insert t seen) st'"
  using assms unfolding sel_ok_def by auto

lemma sel_ok_known:
  assumes ok: "sel_ok env mrc src inst seen st" and t: "t_InstanceId t = inst" "map_of (sel_paths st) (t_Router t) = Some pk"
  shows "sel_ok env mrc src inst (insert t seen) (st\<lparr>sel_weighted := sel_weighted st @ [weigh env t (snd pk)]\<rparr>)"
  using ok t unfolding sel_ok_def by (auto simp del: split_paired_Ex split_paired_All)

lemma sel_ok_new:
  assumes ok: "sel_ok env mrc src inst seen st" and t: "t_InstanceId t = inst" "map_of (sel_paths st) (t_Router t) = None"
    and pk: "path_entry env mrc src (t_Router t) pk"
  shows "sel_ok env mrc src inst (insert t seen)
    (st\<lparr>sel_paths := AList.update (t_Router t) pk (sel_paths st), sel_weighted := sel_weighted st @ [weigh env t (snd pk)]\<rparr>)"
proof -
  let ?m = "map_of (AList.update (t_Router t) pk (sel_paths st))"
  have m: "?m rid = (if rid = t_Router t then Some pk else map_of (sel_paths st) rid)" for rid
    by (simp add: update_conv')
  have "\<exists>pk'. ?m (t_Router (rt_Terminator w)) = Some pk' \<and> w = weigh env (rt_Terminator w) (snd pk')"
    if w: "w \<in> set (sel_weighted st)" for w
  proof -
    obtain pk' where "map_of (sel_paths st) (t_Router (rt_Terminator w)) = Some pk'" "w = weigh env (rt_Terminator w) (snd pk')"
      using ok w unfolding sel_ok_def by blast
    moreover from this have "t_Router (rt_Terminator w) \<noteq> t_Router t" using t(2) by auto
    ultimately show ?thesis using m by auto
  qed
  then show ?thesis
    using ok t pk unfolding sel_ok_def by (auto simp: m simp del: split_paired_Ex split_paired_All)
qed

lemma newPathAndCost_fst [simp]: "fst (newPathAndCost p c) = p"
  by (simp add: newPathAndCost_def)

lemma path_entryI:
  assumes "GetConnected (ae_net env) rid = Some dst" and "shortestPath qr nr (ae_net env) mrc src (Some dst) = Some (Inr (p, c))"
  shows "path_entry env mrc src rid (newPathAndCost p c)"
  unfolding path_entry_def newPathAndCost_fst using assms by blast

lemma searchable_fails:
  assumes "shortestPath qr nr (ae_net env) mrc src (Some dst) = Some (Inl e)" and "GetConnected (ae_net env) (t_Router t) = Some dst"
  shows "\<not> searchable env mrc src t"
  using assms unfolding searchable_def by (metis option.inject sum.distinct(1))

lemma select_loop_ok:
  assumes "select_loop env mrc src inst i ts st = Some st'" and "sel_ok env mrc src inst seen st"
  shows "sel_ok env mrc src inst (seen \<union> set ts) st'"
  using assms
proof (induction env mrc src inst i ts st arbitrary: seen rule: select_loop.induct)
  case (1 env mrc src inst i st)
  then show ?case by simp
next
  case (2 env mrc src inst i t ts st)
  have un: "seen \<union> set (t # ts) = insert t seen \<union> set ts" by simp
  show ?case
  proof (cases "t_InstanceId t = inst")
    case False
    then show ?thesis using 2(1) [OF False] 2(6) sel_ok_skip [OF 2(7), of t st] unfolding un by (simp del: Un_insert_left)
  next
    case inst: True
    show ?thesis
    proof (cases "map_of (sel_paths st) (t_Router t)")
      case (Some pk)
      obtain p k where pk: "pk = (p, k)" by (rule prod.exhaust)
      from sel_ok_known [OF 2(7) inst Some] show ?thesis
        using 2(5) 2(6) inst Some pk unfolding un by (simp del: Un_insert_left)
    next
      case none: None
      show ?thesis
      proof (cases "GetConnected (ae_net env) (t_Router t)")
        case None
        then have "\<not> searchable env mrc src t" by (simp add: searchable_def)
        then have "sel_ok env mrc src inst (insert t seen) (st\<lparr>sel_offline := True\<rparr>)"
          by (intro sel_ok_skip [OF 2(7)]) simp_all
        then show ?thesis using 2(2) 2(6) inst none None unfolding un by (simp del: Un_insert_left)
      next
        case (Some dst)
        let ?sp = "shortestPath (fst (ae_ranks env i)) (snd (ae_ranks env i)) (ae_net env) mrc src (Some dst)"
        show ?thesis
        proof (cases ?sp)
          case None
          then show ?thesis using 2(6) inst none Some by simp
        next
          case sp: (Some r)
          show ?thesis
          proof (cases r)
            case (Inl e)
            then have "\<not> searchable env mrc src t" using searchable_fails sp Some by blast
            then have "sel_ok env mrc src inst (insert t seen) (st\<lparr>sel_pathError := True\<rparr>)"
              by (intro sel_ok_skip [OF 2(7)]) simp_all
            then show ?thesis using 2(3) 2(6) inst none Some sp Inl unfolding un by (simp del: Un_insert_left)
          next
            case (Inr pc)
            obtain p c where pc: "pc = (p, c)" by (rule prod.exhaust)
            have "path_entry env mrc src (t_Router t) (newPathAndCost p c)"
              using path_entryI [OF Some] sp Inr pc by blast
            from sel_ok_new [OF 2(7) inst none this] show ?thesis
              using 2(4) 2(6) inst none Some sp Inr pc unfolding un by (simp add: Let_def del: Un_insert_left)
          qed
        qed
      qed
    qed
  qed
qed

lemma shortestPath_returns:
  assumes "cost_bounded n"
  shows "shortestPath qr nr n m src (Some dst) \<noteq> None"
proof (cases src)
  case None
  then show ?thesis by (simp add: shortestPath_def)
next
  case (Some s)
  then show ?thesis using shortestPath_total [OF assms, of qr nr m s dst] by auto
qed

lemma select_loop_returns:
  assumes "cost_bounded (ae_net env)"
  shows "select_loop env mrc src inst i ts st \<noteq> None"
  using assms
proof (induction env mrc src inst i ts st rule: select_loop.induct)
  case (2 env mrc src inst i t ts st)
  show ?case
  proof (cases "t_InstanceId t = inst \<and> map_of (sel_paths st) (t_Router t) = None \<and> GetConnected (ae_net env) (t_Router t) \<noteq> None")
    case False
    then show ?thesis using 2 by (auto split: option.split)
  next
    case True
    then obtain dst where c: "GetConnected (ae_net env) (t_Router t) = Some dst" by blast
    obtain r where r: "shortestPath (fst (ae_ranks env i)) (snd (ae_ranks env i)) (ae_net env) mrc src (Some dst) = Some r"
      using shortestPath_returns [OF 2(6)] by blast
    show ?thesis
    proof (cases r)
      case (Inl e)
      then show ?thesis using 2(3) 2(6) True c r by auto
    next
      case (Inr pc)
      obtain p k where "pc = (p, k)" by (rule prod.exhaust)
      then show ?thesis using 2(4) 2(6) True c r Inr by (auto simp: Let_def)
    qed
  qed
qed simp

lemma weigh_cost:
  assumes "0 \<le> c" and "c < maxInt32"
  shows "rt_RouteCost (weigh env t (snd (newPathAndCost p c))) =
      GetBiasedCost (t_Precedence t)
        (of_nat (unat (t_Cost t) + unat (GetDynamicCost (ae_costs env) (t_Id t)) + nat (min c 1048576))) \<and>
    unat (t_Cost t) + unat (GetDynamicCost (ae_costs env) (t_Id t)) + nat (min c 1048576) < 4294967296"
proof -
  let ?a = "t_Cost t" and ?b = "GetDynamicCost (ae_costs env) (t_Id t)"
  have w: "(ucast (x :: u16) :: u32) = of_nat (unat x)" for x by simp
  have "nat (min c 1048576) \<le> 1048576" by simp
  then have "unat ?a + unat ?b + nat (min c 1048576) < 4294967296"
    using unat_u16_less [of ?a] unat_u16_less [of ?b] by linarith
  moreover have "(of_int (if c > 2 ^ 20 then 2 ^ 20 else c) :: u32) = of_nat (nat (min c 1048576))"
    using assms(1) by (auto simp: min_def)
  ultimately show ?thesis by (simp add: weigh_def newPathAndCost_def Let_def w del: of_nat_unat)
qed

lemma weigh_costed: "t_Precedence t \<in> set all_precedences \<Longrightarrow> costed (weigh env t k)"
  using unat_GetBiasedCost [of "t_Precedence t"] band_bounds [of "t_Precedence t"]
  by (simp add: costed_def weigh_def Let_def word_le_nat_alt)

lemma searchable_route:
  assumes cb: "cost_bounded (ae_net env)" and d: "GetConnected (ae_net env) (t_Router u) = Some d"
    and q: "route_between (ae_net env) (current_instance (ae_net env) s) (current_instance (ae_net env) d) q"
      "weight (edge_cost (ae_net env) mrc (current_instance (ae_net env) s) (current_instance (ae_net env) d)) q < maxInt32"
  shows "searchable env mrc (Some s) u"
proof (cases "current_instance (ae_net env) s = current_instance (ae_net env) d")
  case True
  then show ?thesis unfolding searchable_def using d by (auto simp: shortestPath_def)
next
  case False
  have "\<exists>p c. shortestPath qr nr (ae_net env) mrc (Some s) (Some d) = Some (Inr (p, c))" for qr nr
    using shortestPath_result [OF cb refl refl False, of qr nr mrc] q by (force split: sum.splits prod.splits)
  then show ?thesis unfolding searchable_def using d by blast
qed

text \<open>What the path of a selected terminator is: a cheapest route to the router that hosts it.\<close>

definition chosen_path :: "attempt_env \<Rightarrow> u16 \<Rightarrow> nat \<Rightarrow> string \<Rightarrow> nat list \<Rightarrow> int \<Rightarrow> bool" where
  "chosen_path env mrc s rid p c \<longleftrightarrow>
     (\<exists>d qr nr. GetConnected (ae_net env) rid = Some d \<and>
        shortestPath qr nr (ae_net env) mrc (Some s) (Some d) = Some (Inr (p, c)))"

lemma selectPath_cases:
  assumes sel: "selectPath env mrc src client svc inst = Some (Inr (t, p, pd))"
  obtains st strategy k where "sel_ok env mrc src inst (set (svc_Terminators svc)) st"
    and "Select strategy (Some client) (sort_key rt_RouteCost (range_order (ae_sortRank env) (sel_weighted st))) = Some (t, pd)"
    and "map_of (sel_paths st) (t_Router (rt_Terminator t)) = Some (p, k)"
proof -
  let ?st0 = "\<lparr>sel_paths = [], sel_weighted = [], sel_offline = False, sel_pathError = False\<rparr>"
  have ok0: "sel_ok env mrc src inst {} ?st0" by (simp add: sel_ok_def)
  obtain st where st: "select_loop env mrc src inst 0 (svc_Terminators svc) ?st0 = Some st"
    using sel unfolding selectPath_def by (cases "select_loop env mrc src inst 0 (svc_Terminators svc) ?st0") simp_all
  have "sel_ok env mrc src inst (set (svc_Terminators svc)) st" using select_loop_ok [OF st ok0] by simp
  moreover obtain strategy k where
    "Select strategy (Some client) (sort_key rt_RouteCost (range_order (ae_sortRank env) (sel_weighted st))) = Some (t, pd)"
    "map_of (sel_paths st) (t_Router (rt_Terminator t)) = Some (p, k)"
    using sel st unfolding selectPath_def by (auto split: if_splits option.splits)
  ultimately show thesis using that by blast
qed

lemma selectPath_chosen:
  assumes sel: "selectPath env mrc (Some s) client svc inst = Some (Inr (t, p, pd))"
  shows "rt_Terminator t \<in> set (svc_Terminators svc) \<and> t_InstanceId (rt_Terminator t) = inst \<and>
    (\<exists>c. chosen_path env mrc s (t_Router (rt_Terminator t)) p c \<and> t = weigh env (rt_Terminator t) (snd (newPathAndCost p c)))"
proof -
  obtain st strategy k where ok: "sel_ok env mrc (Some s) inst (set (svc_Terminators svc)) st"
    and S: "Select strategy (Some client) (sort_key rt_RouteCost (range_order (ae_sortRank env) (sel_weighted st))) = Some (t, pd)"
    and pk: "map_of (sel_paths st) (t_Router (rt_Terminator t)) = Some (p, k)"
    by (rule selectPath_cases [OF sel])
  have mem: "t \<in> set (sel_weighted st)" using any.select_member [OF S] by simp
  have entry: "path_entry env mrc (Some s) (t_Router (rt_Terminator t)) (p, k)" using ok pk unfolding sel_ok_def by blast
  have "t = weigh env (rt_Terminator t) k" using ok mem pk unfolding sel_ok_def by force
  with entry have "\<exists>c. chosen_path env mrc s (t_Router (rt_Terminator t)) p c \<and> t = weigh env (rt_Terminator t) (snd (newPathAndCost p c))"
    unfolding path_entry_def chosen_path_def fst_conv by (metis snd_conv)
  moreover have "rt_Terminator t \<in> set (svc_Terminators svc)" "t_InstanceId (rt_Terminator t) = inst"
    using ok mem unfolding sel_ok_def by blast+
  ultimately show ?thesis by blast
qed

lemma selectPath_precedence:
  assumes sel: "selectPath env mrc src client svc inst = Some (Inr (t, p, pd))"
    and prec: "\<forall>u \<in> set (svc_Terminators svc). t_Precedence u \<in> set all_precedences"
    and u: "u \<in> set (svc_Terminators svc)" "t_InstanceId u = inst" "searchable env mrc src u"
  shows "prec_minCost (t_Precedence (rt_Terminator t)) \<le> prec_minCost (t_Precedence u)"
proof -
  obtain st strategy k where ok: "sel_ok env mrc src inst (set (svc_Terminators svc)) st"
    and S: "Select strategy (Some client) (sort_key rt_RouteCost (range_order (ae_sortRank env) (sel_weighted st))) = Some (t, pd)"
    and "map_of (sel_paths st) (t_Router (rt_Terminator t)) = Some (p, k)"
    by (rule selectPath_cases [OF sel])
  let ?ts = "sort_key rt_RouteCost (range_order (ae_sortRank env) (sel_weighted st))"
  have "costed w" if "w \<in> set ?ts" for w
  proof -
    have "w \<in> set (sel_weighted st)" using that by simp
    then obtain k' where w: "w = weigh env (rt_Terminator w) k'" "rt_Terminator w \<in> set (svc_Terminators svc)"
      using ok unfolding sel_ok_def by blast
    have "t_Precedence (rt_Terminator w) \<in> set all_precedences" using prec w(2) by blast
    then show ?thesis by (subst w(1)) (rule weigh_costed)
  qed
  moreover obtain w where "w \<in> set (sel_weighted st)" "rt_Terminator w = u" using ok u unfolding sel_ok_def by blast
  ultimately show ?thesis using any.best_precedence [OF S, of w] by simp
qed

lemma selectPath_returns:
  assumes "cost_bounded (ae_net env)"
  shows "selectPath env mrc src client svc inst \<noteq> None"
proof -
  let ?st0 = "\<lparr>sel_paths = [], sel_weighted = [], sel_offline = False, sel_pathError = False\<rparr>"
  have ok0: "sel_ok env mrc src inst {} ?st0" by (simp add: sel_ok_def)
  obtain st where st: "select_loop env mrc src inst 0 (svc_Terminators svc) ?st0 = Some st"
    using select_loop_returns [OF assms] by blast
  have ok: "sel_ok env mrc src inst (set (svc_Terminators svc)) st" using select_loop_ok [OF st ok0] by simp
  have "map_of (sel_paths st) (t_Router (rt_Terminator t)) \<noteq> None"
    if "Select strategy (Some client) (sort_key rt_RouteCost (range_order (ae_sortRank env) (sel_weighted st))) = Some (t, pd)"
    for strategy t pd
    using any.select_member [OF that] ok unfolding sel_ok_def by fastforce
  from this [THEN notE] show ?thesis unfolding selectPath_def st by (auto split: option.split)
qed

lemma GetConnected_id:
  assumes "net_inv {} n" and "GetConnected n i = Some r"
  shows "router_id n r = i" and "current_instance n r = r"
proof -
  show "router_id n r = i" using assms unfolding net_inv_def conn_ok_def GetConnected_def by blast
  then show "current_instance n r = r" using assms(2) by (simp add: current_instance_def)
qed

lemma chosen_path_ends:
  assumes "net_inv {} (ae_net env)" and "cost_bounded (ae_net env)" and "chosen_path env mrc s rid p c"
  shows "p \<noteq> [] \<and> distinct p \<and> hd p = current_instance (ae_net env) s \<and> router_id (ae_net env) (last p) = rid \<and>
    GetConnected (ae_net env) rid = Some (last p) \<and> 0 \<le> c \<and> c < maxInt32"
proof -
  obtain d qr nr where d: "GetConnected (ae_net env) rid = Some d"
    and r: "shortestPath qr nr (ae_net env) mrc (Some s) (Some d) = Some (Inr (p, c))"
    using assms(3) unfolding chosen_path_def by blast
  note F = shortestPath_found [OF assms(2) r]
  have "0 \<le> c"
    using F net_graph.weight_nonneg [of "(ae_net env, mrc, current_instance (ae_net env) s, current_instance (ae_net env) d)"] assms(2)
    by simp
  then show ?thesis using F GetConnected_id [OF assms(1) d] d by simp
qed

lemma selectPath_source:
  assumes sel: "selectPath env mrc src client svc inst = Some (Inr (t, p, pd))"
  obtains s where "src = Some s"
proof (cases src)
  case None
  obtain st strategy k where ok: "sel_ok env mrc src inst (set (svc_Terminators svc)) st"
    and "Select strategy (Some client) (sort_key rt_RouteCost (range_order (ae_sortRank env) (sel_weighted st))) = Some (t, pd)"
    and pk: "map_of (sel_paths st) (t_Router (rt_Terminator t)) = Some (p, k)"
    by (rule selectPath_cases [OF sel])
  have "path_entry env mrc src (t_Router (rt_Terminator t)) (p, k)" using ok pk unfolding sel_ok_def by blast
  then show ?thesis using None by (auto simp: path_entry_def shortestPath_def)
qed (use that in blast)

section \<open>One attempt\<close>

lemma dress_messages_created:
  assumes "attempt \<noteq> SmartRerouteAttempt"
  shows "\<exists>rms. dress_messages data tags (CreateRouteMessages n p attempt c t rem) = Some rms \<and>
    length rms = Suc (length (Links p)) \<and>
    (\<forall>i < length rms. let m = CreateRouteMessages n p attempt c t rem ! i in
       rms ! i = m\<lparr>Tags := tags, Egress := map_option (\<lambda>e. e\<lparr>PeerData := data\<rparr>) (Egress m)\<rparr>)"
proof -
  let ?L = "length (Links p)" and ?rms = "CreateRouteMessages n p attempt c t rem"
  let ?h = "hop_message n p attempt c t (of_int rem)"
  have len: "length ?rms = Suc ?L" and nth: "\<And>i. i \<le> ?L \<Longrightarrow> ?rms ! i = ?h i"
    unfolding CreateRouteMessages_map by (simp_all del: upt_Suc)
  have "?rms \<noteq> []" using len by auto
  then have last: "last ?rms = ?h ?L" using len nth [of ?L] by (simp add: last_conv_nth)
  have eg: "Egress (?h i) = (if i = ?L then Some (terminator_egress p t) else None)" for i
    using assms by (simp add: hop_message_def Let_def)
  have ne: "?rms \<noteq> []" using len by auto
  have "dress_messages data tags ?rms = Some (map (\<lambda>m. m\<lparr>Tags := tags\<rparr>)
      (?rms[?L := (?h ?L)\<lparr>Egress := map_option (\<lambda>e. e\<lparr>PeerData := data\<rparr>) (Egress (?h ?L))\<rparr>]))"
    unfolding dress_messages_def last len using ne eg by simp
  moreover have "Egress (?h i) = None" if "i \<noteq> ?L" for i using that eg by simp
  ultimately show ?thesis by (auto simp: len nth nth_list_update Let_def)
qed

text \<open>
  A path with one link per hop, each the cheapest of the network. If its routers are connected, the links
  really join them.
\<close>

definition path_linked :: "net \<Rightarrow> path \<Rightarrow> bool" where
  "path_linked n p \<longleftrightarrow> Nodes p \<noteq> [] \<and> distinct (Nodes p) \<and> Suc (length (Links p)) = length (Nodes p) \<and>
     (\<forall>i < length (Links p). LeastExpensiveLink n (Nodes p ! i) (Nodes p ! Suc i) = Some (Links p ! i)) \<and>
     (set (Nodes p) \<subseteq> Collect (current n) \<longrightarrow> path_ok n p)"

text \<open>The network an attempt found has lost the links between two routers while the attempt was made.\<close>

definition lost_link :: "attempt_env \<Rightarrow> bool" where
  "lost_link env \<longleftrightarrow> (\<exists>a b. LeastExpensiveLink (ae_net env) a b \<noteq> None \<and> LeastExpensiveLink (ae_linkNet env) a b = None)"

lemma links_between_hops:
  assumes "links_between n ns = Some ls" and "ns \<noteq> []"
  shows "Suc (length ls) = length ns \<and> (\<forall>i < length ls. LeastExpensiveLink n (ns ! i) (ns ! Suc i) = Some (ls ! i))"
  using assms
proof (induction n ns arbitrary: ls rule: links_between.induct)
  case (1 n a b nodes)
  from 1(2) obtain l ls' where l: "LeastExpensiveLink n a b = Some l" and r: "links_between n (b # nodes) = Some ls'" "ls = l # ls'"
    by (auto split: option.splits)
  have "i < length ls \<Longrightarrow> LeastExpensiveLink n ((a # b # nodes) ! i) ((a # b # nodes) ! Suc i) = Some (ls ! i)" for i
    using 1(1) [OF l r(1)] l r(2) by (cases i) simp_all
  then show ?case using 1(1) [OF l r(1)] r(2) by simp
qed auto

lemma linked_path:
  assumes inv: "net_inv {} n" and ns: "ns \<noteq> []" "distinct ns" and q: "CreatePathWithNodes u1 u2 n ns = Inr q"
  shows "Nodes q = ns \<and> path_linked n q"
proof -
  obtain i e where u: "u1 = Some i" "u2 = Some e" using q by (auto simp: CreatePathWithNodes_def split: option.splits)
  define p where "p = \<lparr>Nodes = ns, Links = [], IngressId = i, EgressId = e, InitiatorLocalAddr = '''', InitiatorRemoteAddr = '''',
      TerminatorLocalAddr = '''', TerminatorRemoteAddr = ''''\<rparr>"
  have p: "Nodes p = ns" "Links p = []" by (simp_all add: p_def)
  have s: "setLinks n p = Inr q" using q by (simp add: CreatePathWithNodes_def u p_def [symmetric] split: sum.splits)
  then obtain ls where ls: "links_between n ns = Some ls" "q = p\<lparr>Links := ls\<rparr>"
    by (auto simp: setLinks_def p split: option.splits)
  note H = links_between_hops [OF ls(1) ns(1)]
  have hops: "LeastExpensiveLink n (Nodes p ! i) (Nodes p ! Suc i) \<noteq> None" if "Suc i < length (Nodes p)" for i
    using H that p by simp
  have "path_ok n q" if cur: "set ns \<subseteq> Collect (current n)"
  proof -
    obtain ls' where "setLinks n p = Inr (p\<lparr>Links := ls'\<rparr>)" "path_ok n (p\<lparr>Links := ls'\<rparr>)"
      using setLinks_complete [OF inv _ _ p(2) _ hops] ns cur unfolding p by blast
    then show ?thesis using s by simp
  qed
  then show ?thesis unfolding path_linked_def ls(2) using H ns p by (simp add: ls(2))
qed

text \<open>What an attempt that reached the routers has built.\<close>

definition attempt_path :: "circuit_params \<Rightarrow> attempt_env \<Rightarrow> circuit \<Rightarrow> circuit \<Rightarrow> bool" where
  "attempt_path params env c c' \<longleftrightarrow>
     c_Id c' = c_Id c \<and> c_ServiceId c' = c_ServiceId c \<and> c_ClientId c' = c_ClientId c \<and>
     path_linked (ae_linkNet env) (c_Path c') \<and>
     (\<exists>s t. cp_SourceRouter params = Some s \<and> c_Terminator c' = Some t \<and>
        hd (Nodes (c_Path c')) = current_instance (ae_net env) s \<and>
        GetConnected (ae_net env) (t_Router (rt_Terminator t)) = Some (last (Nodes (c_Path c'))) \<and>
        (\<exists>svc. ae_service env = Some svc \<and> rt_Terminator t \<in> set (svc_Terminators svc) \<and>
           t_InstanceId (rt_Terminator t) = fst (parseInstanceIdAndService (cp_ServiceId params))))"

lemma missing_link_lost:
  assumes inv: "net_inv {} (ae_net env)" and cb: "cost_bounded (ae_net env)" and ch: "chosen_path env mrc s rid ns c"
    and e: "CreatePathWithNodes u1 u2 (ae_linkNet env) ns = Inl (PathFailure e)"
  shows "lost_link env"
proof -
  obtain d qr nr where r: "shortestPath qr nr (ae_net env) mrc (Some s) (Some d) = Some (Inr (ns, c))"
    using ch unfolding chosen_path_def by blast
  have ns: "ns \<noteq> []" using chosen_path_ends [OF inv cb ch] by blast
  from shortestPath_links [OF inv cb r, of "\<lparr>Nodes = ns, Links = [], IngressId = [], EgressId = [], InitiatorLocalAddr = [],
      InitiatorRemoteAddr = [], TerminatorLocalAddr = [], TerminatorRemoteAddr = []\<rparr>"]
  obtain ls where ls: "links_between (ae_net env) ns = Some ls" by (auto simp: setLinks_def split: option.splits)
  have "links_between (ae_linkNet env) ns = None"
    using e by (auto simp: CreatePathWithNodes_def setLinks_def split: option.splits)
  then obtain i where "Suc i < length ns" "LeastExpensiveLink (ae_linkNet env) (ns ! i) (ns ! Suc i) = None"
    using links_between_complete [of ns "ae_linkNet env"] ns by fastforce
  then show ?thesis using links_between_hops [OF ls ns] unfolding lost_link_def by (metis Suc_less_eq option.simps(3))
qed

text \<open>
  The network of an attempt: reachable states, each of which follows from the one before by operations
  of the network.
\<close>

definition env_ok :: "attempt_env \<Rightarrow> bool" where
  "env_ok env \<longleftrightarrow> reachable_net (ae_net env) \<and> cost_bounded (ae_net env) \<and>
     (\<exists>ops. ae_linkNet env = foldl net_step (ae_net env) ops) \<and> (\<exists>ops. ae_doneNet env = foldl net_step (ae_linkNet env) ops)"

lemma env_ok_inv:
  assumes "env_ok env"
  shows "net_inv {} (ae_net env)" and "cost_bounded (ae_net env)" and "net_inv {} (ae_linkNet env)" and "net_inv {} (ae_doneNet env)"
    and "router_id (ae_linkNet env) r = router_id (ae_net env) r" and "router_id (ae_doneNet env) r = router_id (ae_net env) r"
  using assms reachable_net_inv net_run_inv net_run_id unfolding env_ok_def by metis+

text \<open>
  An attempt returns. It ends because a link of the selected path is missing only if the network has lost
  it since. When the routers were reached, they have answered for this attempt if it is successful.
\<close>

definition attempt_ok :: "circuit_params \<Rightarrow> attempt_env \<Rightarrow> u32 \<Rightarrow> circuit \<Rightarrow> attempt_result \<Rightarrow> bool" where
  "attempt_ok params env attempt c res \<longleftrightarrow>
     (case res of
        Abort e c' es \<Rightarrow> c_Id c' = c_Id c \<and> (e = ErrCircuit CircuitFailurePathMissingLink \<longrightarrow> lost_link env) \<and> (\<forall>k. e \<noteq> ErrRetriesExceeded k) \<and>
          (\<forall>r i now. SentUnroute r i now \<notin> set es)
      | Failed_attempt cause cl rs' c' es \<Rightarrow> attempt_path params env c c' \<and> (\<forall>r i now. SentUnroute r i now \<notin> set es)
      | Routed t peerData strategyData c' es \<Rightarrow> attempt_path params env c c' \<and> peerData \<noteq> None \<and>
          (\<forall>r i now. SentUnroute r i now \<notin> set es) \<and>
          (\<forall>r \<in> set (Nodes (c_Path c')). list_ex (confirms attempt (router_id (ae_linkNet env) r)) (ae_statuses env)))"

lemma selectPath_failure:
  "selectPath env mrc src client svc inst = Some (Inl e) \<Longrightarrow> e \<noteq> CircuitFailurePathMissingLink"
  by (auto simp: selectPath_def split: option.splits if_splits)

lemma selected_attempt_path:
  assumes env: "env_ok env" and svc: "ae_service env = Some svc"
    and inst: "fst (parseInstanceIdAndService (cp_ServiceId params)) = inst" and s: "cp_SourceRouter params = Some s"
    and sel: "selectPath env mrc (Some s) client svc inst = Some (Inr (t, ns, sd))"
    and q: "Nodes q = ns" "path_linked (ae_linkNet env) q"
  shows "attempt_path params env c (c\<lparr>c_Terminator := Some t, c_Path := q, c_Tags := tags\<rparr>) \<and>
    t_Router (rt_Terminator t) \<in> router_id (ae_linkNet env) ` set (Nodes q)"
proof -
  note inv = env_ok_inv(1,2) [OF env]
  obtain k where T: "rt_Terminator t \<in> set (svc_Terminators svc)" "t_InstanceId (rt_Terminator t) = inst"
    and ch: "chosen_path env mrc s (t_Router (rt_Terminator t)) ns k"
    using selectPath_chosen [OF sel] by blast
  note E = chosen_path_ends [OF inv ch]
  have "last ns \<in> set ns" using E by simp
  then have "t_Router (rt_Terminator t) \<in> router_id (ae_linkNet env) ` set ns"
    using E env_ok_inv(5) [OF env] by (metis imageI)
  then show ?thesis unfolding attempt_path_def using T E svc inst s q by simp
qed

lemma create_attempt_routes:
  assumes env: "env_ok env" and a: "attempt \<noteq> SmartRerouteAttempt"
    and svc: "ae_service env = Some svc" and ps: "parseInstanceIdAndService (cp_ServiceId params) = (inst, sid)"
    and s: "cp_SourceRouter params = Some s"
    and sel: "selectPath env (opt_MinRouterCost opts) (Some s) (cp_ClientId params) svc inst = Some (Inr (t, ns, sd))"
    and q: "CreatePathWithNodes (ae_uuid1 env) (ae_uuid2 env) (ae_linkNet env) ns = Inr q" "Nodes q = ns" "path_linked (ae_linkNet env) q"
  shows "\<exists>res. create_attempt opts params env attempt rs c = Some res \<and> attempt_ok params env attempt c res"
proof -
  let ?c = "c\<lparr>c_Terminator := Some t, c_Path := q, c_Tags := cp_Tags params t\<rparr>"
  have path: "attempt_path params env c ?c" and tr: "t_Router (rt_Terminator t) \<in> router_id (ae_linkNet env) ` set (Nodes q)"
    using selected_attempt_path [OF env svc _ s sel q(2,3)] ps by simp_all
  obtain rms where rms: "dress_messages (cid_Data (cp_ClientId params)) (cp_Tags params t)
      (CreateRouteMessages (ae_linkNet env) q attempt (c_Id c) (rt_Terminator t) (ae_remaining env)) = Some rms"
    using dress_messages_created [OF a] by blast
  obtain rs' res effects where
    route: "sender_route (ae_linkNet env) attempt q rms (rt_Terminator t) (ae_statuses env) rs = (rs', res, effects)"
    by (rule prod_cases3)
  let ?sends = "map (\<lambda>(r, m). SentRoute r m) (snd (send_routes (ae_linkNet env) q rms rs))"
  have no: "SentUnroute r i now \<notin> set ?sends" for r i now by auto
  note unf = create_attempt_def ps svc s sel q(1) rms route Let_def
  show ?thesis
  proof (cases res)
    case (Inl f)
    obtain cause cl where "f = (cause, cl)" by (rule prod.exhaust)
    then show ?thesis using path no Inl by (auto simp: unf attempt_ok_def)
  next
    case (Inr pd)
    have "pd \<noteq> None" "\<forall>r \<in> set (Nodes q). list_ex (confirms attempt (router_id (ae_linkNet env) r)) (ae_statuses env)"
      using sender_route_success [OF route [unfolded Inr] tr] by (auto simp: list_ex_iff)
    then show ?thesis using path no Inr by (auto simp: unf attempt_ok_def)
  qed
qed

lemma create_attempt_ok:
  assumes env: "env_ok env" and a: "attempt \<noteq> SmartRerouteAttempt"
  shows "\<exists>res. create_attempt opts params env attempt rs c = Some res \<and> attempt_ok params env attempt c res"
proof -
  note inv = env_ok_inv(1) [OF env] and cb = env_ok_inv(2) [OF env]
  obtain inst sid where ps: "parseInstanceIdAndService (cp_ServiceId params) = (inst, sid)" by (rule prod.exhaust)
  show ?thesis
  proof (cases "ae_service env")
    case None
    then show ?thesis by (simp add: create_attempt_def ps attempt_ok_def Let_def)
  next
    case svc: (Some svc)
    let ?sel = "selectPath env (opt_MinRouterCost opts) (cp_SourceRouter params) (cp_ClientId params) svc inst"
    obtain r where r: "?sel = Some r" using selectPath_returns [OF cb] by blast
    show ?thesis
    proof (cases r)
      case (Inl e)
      then show ?thesis using r svc selectPath_failure [of env _ _ _ svc inst e]
        by (simp add: create_attempt_def ps attempt_ok_def Let_def)
    next
      case (Inr tns)
      obtain t ns sd where tns: "tns = (t, ns, sd)" by (rule prod_cases3)
      have sel: "?sel = Some (Inr (t, ns, sd))" using r Inr tns by simp
      then obtain s where s: "cp_SourceRouter params = Some s" by (rule selectPath_source)
      obtain k where ch: "chosen_path env (opt_MinRouterCost opts) s (t_Router (rt_Terminator t)) ns k"
        using selectPath_chosen sel s by metis
      show ?thesis
      proof (cases "CreatePathWithNodes (ae_uuid1 env) (ae_uuid2 env) (ae_linkNet env) ns")
        case e: (Inl e)
        have "e = IdGenerationError \<or> lost_link env" using missing_link_lost [OF inv cb ch] e by (cases e) blast+
        then show ?thesis using sel svc e by (auto simp: create_attempt_def ps attempt_ok_def Let_def split: path_failure.split)
      next
        case q: (Inr q)
        have "ns \<noteq> []" "distinct ns" using chosen_path_ends [OF inv cb ch] by blast+
        then have "Nodes q = ns" "path_linked (ae_linkNet env) q" using linked_path [OF env_ok_inv(3) [OF env] _ _ q] by blast+
        from create_attempt_routes [OF env a svc ps s _ q this] sel s show ?thesis by simp
      qed
    qed
  qed
qed

section \<open>The attempts\<close>

definition no_unroute :: "circuit_effect list \<Rightarrow> bool" where
  "no_unroute es \<longleftrightarrow> (\<forall>r i now. SentUnroute r i now \<notin> set es)"

text \<open>A circuit that attempt \<open>k\<close> created: its path, the answers, and which routers are told to forget it.\<close>

definition created_by ::
  "circuit_params \<Rightarrow> attempt_env \<Rightarrow> u32 \<Rightarrow> circuit \<Rightarrow> circuit \<Rightarrow> circuit_effect list \<Rightarrow> bool" where
  "created_by params env k c c' es \<longleftrightarrow>
     attempt_path params env c c' \<and>
     (\<forall>r \<in> set (Nodes (c_Path c')). list_ex (confirms k (router_id (ae_linkNet env) r)) (ae_statuses env)) \<and>
     (\<forall>r i now. SentUnroute r i now \<in> set es \<longrightarrow>
        i = c_Id c \<and> router_id (ae_doneNet env) r \<notin> router_id (ae_doneNet env) ` set (Nodes (c_Path c'))) \<and>
     CircuitCreated (c_Id c) \<in> set es"

lemma created_by_later:
  assumes "created_by params env k c1 c' es'" and "attempt_path params env1 c c1" and "no_unroute es"
  shows "created_by params env k c c' (es @ es')"
  using assms unfolding created_by_def no_unroute_def attempt_path_def by auto

lemma finish_circuit_some:
  assumes "peerData \<noteq> None"
  shows "\<exists>c''. finish_circuit clientData peerData sd now c = Some c'' \<and> c_Id c'' = c_Id c \<and> c_ServiceId c'' = c_ServiceId c \<and>
    c_ClientId c'' = c_ClientId c \<and> c_Terminator c'' = c_Terminator c \<and>
    Nodes (c_Path c'') = Nodes (c_Path c) \<and> Links (c_Path c'') = Links (c_Path c)"
  using assms by (simp add: finish_circuit_def Let_def)

lemma attempt_path_cong:
  assumes "attempt_path params env c c1" and "c_Id c' = c_Id c1" and "c_ServiceId c' = c_ServiceId c1" and "c_ClientId c' = c_ClientId c1"
    and "c_Terminator c' = c_Terminator c1" and "Nodes (c_Path c') = Nodes (c_Path c1)" and "Links (c_Path c') = Links (c_Path c1)"
  shows "attempt_path params env c c'"
  using assms unfolding attempt_path_def path_linked_def path_ok_def by simp

lemma cleanup_unroutes_sent:
  assumes "net_inv {} n"
  shows "SentUnroute r i now \<in> set (cleanup_unroutes n c ids) \<longleftrightarrow>
    i = c \<and> now \<and> router_id n r \<in> set ids \<and> GetConnected n (router_id n r) = Some r"
proof -
  have "SentUnroute r i now \<in> set (cleanup_unroutes n c ids) \<longleftrightarrow> i = c \<and> now \<and> (\<exists>x \<in> set ids. GetConnected n x = Some r)"
    by (force simp: cleanup_unroutes_def split: option.splits)
  also have "(\<exists>x \<in> set ids. GetConnected n x = Some r) \<longleftrightarrow> router_id n r \<in> set ids \<and> GetConnected n (router_id n r) = Some r"
    using GetConnected_id(1) [OF assms] by blast
  finally show ?thesis .
qed

lemma created_by_routed:
  assumes "net_inv {} (ae_doneNet env)" and "attempt_ok params env k c (Routed t pd sd c1 es)"
    and "Nodes (c_Path c') = Nodes (c_Path c1)" and "attempt_path params env c c'"
    and "set abandoned \<inter> router_id (ae_doneNet env) ` set (Nodes (c_Path c1)) = {}"
  shows "created_by params env k c c'
    (es @ cleanup_unroutes (ae_doneNet env) (c_Id c) abandoned @ [CircuitCreated (c_Id c), DialSucceeded (rt_Id t)])"
  using assms unfolding created_by_def attempt_ok_def by (auto simp: cleanup_unroutes_sent)

lemma of_nat_attempt: "k < 99969996 \<Longrightarrow> (of_nat k :: u32) \<noteq> SmartRerouteAttempt"
  by (simp add: SmartRerouteAttempt_def word_unat_eq_iff unat_of_nat take_bit_nat_eq_self)

text \<open>What the attempts from number \<open>k\<close> on come to.\<close>

definition create_ok ::
  "circuit_params \<Rightarrow> (nat \<Rightarrow> attempt_env) \<Rightarrow> nat \<Rightarrow> circuit \<Rightarrow> (create_error + unit) \<Rightarrow> circuit \<Rightarrow> circuit_effect list \<Rightarrow> bool" where
  "create_ok params envs k c r c' es \<longleftrightarrow> c_Id c' = c_Id c \<and>
     (case r of
        Inl e \<Rightarrow> (e = ErrCircuit CircuitFailurePathMissingLink \<longrightarrow> (\<exists>j. lost_link (envs j))) \<and> (no_unroute es \<or> (\<exists>f. e = ErrRetriesExceeded f))
      | Inr _ \<Rightarrow> \<exists>j \<ge> k. created_by params (envs j) (of_nat j) c c' es)"

lemma create_ok_retry:
  assumes "create_ok params envs (Suc k) c1 r c' es'" and "attempt_path params env c c1" and "no_unroute es"
  shows "create_ok params envs k c r c' (es @ es')"
proof -
  have "no_unroute (es @ es') = no_unroute es'" using assms(3) by (auto simp: no_unroute_def)
  moreover have "c_Id c1 = c_Id c" using assms(2) by (simp add: attempt_path_def)
  moreover have "\<exists>j \<ge> k. created_by params (envs j) (of_nat j) c c' (es @ es')"
    if "\<exists>j \<ge> Suc k. created_by params (envs j) (of_nat j) c1 c' es'"
    using that created_by_later [OF _ assms(2,3)] Suc_leD by blast
  ultimately show ?thesis using assms(1) by (cases r) (auto simp: create_ok_def)
qed

lemma create_ok_routed:
  assumes inv: "net_inv {} (ae_doneNet (envs k))" and ok: "attempt_ok params (envs k) (of_nat k) c (Routed t pd sd c1 es)"
    and fin: "finish_circuit clientData pd sd now c1 = Some c'"
    and ab: "set abandoned \<inter> router_id (ae_doneNet (envs k)) ` set (Nodes (c_Path c1)) = {}"
  shows "create_ok params envs k c (Inr u) c'
    (es @ cleanup_unroutes (ae_doneNet (envs k)) (c_Id c) abandoned @ [CircuitCreated (c_Id c), DialSucceeded (rt_Id t)])"
proof -
  have path: "attempt_path params (envs k) c c1" and pd: "pd \<noteq> None" using ok by (simp_all add: attempt_ok_def)
  have same: "c_Id c' = c_Id c1" "c_ServiceId c' = c_ServiceId c1" "c_ClientId c' = c_ClientId c1" "c_Terminator c' = c_Terminator c1"
    "Nodes (c_Path c') = Nodes (c_Path c1)" "Links (c_Path c') = Links (c_Path c1)"
    using finish_circuit_some [OF pd, of clientData sd now c1] fin by auto
  note path' = attempt_path_cong [OF path same]
  have "c_Id c' = c_Id c" using path' by (simp add: attempt_path_def)
  then show ?thesis unfolding create_ok_def using created_by_routed [OF inv ok same(5) path' ab] by auto
qed

lemma create_loop_ok:
  assumes envs: "\<forall>k. env_ok (envs k)"
    and lim: "unat (opt_CreateCircuitRetries opts) \<le> 99969996" and k: "k < 99969996"
  shows "\<exists>r c' es. create_loop opts params envs cleanRank k cl rs c = Some (r, c', es) \<and> create_ok params envs k c r c' es"
  using k
proof (induction "unat (opt_CreateCircuitRetries opts) - k" arbitrary: k cl rs c rule: less_induct)
  case less
  have env: "env_ok (envs k)" using envs by blast
  obtain res where res: "create_attempt opts params (envs k) (of_nat k) rs c = Some res"
    and ok: "attempt_ok params (envs k) (of_nat k) c res"
    using create_attempt_ok [OF env of_nat_attempt [OF less(2)]] by blast
  note unf = create_loop.simps [of opts params envs cleanRank k cl rs c, unfolded Let_def res option.case]
  show ?case
  proof (cases res)
    case (Abort e c' es)
    then show ?thesis using ok by (auto simp: unf attempt_ok_def no_unroute_def create_ok_def)
  next
    case (Failed_attempt cause cl' rs' c' es)
    have path: "attempt_path params (envs k) c c'" and no: "no_unroute es"
      using ok Failed_attempt by (simp_all add: attempt_ok_def no_unroute_def)
    show ?thesis
    proof (cases "Suc k < unat (opt_CreateCircuitRetries opts)")
      case True
      then have "unat (opt_CreateCircuitRetries opts) - Suc k < unat (opt_CreateCircuitRetries opts) - k" "Suc k < 99969996"
        using lim by linarith+
      from less(1) [OF this, of "remdups (cl @ cl')" rs' c'] obtain r c'' es' where
        IH: "create_loop opts params envs cleanRank (Suc k) (remdups (cl @ cl')) rs' c' = Some (r, c'', es')"
          "create_ok params envs (Suc k) c' r c'' es'" by blast
      have "create_loop opts params envs cleanRank k cl rs c = Some (r, c'', es @ es')"
        unfolding unf Failed_attempt using True IH(1) by simp
      then show ?thesis using create_ok_retry [OF IH(2) path no] by blast
    next
      case False
      then show ?thesis unfolding unf Failed_attempt using path by (simp add: create_ok_def attempt_path_def)
    qed
  next
    case (Routed t pd sd c' es)
    have "pd \<noteq> None" using ok Routed by (simp add: attempt_ok_def)
    then obtain c'' where c'': "finish_circuit (cid_Data (cp_ClientId params)) pd sd (ae_now (envs k)) c' = Some c''"
      using finish_circuit_some by blast
    have "set (filter (\<lambda>i. i \<notin> router_id (ae_doneNet (envs k)) ` set (Nodes (c_Path c'))) (range_order cleanRank cl)) \<inter>
        router_id (ae_doneNet (envs k)) ` set (Nodes (c_Path c')) = {}" by auto
    from create_ok_routed [of envs k, OF env_ok_inv(4) [OF env] ok [unfolded Routed] c'' this] show ?thesis unfolding unf Routed using c'' by simp
  qed
qed

lemma Reserve_used: "map_of cs i = Some c \<Longrightarrow> Reserve (reserved_circuit params i) cs = (cs, False)"
  by (simp add: Reserve_def reserved_circuit_def cmap_set_if_absent_def)

lemma Reserve_free:
  "map_of cs i = None \<Longrightarrow> Reserve (reserved_circuit params i) cs = (AList.update i (reserved_circuit params i) cs, True)"
  by (simp add: Reserve_def reserved_circuit_def cmap_set_if_absent_def)

lemma create_ok_table:
  assumes ok: "create_ok params envs 0 (reserved_circuit params i) r c es" and free: "map_of cs i = None"
  shows "case r of
      Inl e \<Rightarrow> map_of (Circuit_Remove c (AList.update i (reserved_circuit params i) cs)) = map_of cs \<and>
        (e = ErrCircuit CircuitFailurePathMissingLink \<longrightarrow> (\<exists>k. lost_link (envs k)))
    | Inr u \<Rightarrow> map_of cs (c_Id c) = None \<and>
        map_of (Circuit_Store c (AList.update i (reserved_circuit params i) cs)) = (map_of cs)(c_Id c \<mapsto> c) \<and>
        (\<exists>k. created_by params (envs k) (of_nat k) (reserved_circuit params (c_Id c)) c es)"
proof -
  have id: "c_Id c = i" using ok by (simp add: create_ok_def reserved_circuit_def)
  show ?thesis
  proof (cases r)
    case (Inl e)
    then show ?thesis using ok free by (auto simp: id Circuit_Remove_def delete_conv' update_conv' create_ok_def)
  next
    case (Inr u)
    have "map_of (Circuit_Store c (AList.update i (reserved_circuit params i) cs)) = (map_of cs)(c_Id c \<mapsto> c)"
      by (simp add: id Circuit_Store_def update_conv')
    then show ?thesis using ok Inr free by (auto simp: id create_ok_def)
  qed
qed

section \<open>Properties\<close>

text \<open>
  C33. \<open>selectPath\<close> picks a terminator of the service with the requested instance id, on a connected
  router, together with a cheapest path from the source to that router. The cost it is weighed with is
  its static cost, its dynamic cost and the path cost capped at 2 ^ 20, without overflow, biased into the
  band of its precedence. No terminator of a better precedence could be reached: whenever another
  terminator with that instance id is on a connected router with a route below the limit of the search,
  its precedence is not better.
\<close>

theorem selectPath_best:
  assumes net: "reachable_net (ae_net env)" and cb: "cost_bounded (ae_net env)"
    and prec: "\<forall>u \<in> set (svc_Terminators svc). t_Precedence u \<in> set all_precedences"
    and sel: "selectPath env mrc (Some s) client svc inst = Some (Inr (t, p, pd))"
  shows "rt_Terminator t \<in> set (svc_Terminators svc) \<and> t_InstanceId (rt_Terminator t) = inst \<and>
    (\<exists>c. let n = ae_net env; tm = rt_Terminator t;
           unbiased = unat (t_Cost tm) + unat (GetDynamicCost (ae_costs env) (t_Id tm)) + nat (min c 1048576)
       in hd p = current_instance n s \<and> GetConnected n (t_Router tm) = Some (last p) \<and>
          c = weight (edge_cost n mrc (hd p) (last p)) p \<and> 
          (\<forall>q. route_between n (hd p) (last p) q \<longrightarrow> c \<le> weight (edge_cost n mrc (hd p) (last p)) q) \<and>
          rt_RouteCost t = GetBiasedCost (t_Precedence tm) (of_nat unbiased) \<and> unbiased < 4294967296) \<and>
    (\<forall>u d q. u \<in> set (svc_Terminators svc) \<and> t_InstanceId u = inst \<and> GetConnected (ae_net env) (t_Router u) = Some d \<and>
       route_between (ae_net env) (hd p) d q \<and> weight (edge_cost (ae_net env) mrc (hd p) d) q < maxInt32 \<longrightarrow>
       prec_minCost (t_Precedence (rt_Terminator t)) \<le> prec_minCost (t_Precedence u))"
proof -
  note inv = reachable_net_inv [OF net]
  obtain c where mem: "rt_Terminator t \<in> set (svc_Terminators svc)" "t_InstanceId (rt_Terminator t) = inst"
    and ch: "chosen_path env mrc s (t_Router (rt_Terminator t)) p c"
    and w: "t = weigh env (rt_Terminator t) (snd (newPathAndCost p c))"
    using selectPath_chosen [OF sel] by blast
  note E = chosen_path_ends [OF inv cb ch]
  obtain d qr nr where d: "GetConnected (ae_net env) (t_Router (rt_Terminator t)) = Some d"
    and r: "shortestPath qr nr (ae_net env) mrc (Some s) (Some d) = Some (Inr (p, c))"
    using ch unfolding chosen_path_def by blast
  have dl: "current_instance (ae_net env) d = last p" "current_instance (ae_net env) s = hd p"
    using d E GetConnected_id(2) [OF inv d] by auto
  have best: "prec_minCost (t_Precedence (rt_Terminator t)) \<le> prec_minCost (t_Precedence u)"
    if u: "u \<in> set (svc_Terminators svc)" "t_InstanceId u = inst" "GetConnected (ae_net env) (t_Router u) = Some d'"
      "route_between (ae_net env) (hd p) d' q" "weight (edge_cost (ae_net env) mrc (hd p) d') q < maxInt32" for u d' q
    using selectPath_precedence [OF sel prec u(1,2) searchable_route [OF cb u(3)]] u(4,5) GetConnected_id(2) [OF inv u(3)] dl by simp
  have cost: "rt_RouteCost t = rt_RouteCost (weigh env (rt_Terminator t) (snd (newPathAndCost p c)))" using w by simp
  have c: "c = weight (edge_cost (ae_net env) mrc (hd p) (last p)) p" using shortestPath_found [OF cb r] dl by simp
  have min: "\<forall>q. route_between (ae_net env) (hd p) (last p) q \<longrightarrow> c \<le> weight (edge_cost (ae_net env) mrc (hd p) (last p)) q"
    using shortestPath_total [OF cb, of qr nr mrc s d] unfolding r dl by simp
  have ends: "hd p = current_instance (ae_net env) s" "GetConnected (ae_net env) (t_Router (rt_Terminator t)) = Some (last p)"
    "0 \<le> c" "c < maxInt32" using E by blast+
  note W = weigh_cost [OF ends(3,4), of env "rt_Terminator t" p, folded cost]
  show ?thesis unfolding Let_def
    by (intro conjI mem exI [of _ c] ends(1,2) c min W [THEN conjunct1] W [THEN conjunct2]) (use best in blast)
qed

text \<open>
  C32. Creating a circuit always returns, also when the network changes during an attempt. If it fails,
  the circuit table is what it was before; the reason is a missing link only if the network lost the
  links between two routers while an attempt was made. If it succeeds, the circuit is in the table under
  an id that was free and nothing else changed. Its path leads from the source router to the router that
  hosts its terminator, over the cheapest link of each hop in the network in which the links were chosen.
  In the attempt that made it, every router of the path confirmed its route. No router of the path is told
  to forget the circuit.
\<close>

theorem CreateCircuit_result:
  assumes envs: "\<forall>k. env_ok (envs k)"
    and lim: "unat (opt_CreateCircuitRetries opts) \<le> unat SmartRerouteAttempt"
  shows "\<exists>res cs' es. CreateCircuit opts params uuid envs cleanRank cs = Some (res, cs', es) \<and>
    (case res of
       Inl e \<Rightarrow> map_of cs' = map_of cs \<and> (e = ErrCircuit CircuitFailurePathMissingLink \<longrightarrow> (\<exists>k. lost_link (envs k)))
     | Inr c \<Rightarrow> map_of cs (c_Id c) = None \<and> map_of cs' = (map_of cs)(c_Id c \<mapsto> c) \<and>
         (\<exists>k. created_by params (envs k) (of_nat k) (reserved_circuit params (c_Id c)) c es))"
proof -
  let ?i = "if cp_CircuitId params = '''' then uuid else Some (cp_CircuitId params)"
  consider (no_id) "?i = None" | (used) i c where "?i = Some i" "map_of cs i = Some c"
    | (free) i where "?i = Some i" "map_of cs i = None"
    by (metis option.exhaust)
  then show ?thesis
  proof cases
    case no_id
    then show ?thesis unfolding CreateCircuit_def by simp
  next
    case used
    then show ?thesis unfolding CreateCircuit_def by (simp add: Reserve_used)
  next
    case free
    have lim': "unat (opt_CreateCircuitRetries opts) \<le> 99969996" using lim by (simp add: SmartRerouteAttempt_def)
    have "(0 :: nat) < 99969996" by simp
    from create_loop_ok [OF envs lim' this, of params cleanRank "[]" "newRouteSender i" "reserved_circuit params i"]
    obtain r c' es where loop: "create_loop opts params envs cleanRank 0 [] (newRouteSender i) (reserved_circuit params i) = Some (r, c', es)"
      and ok: "create_ok params envs 0 (reserved_circuit params i) r c' es" by blast
    show ?thesis unfolding CreateCircuit_def free(1) option.case Reserve_free [OF free(2)] loop
      using create_ok_table [OF ok free(2)] by (cases r) simp_all
  qed
qed

section \<open>Witnesses\<close>

definition sample_service :: service where
  "sample_service = \<lparr>svc_Id = ''s'', svc_TerminatorStrategy = ''smartrouting'', svc_Terminators = [sample_term ''r1''], svc_MaxIdleTime = 0\<rparr>"

definition sample_env :: "service option \<Rightarrow> route_status list \<Rightarrow> attempt_env" where
  "sample_env svc statuses =
     \<lparr>ae_net = foldl net_step sample_net sample_ops, ae_linkNet = foldl net_step sample_net sample_ops,
      ae_doneNet = foldl net_step sample_net sample_ops, ae_service = svc, ae_ranks = (\<lambda>_. (\<lambda>_ r. r, \<lambda>_ _. 0)),
      ae_costs = \<lparr>globalCosts = [], costHeap = (\<lambda>_. undefined), costNext = 0\<rparr>, ae_strategy = (\<lambda>_. Some smartrouting),
      ae_sortRank = (\<lambda>_. 0), ae_uuid1 = Some ''in'', ae_uuid2 = Some ''out'', ae_remaining = 10, ae_statuses = statuses, ae_now = 7\<rparr>"

definition sample_params :: circuit_params where
  "sample_params = \<lparr>cp_ClientId = \<lparr>cid_Token = ''cl'', cid_Data = []\<rparr>, cp_ServiceId = ''s'', cp_SourceRouter = Some 0,
     cp_CircuitId = ''c1'', cp_Tags = (\<lambda>_. [])\<rparr>"

definition sample_options :: network_options where
  "sample_options = \<lparr>opt_CreateCircuitRetries = 2, opt_MinRouterCost = 10, opt_RerouteCeiling = (\<lambda>_. 1), opt_RerouteCap = 4,
     opt_MinCostDelta = 15\<rparr>"

lemma sample_env_net: "reachable_net (ae_net (sample_env svc sts)) \<and> cost_bounded (ae_net (sample_env svc sts))"
  using sample_start_net sample_cost_bounded unfolding reachable_net_def sample_env_def by auto

lemma sample_env_ok: "env_ok (sample_env svc sts)"
proof -
  have "ae_linkNet (sample_env svc sts) = foldl net_step (ae_net (sample_env svc sts)) []"
    "ae_doneNet (sample_env svc sts) = foldl net_step (ae_linkNet (sample_env svc sts)) []" by (simp_all add: sample_env_def)
  then show ?thesis unfolding env_ok_def using sample_env_net by blast
qed

lemma sample_selection:
  "selectPath (sample_env svc sts) 10 (Some 0) client sample_service '''' =
     Some (Inr (\<lparr>rt_RouteCost = GetBiasedCost Default 141, rt_Terminator = sample_term ''r1''\<rparr>, [0, 1], []))"
  using sample_path sample_connected(2)
  by (simp add: selectPath_def sample_env_def sample_service_def sample_term_def newPathAndCost_def Let_def weigh_def
      GetDynamicCost_def Select_def Select_smartrouting_def range_order_def)

theorem selectPath_best_witness:
  "\<exists>t p pd. selectPath (sample_env (Some sample_service) []) 10 (Some 0) \<lparr>cid_Token = ''cl'', cid_Data = []\<rparr> sample_service '''' =
      Some (Inr (t, p, pd)) \<and> rt_Terminator t = sample_term ''r1'' \<and>
      hd p = current_instance (ae_net (sample_env (Some sample_service) [])) 0"
proof -
  have "\<forall>u \<in> set (svc_Terminators sample_service). t_Precedence u \<in> set all_precedences"
    by (simp add: sample_service_def sample_term_def all_precedences_def)
  from selectPath_best [OF _ _ this sample_selection] sample_env_net [of "Some sample_service" "[]"]
  show ?thesis using sample_selection by (auto simp: Let_def)
qed

lemma sample_built_path:
  "CreatePathWithNodes (Some ''in'') (Some ''out'') (foldl net_step sample_net sample_ops) [0, 1] = Inr (sample_route [0, 1] [0])"
proof -
  have "LeastExpensiveLink (foldl net_step sample_net sample_ops) 0 (Suc 0) = Some 0"
    by (simp add: sample_net_defs net_op_defs LeastExpensiveLink_def least_step_def maxInt64_def wrap64_def)
  then show ?thesis by (simp add: CreatePathWithNodes_def setLinks_def sample_route_def)
qed

lemma sample_run_ids:
  "router_id (foldl net_step sample_net sample_ops) 0 = ''r0''" "router_id (foldl net_step sample_net sample_ops) (Suc 0) = ''r1''"
  by (simp_all add: sample_net_defs net_op_defs)

text \<open>An attempt in the sample network comes down to the wait for the answers.\<close>

lemma sample_attempt:
  assumes "attempt \<noteq> SmartRerouteAttempt"
  shows "\<exists>rms. create_attempt sample_options sample_params (sample_env (Some sample_service) sts) attempt rs c =
    (let t = \<lparr>rt_RouteCost = GetBiasedCost Default 141, rt_Terminator = sample_term ''r1''\<rparr>;
         n = foldl net_step sample_net sample_ops; p = sample_route [0, 1] [0];
         c2 = c\<lparr>c_Terminator := Some t, c_Path := p, c_Tags := []\<rparr>;
         sends = map (\<lambda>(r, m). SentRoute r m) (snd (send_routes n p rms rs))
     in case sender_route n attempt p rms (sample_term ''r1'') sts rs of
          (rs', Inl (cause, cl), effects) \<Rightarrow>
            Some (Failed_attempt cause cl rs' c2 (sends @ map Sender effects @ [CircuitFailed cause]))
        | (rs', Inr peerData, effects) \<Rightarrow> Some (Routed t peerData [] c2 (sends @ map Sender effects)))"
proof -
  let ?n = "foldl net_step sample_net sample_ops"
  obtain rms where rms: "dress_messages [] [] (CreateRouteMessages ?n (sample_route [0, 1] [0]) attempt (c_Id c) (sample_term ''r1'') 10) = Some rms"
    using dress_messages_created [OF assms] by blast
  have "parseInstanceIdAndService ''s'' = ('''', ''s'')" by code_simp
  then show ?thesis
    using sample_selection [of "Some sample_service" sts "cp_ClientId sample_params"] sample_built_path rms
    by (intro exI [of _ rms]) (simp add: create_attempt_def sample_params_def sample_options_def sample_env_def Let_def split: prod.split sum.split)
qed

lemma sample_sender:
  "sender_route (foldl net_step sample_net sample_ops) 0 (sample_route [0, 1] [0]) rms (sample_term ''r1'')
     [sample_status ''r0'' 0 True, sample_status ''r1'' 0 True] (newRouteSender i) =
   (\<lparr>sender_circuitId = i, sender_attendance = [(''r0'', True), (''r1'', True)]\<rparr>, Inr (Some []), [ServiceDialSuccess ''s'' ''t''])"
  "sender_route (foldl net_step sample_net sample_ops) 0 (sample_route [0, 1] [0]) rms (sample_term ''r1'')
     [sample_status ''r0'' 0 True, sample_status ''r1'' 0 False] (newRouteSender i) =
   (\<lparr>sender_circuitId = i, sender_attendance = [(''r0'', True), (''r1'', False)]\<rparr>,
    Inl (CircuitFailureRouterErrGeneric, [''r0'']), [ServiceDialOtherError ''s'', NotifyDialFailed ''t'', ServiceDialFail ''s'' ''t''])"
  by (simp_all add: sender_route_def send_routes_def newRouteSender_def sample_route_def sample_status_def sample_term_def
        handleRouteSend_def allPresent_def sample_run_ids cleanups_def failure_cause_def Let_def)

lemma sample_created:
  "\<exists>c cs es. CreateCircuit sample_options sample_params None
      (\<lambda>_. sample_env (Some sample_service) [sample_status ''r0'' 0 True, sample_status ''r1'' 0 True]) (\<lambda>_. 0) [] = Some (Inr c, cs, es)"
proof -
  have a: "(0 :: u32) \<noteq> SmartRerouteAttempt" by (simp add: SmartRerouteAttempt_def)
  have i: "cp_CircuitId sample_params = ''c1''" by (simp add: sample_params_def)
  obtain c' es where "create_attempt sample_options sample_params
      (sample_env (Some sample_service) [sample_status ''r0'' 0 True, sample_status ''r1'' 0 True]) 0 (newRouteSender ''c1'')
      (reserved_circuit sample_params ''c1'') =
      Some (Routed \<lparr>rt_RouteCost = GetBiasedCost Default 141, rt_Terminator = sample_term ''r1''\<rparr> (Some []) [] c' es)"
    using sample_attempt [OF a, of "[sample_status ''r0'' 0 True, sample_status ''r1'' 0 True]" "newRouteSender ''c1''"
        "reserved_circuit sample_params ''c1''"] by (auto simp: sample_sender [simplified] Let_def)
  then show ?thesis
    by (simp add: CreateCircuit_def i Reserve_free create_loop.simps [of _ _ _ _ 0] finish_circuit_def Let_def)
qed

theorem CreateCircuit_result_witness:
  "\<exists>c cs es. CreateCircuit sample_options sample_params None
      (\<lambda>_. sample_env (Some sample_service) [sample_status ''r0'' 0 True, sample_status ''r1'' 0 True]) (\<lambda>_. 0) [] =
      Some (Inr c, cs, es) \<and> map_of cs (c_Id c) = Some c \<and>
    (\<exists>k. created_by sample_params (sample_env (Some sample_service) [sample_status ''r0'' 0 True, sample_status ''r1'' 0 True]) k
       (reserved_circuit sample_params (c_Id c)) c es)"
proof -
  let ?envs = "\<lambda>_ :: nat. sample_env (Some sample_service) [sample_status ''r0'' 0 True, sample_status ''r1'' 0 True]"
  have "\<forall>k. env_ok (?envs k)" using sample_env_ok by blast
  moreover have "unat (opt_CreateCircuitRetries sample_options) \<le> unat SmartRerouteAttempt"
    by (simp add: sample_options_def SmartRerouteAttempt_def)
  ultimately show ?thesis
    using CreateCircuit_result [of ?envs sample_options sample_params None "\<lambda>_. 0" "[]"] sample_created by auto
qed

end
