(* ===== verification/Circuit_Rerouting.thy ===== *)
theory Circuit_Rerouting
  imports Circuit_Creation
begin

text \<open>
  What happens to circuits after their creation: removal and rerouting in \<^verbatim>\<open>controller/network/network.go\<close>,
  \<^verbatim>\<open>controller/network/smart.go\<close>, \<^verbatim>\<open>controller/network/fault.go\<close>, and the handlers
  \<^verbatim>\<open>controller/handler_ctrl/fault.go\<close> and \<^verbatim>\<open>controller/handler_ctrl/circuit_confirmation.go\<close>.

  Each handler runs alone on the circuit table. Work that the code hands to a goroutine, such as the
  retries of a smart reroute or an unroute message, is done at that point. The result \<open>None\<close> is a panic
  or a path computation that does not return.
\<close>

section \<open>Removing and rerouting circuits\<close>

text \<open>The services and the strategies a controller knows at the time of an operation.\<close>

record registry_env =
  rg_service :: "string \<Rightarrow> service option"
  rg_strategy :: "string \<Rightarrow> strategy option"

text \<open>
  Removing a circuit that exists unroutes its routers and reports its end. The report reads the
  terminator; a circuit that is only reserved has none, and the result \<open>None\<close> is the panic. The flag
  says whether the circuit was found.
\<close>

definition RemoveCircuit ::
  "registry_env \<Rightarrow> string \<Rightarrow> bool \<Rightarrow> circuit cmap \<Rightarrow> (bool \<times> circuit cmap \<times> circuit_effect list) option" where
  "RemoveCircuit rg circuitId now cs =
     (case Circuit_Get cs circuitId of
        None \<Rightarrow> Some (False, cs, [])
      | Some c \<Rightarrow>
          (case c_Terminator c of
             None \<Rightarrow> None
           | Some t \<Rightarrow>
               Some (True, Circuit_Remove c cs,
                 map (\<lambda>r. SentUnroute r (c_Id c) now) (Nodes (c_Path c)) @ [CircuitDeleted (c_Id c)] @
                 (case rg_service rg (c_ServiceId c) of
                    None \<Rightarrow> []
                  | Some svc \<Rightarrow> (case rg_strategy rg (svc_TerminatorStrategy svc) of
                                  None \<Rightarrow> [] | Some _ \<Rightarrow> [CircuitRemoved (rt_Id t)])))))"

text \<open>What one try to reroute a circuit meets; \<open>re_ok\<close> are the routers that accept their route.\<close>

record reroute_env =
  re_net :: net
  re_ranks :: ranks
  re_remaining :: int
  re_ok :: "nat \<Rightarrow> bool"
  re_now :: int

fun send_until_error :: "(nat \<Rightarrow> bool) \<Rightarrow> nat list \<Rightarrow> route list \<Rightarrow> bool \<times> circuit_effect list" where
  "send_until_error ok (r # rs) (m # ms) =
     (if ok r then (let (success, es) = send_until_error ok rs ms in (success, SentRoute r m # es))
      else (False, [SentRoute r m]))"
| "send_until_error ok _ _ = (True, [])"

definition unrouteRemovedPathNodes :: "net \<Rightarrow> string \<Rightarrow> path \<Rightarrow> path \<Rightarrow> circuit_effect list" where
  "unrouteRemovedPathNodes n circuitId oldPath newPath =
     concat (map (\<lambda>r. if router_id n r \<notin> router_id n ` set (Nodes newPath)
                      then case GetConnected n (router_id n r) of
                             Some cr \<Rightarrow> [SentUnroute cr circuitId True] | None \<Rightarrow> []
                      else []) (Nodes oldPath))"

text \<open>Moving a circuit to a new path: whether all routers accepted, the circuit, the effects.\<close>

definition switch_path :: "reroute_env \<Rightarrow> path \<Rightarrow> circuit \<Rightarrow> (bool \<times> circuit \<times> circuit_effect list) option" where
  "switch_path re cq c =
     (case c_Terminator c of
        None \<Rightarrow> None
      | Some t \<Rightarrow>
          let n = re_net re;
              c' = c\<lparr>c_Path := cq, c_UpdatedAt := re_now re\<rparr>;
              rms = CreateRouteMessages n cq SmartRerouteAttempt (c_Id c) (rt_Terminator t) (re_remaining re);
              (success, sent) = send_until_error (re_ok re) (Nodes cq) rms
          in if success
             then Some (True, c', sent @ unrouteRemovedPathNodes n (c_Id c) (c_Path c) cq @ [CircuitUpdated (c_Id c)])
             else Some (False, c', sent))"

definition rerouteCircuit ::
  "network_options \<Rightarrow> reroute_env \<Rightarrow> circuit \<Rightarrow> (bool \<times> circuit \<times> circuit_effect list) option" where
  "rerouteCircuit opts re c =
     (if c_Rerouting c then Some (True, c, [])
      else
        case UpdatePath (fst (re_ranks re)) (snd (re_ranks re)) (re_net re) (opt_MinRouterCost opts) (c_Path c) of
          None \<Rightarrow> None
        | Some (Inl e) \<Rightarrow> Some (False, c, [])
        | Some (Inr cq) \<Rightarrow> switch_path re cq c)"

text \<open>The retry flag of the source is the negation of the first component.\<close>

definition smartReroute :: "reroute_env \<Rightarrow> path \<Rightarrow> circuit \<Rightarrow> (bool \<times> circuit \<times> circuit_effect list) option" where
  "smartReroute re cq c = (if c_Rerouting c then Some (True, c, []) else switch_path re cq c)"

fun reroute_tries ::
  "network_options \<Rightarrow> (nat \<Rightarrow> reroute_env) \<Rightarrow> nat \<Rightarrow> nat \<Rightarrow> circuit \<Rightarrow> (bool \<times> circuit \<times> circuit_effect list) option" where
  "reroute_tries opts res i 0 c = Some (False, c, [])"
| "reroute_tries opts res i (Suc k) c =
     (case rerouteCircuit opts (res i) c of
        None \<Rightarrow> None
      | Some (True, c', es) \<Rightarrow> Some (True, c', es)
      | Some (False, c', es) \<Rightarrow>
          (case reroute_tries opts res (Suc i) k c' of
             None \<Rightarrow> None | Some (b, c'', es') \<Rightarrow> Some (b, c'', es @ es')))"

text \<open>A circuit that cannot be rerouted is removed.\<close>

definition rerouteCircuitWithTries ::
  "network_options \<Rightarrow> registry_env \<Rightarrow> (nat \<Rightarrow> reroute_env) \<Rightarrow> nat \<Rightarrow> circuit \<Rightarrow> circuit cmap \<Rightarrow>
   (bool \<times> circuit cmap \<times> circuit_effect list) option" where
  "rerouteCircuitWithTries opts rg res retries c cs =
     (case (if IsValid (Some (c_Path c)) then reroute_tries opts res 0 retries c else Some (False, c, [])) of
        None \<Rightarrow> None
      | Some (True, c', es) \<Rightarrow> Some (True, Circuit_Store c' cs, es)
      | Some (False, c', es) \<Rightarrow>
          (case RemoveCircuit rg (c_Id c) True (Circuit_Store c' cs) of
             None \<Rightarrow> None | Some (_, cs', es') \<Rightarrow> Some (False, cs', es @ es')))"

text \<open>
  Rerouting everything off a link goes through a snapshot of the circuits; \<open>res\<close> gives the
  environment of each circuit's single try.
\<close>

fun reroute_link_loop ::
  "network_options \<Rightarrow> registry_env \<Rightarrow> (string \<Rightarrow> reroute_env) \<Rightarrow> nat \<Rightarrow> circuit list \<Rightarrow> circuit cmap \<Rightarrow>
   (circuit cmap \<times> circuit_effect list) option" where
  "reroute_link_loop opts rg res l [] cs = Some (cs, [])"
| "reroute_link_loop opts rg res l (c # rest) cs =
     (if UsesLink (c_Path c) l then
        case rerouteCircuit opts (res (c_Id c)) c of
          None \<Rightarrow> None
        | Some (True, c', es) \<Rightarrow>
            (case reroute_link_loop opts rg res l rest (Circuit_Store c' cs) of
               None \<Rightarrow> None | Some (cs', es') \<Rightarrow> Some (cs', es @ es'))
        | Some (False, c', es) \<Rightarrow>
            (case RemoveCircuit rg (c_Id c) True (Circuit_Store c' cs) of
               None \<Rightarrow> None
             | Some (_, cs1, es1) \<Rightarrow>
                 (case reroute_link_loop opts rg res l rest cs1 of
                    None \<Rightarrow> None | Some (cs', es') \<Rightarrow> Some (cs', es @ es1 @ es')))
      else reroute_link_loop opts rg res l rest cs)"

definition rerouteLink ::
  "network_options \<Rightarrow> registry_env \<Rightarrow> (string \<Rightarrow> reroute_env) \<Rightarrow> nat \<Rightarrow> circuit cmap \<Rightarrow>
   (circuit cmap \<times> circuit_effect list) option" where
  "rerouteLink opts rg res l cs = reroute_link_loop opts rg res l (Circuit_All cs) cs"

fun router_deleted_loop ::
  "net \<Rightarrow> registry_env \<Rightarrow> string \<Rightarrow> circuit list \<Rightarrow> circuit cmap \<Rightarrow> (circuit cmap \<times> circuit_effect list) option" where
  "router_deleted_loop n rg rid [] cs = Some (cs, [])"
| "router_deleted_loop n rg rid (c # rest) cs =
     (if HasRouter n c rid \<and> IsEndpointRouter n c rid then
        case RemoveCircuit rg (c_Id c) True cs of
          None \<Rightarrow> None
        | Some (_, cs1, es) \<Rightarrow>
            (case router_deleted_loop n rg rid rest cs1 of None \<Rightarrow> None | Some (cs', es') \<Rightarrow> Some (cs', es @ es'))
      else router_deleted_loop n rg rid rest cs)"

definition routerDeleted ::
  "net \<Rightarrow> registry_env \<Rightarrow> string \<Rightarrow> circuit cmap \<Rightarrow> (circuit cmap \<times> circuit_effect list) option" where
  "routerDeleted n rg rid cs = router_deleted_loop n rg rid (Circuit_All cs) cs"

section \<open>Faults and confirmations\<close>

fun split_ids :: "string \<Rightarrow> string list" where
  "split_ids [] = [[]]"
| "split_ids (x # xs) =
     (if x = CHR '' '' then [] # split_ids xs
      else (x # hd (split_ids xs)) # tl (split_ids xs))"

text \<open>The report of router \<open>r\<close>; the circuits are handled in order, with two tries each.\<close>

fun fault_loop ::
  "network_options \<Rightarrow> registry_env \<Rightarrow> (string \<Rightarrow> nat \<Rightarrow> reroute_env) \<Rightarrow> nat \<Rightarrow> bool \<Rightarrow> string list \<Rightarrow> circuit cmap \<Rightarrow>
   (circuit cmap \<times> circuit_effect list) option" where
  "fault_loop opts rg res r unknownOwner [] cs = Some (cs, [])"
| "fault_loop opts rg res r unknownOwner (i # ids) cs =
     (case Circuit_Get cs i of
        Some c \<Rightarrow>
          (case rerouteCircuitWithTries opts rg (res i) 2 c cs of
             None \<Rightarrow> None
           | Some (_, cs1, es) \<Rightarrow>
               (case fault_loop opts rg res r unknownOwner ids cs1 of
                  None \<Rightarrow> None | Some (cs', es') \<Rightarrow> Some (cs', es @ es')))
      | None \<Rightarrow>
          (case fault_loop opts rg res r unknownOwner ids cs of
             None \<Rightarrow> None
           | Some (cs', es') \<Rightarrow> Some (cs', (if \<not> unknownOwner then [SentUnroute r i True] else []) @ es')))"

definition handle_circuit_fault ::
  "network_options \<Rightarrow> registry_env \<Rightarrow> (string \<Rightarrow> nat \<Rightarrow> reroute_env) \<Rightarrow> nat \<Rightarrow> fault \<Rightarrow> circuit cmap \<Rightarrow>
   (circuit cmap \<times> circuit_effect list) option" where
  "handle_circuit_fault opts rg res r f cs =
     (case fault_Subject f of
        LinkFault \<Rightarrow> Some (cs, [])
      | LinkDuplicate \<Rightarrow> Some (cs, [])
      | IngressFault \<Rightarrow> map_option snd (RemoveCircuit rg (fault_Id f) False cs)
      | EgressFault \<Rightarrow> map_option snd (RemoveCircuit rg (fault_Id f) False cs)
      | ForwardFault \<Rightarrow> fault_loop opts rg res r False (split_ids (fault_Id f)) cs
      | UnknownOwnerForwardFault \<Rightarrow> fault_loop opts rg res r True (split_ids (fault_Id f)) cs)"

fun reroute_links ::
  "network_options \<Rightarrow> registry_env \<Rightarrow> (string \<Rightarrow> reroute_env) \<Rightarrow> nat list \<Rightarrow> circuit cmap \<Rightarrow>
   (circuit cmap \<times> circuit_effect list) option" where
  "reroute_links opts rg res [] cs = Some (cs, [])"
| "reroute_links opts rg res (l # ls) cs =
     (case rerouteLink opts rg res l cs of
        None \<Rightarrow> None
      | Some (cs1, es) \<Rightarrow>
          (case reroute_links opts rg res ls cs1 of None \<Rightarrow> None | Some (cs', es') \<Rightarrow> Some (cs', es @ es')))"

text \<open>
  A fault reported by router \<open>r\<close>. A link fault changes the network first and reroutes the circuits of
  the link afterwards, in the new network.
\<close>

definition handleFault ::
  "network_options \<Rightarrow> registry_env \<Rightarrow> (net \<Rightarrow> string \<Rightarrow> nat \<Rightarrow> reroute_env) \<Rightarrow> nat \<Rightarrow> fault \<Rightarrow> u32 \<Rightarrow> int \<Rightarrow>
   net \<times> circuit cmap \<Rightarrow> ((net \<times> circuit cmap) \<times> circuit_effect list) option" where
  "handleFault opts rg res r f iteration now st =
     (case st of (n, cs) \<Rightarrow>
        if fault_Subject f = LinkFault \<or> fault_Subject f = LinkDuplicate then
          let (n', rer, _) = handleFaultedLink r (fault_Id f) iteration now n
          in map_option (\<lambda>(cs', es). ((n', cs'), es)) (reroute_links opts rg (\<lambda>i. res n' i 0) rer cs)
        else map_option (\<lambda>(cs', es). ((n, cs'), es)) (handle_circuit_fault opts rg (res n) r f cs))"

definition checkCircuitMaxIdle ::
  "net \<Rightarrow> registry_env \<Rightarrow> nat \<Rightarrow> circuit_confirmation \<Rightarrow> circuit \<Rightarrow> circuit cmap \<Rightarrow>
   (circuit cmap \<times> circuit_effect list) option" where
  "checkCircuitMaxIdle n rg r confirm c cs =
     (case rg_service rg (c_ServiceId c) of
        None \<Rightarrow> map_option snd (RemoveCircuit rg (c_Id c) True cs)
      | Some svc \<Rightarrow>
          (case map_of (cc_IdleTimes confirm) (c_Id c) of
             None \<Rightarrow> Some (cs, [])
           | Some idleTime \<Rightarrow>
               if svc_MaxIdleTime svc = 0 \<or> idleTime < svc_MaxIdleTime svc then Some (cs, [])
               else if \<not> IsEndpointRouter n c (router_id n r) then Some (cs, [])
               else map_option snd (RemoveCircuit rg (c_Id c) True cs)))"

fun confirm_loop ::
  "net \<Rightarrow> registry_env \<Rightarrow> nat \<Rightarrow> circuit_confirmation \<Rightarrow> string list \<Rightarrow> circuit cmap \<Rightarrow>
   (circuit cmap \<times> circuit_effect list) option" where
  "confirm_loop n rg r confirm [] cs = Some (cs, [])"
| "confirm_loop n rg r confirm (i # ids) cs =
     (let found = (case Circuit_Get cs i of Some c \<Rightarrow> if HasRouter n c (router_id n r) then Some c else None | None \<Rightarrow> None)
      in case (case found of
                 Some c \<Rightarrow> checkCircuitMaxIdle n rg r confirm c cs
               | None \<Rightarrow> Some (cs, [SentUnroute r i True])) of
           None \<Rightarrow> None
         | Some (cs1, es) \<Rightarrow>
             (case confirm_loop n rg r confirm ids cs1 of None \<Rightarrow> None | Some (cs', es') \<Rightarrow> Some (cs', es @ es')))"

definition handleConfirmation ::
  "net \<Rightarrow> registry_env \<Rightarrow> nat \<Rightarrow> circuit_confirmation \<Rightarrow> circuit cmap \<Rightarrow> (circuit cmap \<times> circuit_effect list) option" where
  "handleConfirmation n rg r confirm cs = confirm_loop n rg r confirm (cc_CircuitIds confirm) cs"

section \<open>Smart rerouting\<close>

definition calculateCircuitCost :: "network_options \<Rightarrow> net \<Rightarrow> path \<Rightarrow> int" where
  "calculateCircuitCost opts n p =
     fold (\<lambda>r cost. wrap64 (cost + router_cost n (opt_MinRouterCost opts)
             (case GetConnected n (router_id n r) of Some cr \<Rightarrow> cr | None \<Rightarrow> r))) (Nodes p)
       (fold (\<lambda>l cost. wrap64 (cost + l_Cost (net_links n l))) (Links p) 0)"

definition reroute_ceiling :: "network_options \<Rightarrow> nat \<Rightarrow> int" where
  "reroute_ceiling opts k =
     (let ceil = opt_RerouteCeiling opts k;
          ceil' = (if ceil < 1 then 1 else ceil);
          cap = int (unat (opt_RerouteCap opts))
      in if ceil' > cap then cap else ceil')"

definition is_candidate :: "network_options \<Rightarrow> net \<Rightarrow> circuit \<Rightarrow> int \<Rightarrow> path \<Rightarrow> bool" where
  "is_candidate opts n c oldCost q \<longleftrightarrow>
     \<not> EqualPath q (c_Path c) \<and>
     wrap64 (oldCost - Path_Cost n (opt_MinRouterCost opts) q) \<ge> int (unat (opt_MinCostDelta opts))"

fun candidate_loop ::
  "network_options \<Rightarrow> net \<Rightarrow> (string \<Rightarrow> ranks) \<Rightarrow> int \<Rightarrow> int cmap \<Rightarrow> circuit cmap \<Rightarrow> string list \<Rightarrow> int \<Rightarrow>
   (circuit \<times> path) list option" where
  "candidate_loop opts n rks ceil costs cs [] count = Some []"
| "candidate_loop opts n rks ceil costs cs (i # ids) count =
     (case Circuit_Get cs i of
        None \<Rightarrow> candidate_loop opts n rks ceil costs cs ids count
      | Some c \<Rightarrow>
          (case UpdatePath (fst (rks i)) (snd (rks i)) n (opt_MinRouterCost opts) (c_Path c) of
             None \<Rightarrow> None
           | Some (Inl e) \<Rightarrow> candidate_loop opts n rks ceil costs cs ids count
           | Some (Inr q) \<Rightarrow>
               let oldCost = (case map_of costs i of Some x \<Rightarrow> x | None \<Rightarrow> 0)
               in if count < ceil \<and> is_candidate opts n c oldCost q
                  then (case candidate_loop opts n rks ceil costs cs ids (count + 1) of
                          None \<Rightarrow> None | Some cands \<Rightarrow> Some ((c, q) # cands))
                  else candidate_loop opts n rks ceil costs cs ids count))"

definition circuit_costs :: "network_options \<Rightarrow> net \<Rightarrow> circuit cmap \<Rightarrow> int cmap" where
  "circuit_costs opts n cs =
     map (\<lambda>c. (c_Id c, calculateCircuitCost opts n (c_Path c)))
       (filter (\<lambda>c. IsValid (Some (c_Path c))) (Circuit_All cs))"

text \<open>Circuits are considered in the order of decreasing cost; the sort is stable.\<close>

definition getRerouteCandidates ::
  "network_options \<Rightarrow> net \<Rightarrow> (string \<Rightarrow> ranks) \<Rightarrow> circuit cmap \<Rightarrow> (circuit \<times> path) list option" where
  "getRerouteCandidates opts n rks cs =
     (let costs = circuit_costs opts n cs;
          ordered = map fst (sort_key (\<lambda>(i, cost). - cost) costs)
      in candidate_loop opts n rks (reroute_ceiling opts (length (Circuit_All cs))) costs cs ordered 0)"

fun smart_loop ::
  "network_options \<Rightarrow> registry_env \<Rightarrow> (string \<Rightarrow> nat \<Rightarrow> reroute_env) \<Rightarrow> nat \<Rightarrow> (circuit \<times> path) list \<Rightarrow> circuit cmap \<Rightarrow>
   (circuit cmap \<times> circuit_effect list) option" where
  "smart_loop opts rg res retries [] cs = Some (cs, [])"
| "smart_loop opts rg res retries ((c, q) # cands) cs =
     (case smartReroute (res (c_Id c) 0) q c of
        None \<Rightarrow> None
      | Some (b, c', es) \<Rightarrow>
          let cs1 = Circuit_Store c' cs
          in case (if b then Some (True, cs1, [])
                   else rerouteCircuitWithTries opts rg (\<lambda>k. res (c_Id c) (Suc k)) retries c' cs1) of
               None \<Rightarrow> None
             | Some (_, cs2, es2) \<Rightarrow>
                 (case smart_loop opts rg res retries cands cs2 of
                    None \<Rightarrow> None | Some (cs', es') \<Rightarrow> Some (cs', es @ es2 @ es')))"

definition DefaultOptionsCreateCircuitRetries :: nat where
  "DefaultOptionsCreateCircuitRetries = 2"

definition smart ::
  "network_options \<Rightarrow> registry_env \<Rightarrow> net \<Rightarrow> (string \<Rightarrow> ranks) \<Rightarrow> (string \<Rightarrow> nat \<Rightarrow> reroute_env) \<Rightarrow> circuit cmap \<Rightarrow>
   (circuit cmap \<times> circuit_effect list) option" where
  "smart opts rg n rks res cs =
     (case getRerouteCandidates opts n rks cs of
        None \<Rightarrow> None
      | Some cands \<Rightarrow> smart_loop opts rg res DefaultOptionsCreateCircuitRetries cands cs)"

section \<open>Rerouting one circuit\<close>

lemma send_until_error_all:
  assumes "length ms = length rs"
  shows "fst (send_until_error ok rs ms) \<longleftrightarrow> (\<forall>r \<in> set rs. ok r)"
    and "fst (send_until_error ok rs ms) \<Longrightarrow> snd (send_until_error ok rs ms) = map (\<lambda>(r, m). SentRoute r m) (zip rs ms)"
  using assms by (induction ok rs ms rule: send_until_error.induct) (auto simp: Let_def split: prod.splits if_splits)

lemma send_until_error_routes: "no_unroute (snd (send_until_error ok rs ms))"
  by (induction ok rs ms rule: send_until_error.induct) (auto simp: no_unroute_def Let_def split: prod.splits)

lemma unrouteRemovedPathNodes_sent:
  assumes "net_inv {} n"
  shows "set (unrouteRemovedPathNodes n c old new) =
    {SentUnroute r c True | r. GetConnected n (router_id n r) = Some r \<and>
       router_id n r \<in> router_id n ` set (Nodes old) \<and> router_id n r \<notin> router_id n ` set (Nodes new)}" (is "?L = ?R")
proof -
  have "e \<in> ?L \<longleftrightarrow> (\<exists>x \<in> set (Nodes old). \<exists>r. router_id n x \<notin> router_id n ` set (Nodes new) \<and>
      GetConnected n (router_id n x) = Some r \<and> e = SentUnroute r c True)" for e
    by (force simp: unrouteRemovedPathNodes_def split: option.splits if_splits)
  also have "\<dots> e \<longleftrightarrow> e \<in> ?R" for e
    using GetConnected_id(1) [OF assms] by (auto, metis)
  finally show ?thesis by blast
qed

lemma send_until_error_refused:
  assumes "length ms = length rs" and "\<not> fst (send_until_error ok rs ms)"
  shows "\<exists>k < length rs. \<not> ok (rs ! k) \<and> (\<forall>j < k. ok (rs ! j)) \<and>
    snd (send_until_error ok rs ms) = take (Suc k) (map (\<lambda>(r, m). SentRoute r m) (zip rs ms))"
  using assms
proof (induction ok rs ms rule: send_until_error.induct)
  case (1 ok r rs m ms)
  show ?case
  proof (cases "ok r")
    case True
    have "length ms = length rs" "\<not> fst (send_until_error ok rs ms)"
      using 1(2,3) True by (simp_all add: case_prod_beta Let_def)
    from 1(1) [OF True this] obtain k where "k < length rs" "\<not> ok (rs ! k)" "\<forall>j < k. ok (rs ! j)"
      "snd (send_until_error ok rs ms) = take (Suc k) (map (\<lambda>(r, m). SentRoute r m) (zip rs ms))" by blast
    then show ?thesis using True by (intro exI [of _ "Suc k"]) (auto simp: Let_def nth_Cons split: nat.split prod.split)
  qed (auto intro!: exI [of _ 0])
qed auto

text \<open>
  What moving a circuit to the path \<open>q\<close> comes to. The routers get their messages of the new path in its
  order. If all accept, the dropped routers are told to forget the circuit; otherwise the router that
  refused is the last one that got a message.
\<close>

definition path_routes :: "reroute_env \<Rightarrow> circuit \<Rightarrow> routing_terminator \<Rightarrow> path \<Rightarrow> circuit_effect list" where
  "path_routes re c t q = map (\<lambda>(r, m). SentRoute r m)
     (zip (Nodes q) (CreateRouteMessages (re_net re) q SmartRerouteAttempt (c_Id c) (rt_Terminator t) (re_remaining re)))"

definition dropped :: "net \<Rightarrow> path \<Rightarrow> path \<Rightarrow> nat set" where
  "dropped n old new = {r. GetConnected n (router_id n r) = Some r \<and>
     router_id n r \<in> router_id n ` set (Nodes old) \<and> router_id n r \<notin> router_id n ` set (Nodes new)}"

definition moved :: "reroute_env \<Rightarrow> routing_terminator \<Rightarrow> path \<Rightarrow> circuit \<Rightarrow> bool \<Rightarrow> circuit_effect list \<Rightarrow> bool" where
  "moved re t q c b es \<longleftrightarrow> length (path_routes re c t q) = length (Nodes q) \<and>
     (if b then (\<forall>r \<in> set (Nodes q). re_ok re r) \<and>
        (\<exists>us. es = path_routes re c t q @ us @ [CircuitUpdated (c_Id c)] \<and>
           set us = (\<lambda>r. SentUnroute r (c_Id c) True) ` dropped (re_net re) (c_Path c) q)
      else \<exists>k < length (Nodes q). \<not> re_ok re (Nodes q ! k) \<and> (\<forall>j < k. re_ok re (Nodes q ! j)) \<and>
        es = take (Suc k) (path_routes re c t q))"

lemma switch_path_result:
  assumes inv: "net_inv {} (re_net re)" and t: "c_Terminator c = Some t" and q: "path_ok (re_net re) q"
  shows "\<exists>b es. switch_path re q c = Some (b, c\<lparr>c_Path := q, c_UpdatedAt := re_now re\<rparr>, es) \<and> moved re t q c b es"
proof -
  let ?n = "re_net re"
  let ?rms = "CreateRouteMessages ?n q SmartRerouteAttempt (c_Id c) (rt_Terminator t) (re_remaining re)"
  have len: "length ?rms = length (Nodes q)" using q by (simp add: CreateRouteMessages_map path_ok_def del: upt_Suc)
  then have plen: "length (path_routes re c t q) = length (Nodes q)" by (simp add: path_routes_def)
  obtain b sent where s: "send_until_error (re_ok re) (Nodes q) ?rms = (b, sent)" by (rule prod.exhaust)
  show ?thesis
  proof (cases b)
    case False
    then have "moved re t q c False sent" using s plen send_until_error_refused [OF len, of "re_ok re"]
      by (simp add: moved_def path_routes_def)
    moreover have "switch_path re q c = Some (False, c\<lparr>c_Path := q, c_UpdatedAt := re_now re\<rparr>, sent)"
      using t s False by (simp add: switch_path_def Let_def)
    ultimately show ?thesis by blast
  next
    case True
    have "sent = path_routes re c t q" "\<forall>r \<in> set (Nodes q). re_ok re r"
      using send_until_error_all [OF len, of "re_ok re"] s True by (simp_all add: path_routes_def)
    moreover have "set (unrouteRemovedPathNodes ?n (c_Id c) (c_Path c) q) = (\<lambda>r. SentUnroute r (c_Id c) True) ` dropped ?n (c_Path c) q"
      unfolding unrouteRemovedPathNodes_sent [OF inv] dropped_def by blast
    ultimately show ?thesis using t s True plen by (intro exI [of _ True]) (simp add: switch_path_def Let_def moved_def)
  qed
qed

lemma moved_refused: "moved re t q c False es \<Longrightarrow> no_unroute es"
  by (auto simp: moved_def no_unroute_def path_routes_def dest!: in_set_takeD)

lemma rerouteCircuit_result:
  assumes inv: "net_inv {} (re_net re)" and cb: "cost_bounded (re_net re)" and t: "c_Terminator c = Some t"
    and ne: "Nodes (c_Path c) \<noteq> []" and idle: "\<not> c_Rerouting c"
  shows "(rerouteCircuit opts re c = Some (False, c, []) \<and>
      UpdatePath (fst (re_ranks re)) (snd (re_ranks re)) (re_net re) (opt_MinRouterCost opts) (c_Path c) = Some (Inl CantRoute)) \<or>
    (\<exists>q b es. UpdatePath (fst (re_ranks re)) (snd (re_ranks re)) (re_net re) (opt_MinRouterCost opts) (c_Path c) = Some (Inr q) \<and>
      path_ok (re_net re) q \<and> rerouteCircuit opts re c = Some (b, c\<lparr>c_Path := q, c_UpdatedAt := re_now re\<rparr>, es) \<and> moved re t q c b es)"
proof -
  let ?u = "UpdatePath (fst (re_ranks re)) (snd (re_ranks re)) (re_net re) (opt_MinRouterCost opts) (c_Path c)"
  note U = UpdatePath_result [OF inv cb ne, of "fst (re_ranks re)" "snd (re_ranks re)" "opt_MinRouterCost opts"]
  obtain res where res: "?u = Some res" using U by blast
  show ?thesis
  proof (cases res)
    case (Inl e)
    then have "?u = Some (Inl CantRoute)" using U res by simp
    then show ?thesis using idle by (simp add: rerouteCircuit_def)
  next
    case (Inr q)
    then have "?u = Some (Inr q)" and q: "path_ok (re_net re) q" using U res by simp_all
    then show ?thesis using switch_path_result [OF inv t q] idle by (simp add: rerouteCircuit_def)
  qed
qed

lemma rerouteCircuit_cases:
  assumes "net_inv {} (re_net re)" and "cost_bounded (re_net re)" and "c_Terminator c = Some t"
    and "Nodes (c_Path c) \<noteq> []" and "\<not> c_Rerouting c"
  obtains b c' es where "rerouteCircuit opts re c = Some (b, c', es)" and "c_Id c' = c_Id c" and "c_ServiceId c' = c_ServiceId c"
    and "c_Terminator c' = Some t" and "Nodes (c_Path c') \<noteq> []" and "\<not> c_Rerouting c'" and "b \<or> no_unroute es"
proof -
  from rerouteCircuit_result [OF assms, of opts] show ?thesis
  proof (elim disjE exE conjE)
    assume "rerouteCircuit opts re c = Some (False, c, [])"
    moreover have "no_unroute []" by (simp add: no_unroute_def)
    ultimately show ?thesis using that assms(3-5) by blast
  next
    fix q b es assume "rerouteCircuit opts re c = Some (b, c\<lparr>c_Path := q, c_UpdatedAt := re_now re\<rparr>, es)"
      "path_ok (re_net re) q" "moved re t q c b es"
    then show ?thesis using assms moved_refused by (cases b) (auto intro!: that simp: path_ok_def)
  qed
qed

section \<open>Tries and removal\<close>

lemma reroute_tries_failed:
  assumes envs: "\<forall>k. net_inv {} (re_net (res k)) \<and> cost_bounded (re_net (res k))"
    and c: "c_Terminator c = Some t" "Nodes (c_Path c) \<noteq> []" "\<not> c_Rerouting c"
    and f: "reroute_tries opts res i k c = Some (False, c', es)"
  shows "no_unroute es \<and> c_Id c' = c_Id c \<and> c_ServiceId c' = c_ServiceId c \<and> c_Terminator c' = Some t"
  using c f
proof (induction k arbitrary: i c es)
  case 0
  then show ?case by (simp add: no_unroute_def)
next
  case (Suc k)
  have inv: "net_inv {} (re_net (res i))" "cost_bounded (re_net (res i))" using envs by simp_all
  obtain b c1 es1 where r: "rerouteCircuit opts (res i) c = Some (b, c1, es1)" and c1: "c_Id c1 = c_Id c" "c_ServiceId c1 = c_ServiceId c"
    "c_Terminator c1 = Some t" "Nodes (c_Path c1) \<noteq> []" "\<not> c_Rerouting c1" "b \<or> no_unroute es1"
    by (rule rerouteCircuit_cases [OF inv Suc.prems(1-3), of opts])
  have nb: "\<not> b" using Suc.prems(4) r by (cases b) simp_all
  obtain es2 where rest: "reroute_tries opts res (Suc i) k c1 = Some (False, c', es2)" "es = es1 @ es2"
    using Suc.prems(4) r nb by (auto split: option.splits)
  from Suc.IH [OF c1(3-5) rest(1)] show ?case using c1(1,2,6) nb rest(2) by (auto simp: no_unroute_def)
qed

text \<open>The circuit tables of a controller: the key of a circuit is its id.\<close>

definition table_ok :: "circuit cmap \<Rightarrow> bool" where
  "table_ok cs \<longleftrightarrow> distinct (map fst cs) \<and> (\<forall>(i, c) \<in> set cs. c_Id c = i)"

lemma Circuit_All_get:
  assumes "table_ok cs"
  shows "c \<in> set (Circuit_All cs) \<longleftrightarrow> map_of cs (c_Id c) = Some c"
  using assms by (force simp: table_ok_def Circuit_All_def)

lemma RemoveCircuit_found:
  assumes "map_of cs i = Some c" and "c_Id c = i" and "c_Terminator c = Some t"
  shows "\<exists>es. RemoveCircuit rg i now cs = Some (True, AList.delete i cs, es) \<and>
    (\<forall>r j b. SentUnroute r j b \<in> set es \<longleftrightarrow> j = i \<and> b = now \<and> r \<in> set (Nodes (c_Path c)))"
  using assms by (auto simp: RemoveCircuit_def Circuit_Get_def Circuit_Remove_def split: option.split)

section \<open>Candidates\<close>

lemma reroute_ceiling_cap: "reroute_ceiling opts k \<le> int (unat (opt_RerouteCap opts))"
  by (simp add: reroute_ceiling_def Let_def)

text \<open>What a candidate is: a circuit of the table with a recomputed path that qualifies.\<close>

definition candidate_ok :: "network_options \<Rightarrow> net \<Rightarrow> (string \<Rightarrow> ranks) \<Rightarrow> int cmap \<Rightarrow> circuit cmap \<Rightarrow> string \<Rightarrow> circuit \<Rightarrow> path \<Rightarrow> bool" where
  "candidate_ok opts n rks costs cs i c q \<longleftrightarrow> map_of cs i = Some c \<and>
     UpdatePath (fst (rks i)) (snd (rks i)) n (opt_MinRouterCost opts) (c_Path c) = Some (Inr q) \<and>
     is_candidate opts n c (case map_of costs i of Some x \<Rightarrow> x | None \<Rightarrow> 0) q"

lemma candidate_loop_ok:
  assumes inv: "net_inv {} n" and cb: "cost_bounded n"
    and valid: "\<forall>i \<in> set ids. \<forall>c. map_of cs i = Some c \<longrightarrow> Nodes (c_Path c) \<noteq> []"
  shows "\<exists>is cqs. candidate_loop opts n rks ceil costs cs ids count = Some cqs \<and> int (length cqs) \<le> max 0 (ceil - count) \<and>
    subseq is ids \<and> list_all2 (\<lambda>i (c, q). candidate_ok opts n rks costs cs i c q) is cqs"
  using valid
proof (induction ids arbitrary: count)
  case Nil
  show ?case by (intro exI [of _ "[]"]) simp
next
  case (Cons i ids)
  have IH: "\<exists>is cqs. candidate_loop opts n rks ceil costs cs ids k = Some cqs \<and> int (length cqs) \<le> max 0 (ceil - k) \<and>
    subseq is ids \<and> list_all2 (\<lambda>i (c, q). candidate_ok opts n rks costs cs i c q) is cqs" for k
    using Cons.IH [of k] Cons.prems by simp
  obtain js cqs where skip: "candidate_loop opts n rks ceil costs cs ids count = Some cqs" "int (length cqs) \<le> max 0 (ceil - count)"
    "subseq js (i # ids)" "list_all2 (\<lambda>i (c, q). candidate_ok opts n rks costs cs i c q) js cqs"
    using IH [of count] list_emb_Cons by blast
  show ?case
  proof (cases "map_of cs i")
    case None
    then have "candidate_loop opts n rks ceil costs cs (i # ids) count = Some cqs" using skip(1) by (simp add: Circuit_Get_def)
    then show ?thesis using skip(2-4) by blast
  next
    case (Some c)
    let ?u = "UpdatePath (fst (rks i)) (snd (rks i)) n (opt_MinRouterCost opts) (c_Path c)"
    let ?old = "case map_of costs i of Some x \<Rightarrow> x | None \<Rightarrow> 0"
    have "Nodes (c_Path c) \<noteq> []" using Cons.prems Some by simp
    then obtain res where u: "?u = Some res" using UpdatePath_result [OF inv cb] by blast
    show ?thesis
    proof (cases "\<exists>q. res = Inr q \<and> count < ceil \<and> is_candidate opts n c ?old q")
      case True
      then obtain q where q: "res = Inr q" "count < ceil" "is_candidate opts n c ?old q" by blast
      obtain ks cqs' where take: "candidate_loop opts n rks ceil costs cs ids (count + 1) = Some cqs'"
        "int (length cqs') \<le> max 0 (ceil - (count + 1))" "subseq ks ids"
        "list_all2 (\<lambda>i (c, q). candidate_ok opts n rks costs cs i c q) ks cqs'" using IH [of "count + 1"] by blast
      have "candidate_loop opts n rks ceil costs cs (i # ids) count = Some ((c, q) # cqs')"
        using Some u q take(1) by (simp add: Circuit_Get_def)
      moreover have "int (length ((c, q) # cqs')) \<le> max 0 (ceil - count)" using take(2) q(2) by simp
      moreover have "subseq (i # ks) (i # ids)" using take(3) by simp
      moreover have "list_all2 (\<lambda>i (c, q). candidate_ok opts n rks costs cs i c q) (i # ks) ((c, q) # cqs')"
        using take(4) Some u q by (simp add: candidate_ok_def)
      ultimately show ?thesis by blast
    next
      case False
      then have "candidate_loop opts n rks ceil costs cs (i # ids) count = Some cqs"
        using Some u skip(1) by (cases res) (auto simp: Circuit_Get_def)
      then show ?thesis using skip(2-4) by blast
    qed
  qed
qed

lemma UpdatePath_cost:
  assumes inv: "net_inv {} n" and cb: "cost_bounded n" and u: "UpdatePath qr nr n m p = Some (Inr q)"
  shows "0 \<le> Path_Cost n m q \<and> Path_Cost n m q < 4294967296"
proof -
  let ?s = "Nodes p ! 0" and ?t = "Nodes p ! (length (Nodes p) - 1)"
  obtain ns c where sp: "shortestPath qr nr n m (Some ?s) (Some ?t) = Some (Inr (ns, c))"
    and links: "setLinks n \<lparr>Nodes = ns, Links = [], IngressId = IngressId p, EgressId = EgressId p,
      InitiatorLocalAddr = InitiatorLocalAddr p, InitiatorRemoteAddr = InitiatorRemoteAddr p,
      TerminatorLocalAddr = TerminatorLocalAddr p, TerminatorRemoteAddr = TerminatorRemoteAddr p\<rparr> = Inr q"
    using u by (auto simp: UpdatePath_def Let_def split: if_splits option.splits sum.splits)
  from shortestPath_links [OF inv cb sp, of "\<lparr>Nodes = ns, Links = [], IngressId = IngressId p, EgressId = EgressId p,
      InitiatorLocalAddr = InitiatorLocalAddr p, InitiatorRemoteAddr = InitiatorRemoteAddr p,
      TerminatorLocalAddr = TerminatorLocalAddr p, TerminatorRemoteAddr = TerminatorRemoteAddr p\<rparr>"] links
  have "Path_Cost n m q = router_cost n m (hd ns) + c" by auto
  moreover have "0 \<le> c" "c < maxInt32"
    using shortestPath_found [OF cb sp] net_graph.weight_nonneg [of "(n, m, current_instance n ?s, current_instance n ?t)"] cb by auto
  ultimately show ?thesis using router_cost_bounds [of n m "hd ns"] by (simp add: maxInt32_def)
qed

lemma calculateCircuitCost_range: "calculateCircuitCost opts n p \<le> maxInt64"
proof -
  have le: "fold (\<lambda>x cost. wrap64 (cost + f x)) xs acc \<le> maxInt64" if "acc \<le> maxInt64" for f and xs :: "nat list" and acc
    using that by (induction xs arbitrary: acc) (simp_all add: wrap64_le_maxInt64)
  show ?thesis unfolding calculateCircuitCost_def by (intro le) (simp_all add: maxInt64_def)
qed

lemma circuit_costs_get:
  assumes "table_ok cs"
  shows "map_of (circuit_costs opts n cs) i =
    (case map_of cs i of
       None \<Rightarrow> None
     | Some c \<Rightarrow> if IsValid (Some (c_Path c)) then Some (calculateCircuitCost opts n (c_Path c)) else None)"
  using assms
proof (induction cs)
  case (Cons ic cs)
  then have "fst ic \<notin> fst ` set cs" by (simp add: table_ok_def)
  then have "map_of cs (fst ic) = None" by (simp add: map_of_eq_None_iff)
  then show ?case using Cons by (cases ic) (auto simp: circuit_costs_def Circuit_All_def table_ok_def split: option.split)
qed (simp add: circuit_costs_def Circuit_All_def)

lemma circuit_costs_keys:
  assumes "table_ok cs"
  shows "distinct (map fst (circuit_costs opts n cs))"
proof -
  have "map fst (circuit_costs opts n cs) = map c_Id (filter (\<lambda>c. IsValid (Some (c_Path c))) (Circuit_All cs))"
    by (simp add: circuit_costs_def)
  moreover have "map c_Id (Circuit_All cs) = map fst cs" using assms by (auto simp: table_ok_def Circuit_All_def)
  ultimately show ?thesis using assms by (metis (no_types, lifting) distinct_map_filter table_ok_def)
qed

lemma candidate_ids:
  assumes "table_ok cs" and "list_all2 (\<lambda>i (c, q). candidate_ok opts n rks costs cs i c q) is cqs"
  shows "map (c_Id \<circ> fst) cqs = is"
  using assms(2,1) by (induction rule: list_all2_induct) (auto simp: candidate_ok_def table_ok_def dest: map_of_SomeD)

lemma candidate_ids_nth:
  assumes cs: "table_ok cs" and all: "list_all2 (\<lambda>i (c, q). candidate_ok opts n rks costs cs i c q) is cqs" and cq: "(c, q) \<in> set cqs"
  shows "candidate_ok opts n rks costs cs (c_Id c) c q"
  using all cq cs
  by (induction rule: list_all2_induct) (auto simp: candidate_ok_def table_ok_def dest: map_of_SomeD)

lemma candidate_gain:
  assumes inv: "net_inv {} n" and cb: "cost_bounded n" and cs: "table_ok cs"
    and costs: "\<forall>c \<in> set (Circuit_All cs). 0 \<le> calculateCircuitCost opts n (c_Path c)"
    and ok: "candidate_ok opts n rks (circuit_costs opts n cs) cs (c_Id c) c q"
  shows "c \<in> set (Circuit_All cs) \<and> path_ok n q \<and> \<not> EqualPath q (c_Path c) \<and>
    IngressId q = IngressId (c_Path c) \<and> EgressId q = EgressId (c_Path c) \<and>
    Path_Cost n (opt_MinRouterCost opts) q + int (unat (opt_MinCostDelta opts)) \<le> calculateCircuitCost opts n (c_Path c)"
proof -
  let ?m = "opt_MinRouterCost opts" and ?i = "c_Id c"
  have c: "map_of cs ?i = Some c" and u: "UpdatePath (fst (rks ?i)) (snd (rks ?i)) n ?m (c_Path c) = Some (Inr q)"
    and cand: "is_candidate opts n c (case map_of (circuit_costs opts n cs) ?i of Some x \<Rightarrow> x | None \<Rightarrow> 0) q"
    using ok by (simp_all add: candidate_ok_def)
  have all: "c \<in> set (Circuit_All cs)" using c Circuit_All_get [OF cs] by blast
  have ne: "Nodes (c_Path c) \<noteq> []" using u by (auto simp: UpdatePath_def)
  then have old: "map_of (circuit_costs opts n cs) ?i = Some (calculateCircuitCost opts n (c_Path c))"
    using circuit_costs_get [OF cs, of opts n ?i] c by (simp add: IsValid_def)
  let ?old = "calculateCircuitCost opts n (c_Path c)" and ?new = "Path_Cost n ?m q"
  have "wrap64 (?old - ?new) = ?old - ?new"
    using UpdatePath_cost [OF inv cb u] calculateCircuitCost_range [of opts n "c_Path c"] costs all
    by (intro wrap64_id) (auto simp: maxInt64_def)
  then have "?new + int (unat (opt_MinCostDelta opts)) \<le> ?old" "\<not> EqualPath q (c_Path c)"
    using cand old by (simp_all add: is_candidate_def)
  then show ?thesis using UpdatePath_result [OF inv cb ne, of "fst (rks ?i)" "snd (rks ?i)" ?m] u all by simp
qed

section \<open>Confirmations\<close>

text \<open>When a confirmation of router \<open>r\<close> ends a circuit that the router is part of.\<close>

definition expired :: "net \<Rightarrow> registry_env \<Rightarrow> nat \<Rightarrow> circuit_confirmation \<Rightarrow> circuit \<Rightarrow> bool" where
  "expired n rg r confirm c \<longleftrightarrow> HasRouter n c (router_id n r) \<and>
     (case rg_service rg (c_ServiceId c) of
        None \<Rightarrow> True
      | Some svc \<Rightarrow> \<exists>idle. map_of (cc_IdleTimes confirm) (c_Id c) = Some idle \<and> svc_MaxIdleTime svc \<noteq> 0 \<and>
          svc_MaxIdleTime svc \<le> idle \<and> IsEndpointRouter n c (router_id n r))"

definition usable_table :: "circuit cmap \<Rightarrow> bool" where
  "usable_table cs \<longleftrightarrow> (\<forall>i c. map_of cs i = Some c \<longrightarrow> c_Id c = i \<and> c_Terminator c \<noteq> None)"

text \<open>What a confirmation of the circuits \<open>ids\<close> makes of the table, and what it sends.\<close>

definition confirmed ::
  "net \<Rightarrow> registry_env \<Rightarrow> nat \<Rightarrow> circuit_confirmation \<Rightarrow> string set \<Rightarrow> circuit cmap \<Rightarrow> circuit cmap \<Rightarrow> circuit_effect list \<Rightarrow> bool" where
  "confirmed n rg r confirm ids cs cs' es \<longleftrightarrow>
     (\<forall>i. map_of cs' i = (if i \<in> ids \<and> (\<exists>c. map_of cs i = Some c \<and> expired n rg r confirm c) then None else map_of cs i)) \<and>
     (\<forall>i \<in> ids. (\<forall>c. map_of cs i = Some c \<longrightarrow> \<not> HasRouter n c (router_id n r)) \<longrightarrow> SentUnroute r i True \<in> set es) \<and>
     (\<forall>i \<in> ids. \<forall>c. map_of cs i = Some c \<and> expired n rg r confirm c \<longrightarrow>
        (\<forall>x \<in> set (Nodes (c_Path c)). SentUnroute x i True \<in> set es)) \<and>
     (\<forall>i c x now. map_of cs i = Some c \<and> HasRouter n c (router_id n r) \<and> \<not> expired n rg r confirm c \<longrightarrow>
        SentUnroute x i now \<notin> set es)"

lemma checkCircuitMaxIdle_confirmed:
  assumes cs: "usable_table cs" and c: "map_of cs i = Some c" "HasRouter n c (router_id n r)"
  shows "\<exists>cs' es. checkCircuitMaxIdle n rg r confirm c cs = Some (cs', es) \<and> confirmed n rg r confirm {i} cs cs' es"
proof -
  obtain t where t: "c_Id c = i" "c_Terminator c = Some t" using cs c(1) unfolding usable_table_def by blast
  obtain es where R: "RemoveCircuit rg i True cs = Some (True, AList.delete i cs, es)"
    "\<forall>r j b. SentUnroute r j b \<in> set es \<longleftrightarrow> j = i \<and> b = True \<and> r \<in> set (Nodes (c_Path c))"
    using RemoveCircuit_found [OF c(1) t] by blast
  have "confirmed n rg r confirm {i} cs (AList.delete i cs) es" if "expired n rg r confirm c"
    using that c R(2) unfolding confirmed_def by (auto simp: delete_conv')
  moreover have "confirmed n rg r confirm {i} cs cs []" if "\<not> expired n rg r confirm c"
    using that c unfolding confirmed_def by auto
  ultimately show ?thesis using c(2) t R(1)
    by (auto simp: checkCircuitMaxIdle_def expired_def split: option.splits)
qed

lemma confirmed_step:
  assumes "confirmed n rg r confirm {i} cs cs1 es1" and "confirmed n rg r confirm ids cs1 cs' es2"
  shows "confirmed n rg r confirm (insert i ids) cs cs' (es1 @ es2)"
  using assms unfolding confirmed_def by (auto split: if_splits)

lemma confirmed_usable: "usable_table cs \<Longrightarrow> confirmed n rg r confirm ids cs cs' es \<Longrightarrow> usable_table cs'"
  unfolding usable_table_def confirmed_def by (auto split: if_splits)

lemma confirm_loop_confirmed:
  assumes "usable_table cs"
  shows "\<exists>cs' es. confirm_loop n rg r confirm ids cs = Some (cs', es) \<and> confirmed n rg r confirm (set ids) cs cs' es"
  using assms
proof (induction ids arbitrary: cs)
  case Nil
  then show ?case by (simp add: confirmed_def)
next
  case (Cons i ids)
  let ?found = "case Circuit_Get cs i of Some c \<Rightarrow> if HasRouter n c (router_id n r) then Some c else None | None \<Rightarrow> None"
  have "\<exists>cs1 es1. (case ?found of Some c \<Rightarrow> checkCircuitMaxIdle n rg r confirm c cs | None \<Rightarrow> Some (cs, [SentUnroute r i True])) =
      Some (cs1, es1) \<and> confirmed n rg r confirm {i} cs cs1 es1"
  proof (cases ?found)
    case None
    then have "\<forall>c. map_of cs i = Some c \<longrightarrow> \<not> HasRouter n c (router_id n r)" by (auto simp: Circuit_Get_def split: option.splits if_splits)
    then have "confirmed n rg r confirm {i} cs cs [SentUnroute r i True]" by (auto simp: confirmed_def expired_def)
    then show ?thesis using None by simp
  next
    case (Some c)
    then have "map_of cs i = Some c" "HasRouter n c (router_id n r)" by (auto simp: Circuit_Get_def split: option.splits if_splits)
    from checkCircuitMaxIdle_confirmed [OF Cons.prems this] Some show ?thesis by simp
  qed
  then obtain cs1 es1 where step: "(case ?found of Some c \<Rightarrow> checkCircuitMaxIdle n rg r confirm c cs | None \<Rightarrow> Some (cs, [SentUnroute r i True])) =
      Some (cs1, es1)" "confirmed n rg r confirm {i} cs cs1 es1" by blast
  from Cons.IH [OF confirmed_usable [OF Cons.prems step(2)]] obtain cs' es' where
    "confirm_loop n rg r confirm ids cs1 = Some (cs', es')" "confirmed n rg r confirm (set ids) cs1 cs' es'" by blast
  then show ?case using step confirmed_step [OF step(2)] by (simp add: Let_def)
qed

section \<open>Fault messages\<close>

lemma split_ids_append:
  assumes "CHR '' '' \<notin> set i"
  shows "split_ids (i @ CHR '' '' # rest) = i # split_ids rest" and "split_ids i = [i]"
  using assms by (induction i) auto

lemma split_join_ids:
  "ids \<noteq> [] \<Longrightarrow> \<forall>i \<in> set ids. CHR '' '' \<notin> set i \<Longrightarrow> split_ids (join_ids ids) = ids"
  by (induction ids rule: join_ids.induct) (auto simp: split_ids_append)

section \<open>Properties\<close>

text \<open>
  C35. One try to reroute a circuit, in a network that does not change meanwhile, always returns. It
  fails without a message if every route between the current connections of the circuit's end points
  costs at least the limit of the search. Otherwise the circuit gets a complete path between them, with
  the ids and addresses of the old path, and nothing else of it changes but the time of the update. The
  routers of the new path are sent their own messages of that path, in its order. If all accept, exactly
  the connected routers that were on the old path and are not on the new one are told to forget the
  circuit. If one refuses, the try fails, the router that refused is the last to get a message, and no
  router is told to forget the circuit.
\<close>

theorem rerouteCircuit_outcome:
  assumes net: "reachable_net (re_net re)" "cost_bounded (re_net re)"
    and c: "c_Terminator c = Some t" "Nodes (c_Path c) \<noteq> []" "\<not> c_Rerouting c"
    and ends: "x = current_instance (re_net re) (hd (Nodes (c_Path c)))" "y = current_instance (re_net re) (last (Nodes (c_Path c)))"
  shows "\<exists>b c' es. rerouteCircuit opts re c = Some (b, c', es) \<and>
    (\<not> b \<and> c' = c \<and> es = [] \<and>
       (\<forall>ns. route_between (re_net re) x y ns \<longrightarrow> maxInt32 \<le> weight (edge_cost (re_net re) (opt_MinRouterCost opts) x y) ns) \<or>
     (\<exists>q. c' = c\<lparr>c_Path := q, c_UpdatedAt := re_now re\<rparr> \<and> path_ok (re_net re) q \<and>
        q = (c_Path c)\<lparr>Nodes := Nodes q, Links := Links q\<rparr> \<and> hd (Nodes q) = x \<and> last (Nodes q) = y \<and> moved re t q c b es))"
proof -
  note inv = reachable_net_inv [OF net(1)]
  let ?u = "UpdatePath (fst (re_ranks re)) (snd (re_ranks re)) (re_net re) (opt_MinRouterCost opts) (c_Path c)"
  from rerouteCircuit_result [OF inv net(2) c, of opts] show ?thesis
  proof (elim disjE exE conjE)
    assume r: "rerouteCircuit opts re c = Some (False, c, [])" and u: "?u = Some (Inl CantRoute)"
    show ?thesis unfolding ends using UpdatePath_failed [OF net(2) c(2) u] r by blast
  next
    fix q b es assume u: "?u = Some (Inr q)" and r: "path_ok (re_net re) q" "moved re t q c b es"
      "rerouteCircuit opts re c = Some (b, c\<lparr>c_Path := q, c_UpdatedAt := re_now re\<rparr>, es)"
    have "hd (Nodes q) = x" "last (Nodes q) = y"
      using UpdatePath_result [OF inv net(2) c(2), of "fst (re_ranks re)" "snd (re_ranks re)" "opt_MinRouterCost opts"] u unfolding ends by simp_all
    then show ?thesis using r UpdatePath_fields [OF u] by blast
  qed
qed

text \<open>
  C36. A circuit that could not be rerouted is removed, but not everywhere. The routers told to forget it
  are those of the path of the last try. A router of the original path that is not on that path gets no
  message, although it may still have the routes of the circuit.
\<close>

theorem failed_reroute_leaks:
  assumes envs: "\<forall>k. reachable_net (re_net (res k)) \<and> cost_bounded (re_net (res k))"
    and c: "c_Terminator c = Some t" "Nodes (c_Path c) \<noteq> []" "\<not> c_Rerouting c" "map_of cs (c_Id c) = Some c"
    and failed: "reroute_tries opts res 0 tries c = Some (False, c', es)"
  shows "\<exists>cs' es'. rerouteCircuitWithTries opts rg res tries c cs = Some (False, cs', es') \<and>
    map_of cs' = (map_of cs)(c_Id c := None) \<and>
    (\<forall>r i now. SentUnroute r i now \<in> set es' \<longleftrightarrow> i = c_Id c \<and> now \<and> r \<in> set (Nodes (c_Path c')))"
proof -
  have "\<forall>k. net_inv {} (re_net (res k)) \<and> cost_bounded (re_net (res k))" using envs reachable_net_inv by blast
  note F = reroute_tries_failed [OF this c(1-3) failed]
  let ?cs = "Circuit_Store c' cs"
  have st: "map_of ?cs (c_Id c) = Some c'" "map_of (AList.delete (c_Id c) ?cs) = (map_of cs)(c_Id c := None)"
    using F c(4) by (auto simp: Circuit_Store_def update_conv' delete_conv')
  have c': "c_Id c' = c_Id c" "c_Terminator c' = Some t" using F by blast+
  obtain es1 where R: "RemoveCircuit rg (c_Id c) True ?cs = Some (True, AList.delete (c_Id c) ?cs, es1)"
    "\<forall>r j b. SentUnroute r j b \<in> set es1 \<longleftrightarrow> j = c_Id c \<and> b = True \<and> r \<in> set (Nodes (c_Path c'))"
    using RemoveCircuit_found [OF st(1) c'] by blast
  have "rerouteCircuitWithTries opts rg res tries c cs = Some (False, AList.delete (c_Id c) ?cs, es @ es1)"
    using c(2) failed R(1) by (simp add: rerouteCircuitWithTries_def IsValid_def)
  then show ?thesis using R(2) st(2) F by (auto simp: no_unroute_def)
qed

text \<open>
  C37. Smart rerouting only moves circuits that gain from it. The search for candidates always returns.
  It gives at most as many circuits as the configured cap, each once and from the table. The new path of
  each is complete, differs from the old one, keeps the addresses at both ends, and its cost is below
  the cost of the old path by at least the configured difference.
\<close>

theorem getRerouteCandidates_improve:
  assumes net: "reachable_net n" "cost_bounded n" and cs: "table_ok cs"
    and costs: "\<forall>c \<in> set (Circuit_All cs). 0 \<le> calculateCircuitCost opts n (c_Path c)"
  shows "\<exists>cqs. getRerouteCandidates opts n rks cs = Some cqs \<and> length cqs \<le> unat (opt_RerouteCap opts) \<and>
    distinct (map (c_Id \<circ> fst) cqs) \<and>
    (\<forall>(c, q) \<in> set cqs. c \<in> set (Circuit_All cs) \<and> path_ok n q \<and> \<not> EqualPath q (c_Path c) \<and>
       IngressId q = IngressId (c_Path c) \<and> EgressId q = EgressId (c_Path c) \<and>
       Path_Cost n (opt_MinRouterCost opts) q + int (unat (opt_MinCostDelta opts)) \<le> calculateCircuitCost opts n (c_Path c))"
proof -
  note inv = reachable_net_inv [OF net(1)]
  let ?costs = "circuit_costs opts n cs"
  let ?ids = "map fst (sort_key (\<lambda>(i, cost). - cost) ?costs)"
  have ids: "distinct ?ids" "set ?ids = dom (map_of ?costs)"
    using circuit_costs_keys [OF cs, of opts n] by (simp_all add: distinct_map dom_map_of_conv_image_fst)
  then have "\<forall>i \<in> set ?ids. \<forall>c. map_of cs i = Some c \<longrightarrow> Nodes (c_Path c) \<noteq> []"
    using circuit_costs_get [OF cs, of opts n] by (auto simp: IsValid_def split: option.splits if_splits)
  from candidate_loop_ok [OF inv net(2) this, of opts rks "reroute_ceiling opts (length (Circuit_All cs))" ?costs 0]
  obtain js cqs where loop: "getRerouteCandidates opts n rks cs = Some cqs"
    and len: "int (length cqs) \<le> max 0 (reroute_ceiling opts (length (Circuit_All cs)))" and js: "subseq js ?ids"
    and all: "list_all2 (\<lambda>i (c, q). candidate_ok opts n rks ?costs cs i c q) js cqs"
    by (auto simp: getRerouteCandidates_def Let_def)
  have "length cqs \<le> unat (opt_RerouteCap opts)" using len reroute_ceiling_cap [of opts "length (Circuit_All cs)"] by linarith
  moreover have "map (c_Id \<circ> fst) cqs = js" by (rule candidate_ids [OF cs all])
  then have "distinct (map (c_Id \<circ> fst) cqs)" using js ids(1) by (metis distinct_nthsI subseq_conv_nths)
  moreover have "candidate_ok opts n rks ?costs cs (c_Id c) c q" if "(c, q) \<in> set cqs" for c q
    using candidate_ids_nth [OF cs all that] .
  then have "\<forall>(c, q) \<in> set cqs. c \<in> set (Circuit_All cs) \<and> path_ok n q \<and> \<not> EqualPath q (c_Path c) \<and>
       IngressId q = IngressId (c_Path c) \<and> EgressId q = EgressId (c_Path c) \<and>
       Path_Cost n (opt_MinRouterCost opts) q + int (unat (opt_MinCostDelta opts)) \<le> calculateCircuitCost opts n (c_Path c)"
    using candidate_gain [OF inv net(2) cs costs] by fast
  ultimately show ?thesis using loop by blast
qed

text \<open>
  C38. A router's question about idle circuits is answered completely. The router is told to forget the
  circuits that do not exist or do not use it. A circuit it is part of ends if its service is gone or if
  it is idle for longer than the service allows and the router is an end point, and then all its routers
  are told. All other circuits stay in the table and no router is told to forget them.
\<close>

theorem handleConfirmation_answers:
  assumes "usable_table cs"
  shows "\<exists>cs' es. handleConfirmation n rg r confirm cs = Some (cs', es) \<and>
    confirmed n rg r confirm (set (cc_CircuitIds confirm)) cs cs' es"
  unfolding handleConfirmation_def by (rule confirm_loop_confirmed [OF assms])

text \<open>
  C39. Fault reports are understood. The message that a router's fault reporter sends to a controller is
  split by the controller into exactly the circuits that were waiting for it, in order, as long as
  circuit ids have no spaces. Reports about circuits without a known owner are recognised as such.
\<close>

theorem fault_report_roundtrip:
  assumes tick: "faulter_tick rank ctrls fa = (fa', sent)" and f: "(k, f) \<in> set sent"
    and ids: "\<forall>i \<in> fst ` set (fa_circuitIds fa). CHR '' '' \<notin> set i" and k: "k \<noteq> ''''"
  shows "split_ids (fault_Id f) = pending_faults fa (if fault_Subject f = UnknownOwnerForwardFault then '''' else k)"
proof -
  from f obtain owner where o: "f = \<lparr>fault_Subject = (if owner = '''' then UnknownOwnerForwardFault else ForwardFault),
      fault_Id = join_ids (pending_faults fa owner)\<rparr>" "owner = '''' \<or> owner = k" "pending_faults fa owner \<noteq> []"
    unfolding faulter_tick_spec [OF tick, THEN conjunct2] by blast
  have "\<forall>i \<in> set (pending_faults fa owner). CHR '' '' \<notin> set i" using ids by (auto simp: pending_faults_def)
  then show ?thesis using o k by (auto simp: split_join_ids)
qed

section \<open>Witnesses\<close>

definition sample_circuit :: "nat list \<Rightarrow> circuit" where
  "sample_circuit ns = (reserved_circuit sample_params ''c1'')\<lparr>c_Terminator := Some \<lparr>rt_RouteCost = 0, rt_Terminator = sample_term ''r1''\<rparr>,
     c_Path := sample_route ns []\<rparr>"

definition sample_reroute :: "(nat \<Rightarrow> bool) \<Rightarrow> reroute_env" where
  "sample_reroute ok = \<lparr>re_net = foldl net_step sample_net sample_ops, re_ranks = (\<lambda>_ r. r, \<lambda>_ _. 0), re_remaining = 10, re_ok = ok, re_now = 8\<rparr>"

definition sample_registry :: registry_env where
  "sample_registry = \<lparr>rg_service = (\<lambda>_. Some sample_service), rg_strategy = (\<lambda>_. Some smartrouting)\<rparr>"

lemma sample_circuit_ok:
  "c_Terminator (sample_circuit ns) = Some \<lparr>rt_RouteCost = 0, rt_Terminator = sample_term ''r1''\<rparr>" "Nodes (c_Path (sample_circuit ns)) = ns"
  "\<not> c_Rerouting (sample_circuit ns)" "c_Id (sample_circuit ns) = ''c1''"
  by (simp_all add: sample_circuit_def sample_route_def reserved_circuit_def)

lemma sample_reroute_net: "reachable_net (re_net (sample_reroute ok))" "cost_bounded (re_net (sample_reroute ok))"
  using sample_env_net [of None "[]"] by (simp_all add: sample_reroute_def sample_env_def)

lemma sample_update:
  "UpdatePath (\<lambda>_ r. r) (\<lambda>_ _. 0) (foldl net_step sample_net sample_ops) 10 (sample_route (0 # ns @ [1]) ls) = Some (Inr (sample_route [0, 1] [0]))"
proof -
  have "LeastExpensiveLink (foldl net_step sample_net sample_ops) 0 (Suc 0) = Some 0"
    by (simp add: sample_net_defs net_op_defs LeastExpensiveLink_def least_step_def maxInt64_def wrap64_def)
  then show ?thesis using sample_path by (simp add: UpdatePath_def sample_route_def setLinks_def)
qed

theorem rerouteCircuit_outcome_witness:
  "\<exists>c' es q. rerouteCircuit sample_options (sample_reroute (\<lambda>_. True)) (sample_circuit [0, 2, 1]) = Some (True, c', es) \<and> c_Path c' = q \<and>
     moved (sample_reroute (\<lambda>_. True)) \<lparr>rt_RouteCost = 0, rt_Terminator = sample_term ''r1''\<rparr> q (sample_circuit [0, 2, 1]) True es"
proof -
  let ?re = "sample_reroute (\<lambda>_. True)" and ?c = "sample_circuit [0, 2, 1]"
  obtain es where r: "rerouteCircuit sample_options ?re ?c = Some (True, ?c\<lparr>c_Path := sample_route [0, 1] [0], c_UpdatedAt := 8\<rparr>, es)"
    using sample_update [of "[2]" "[]"]
    by (auto simp: rerouteCircuit_def sample_reroute_def sample_options_def sample_circuit_def reserved_circuit_def switch_path_def
        sample_route_def CreateRouteMessages_map Let_def)
  have "Nodes (c_Path ?c) \<noteq> []" by (simp add: sample_circuit_ok)
  from rerouteCircuit_outcome [OF sample_reroute_net(1) [where ok = "\<lambda>_. True"] sample_reroute_net(2) sample_circuit_ok(1) this
      sample_circuit_ok(3) refl refl, of sample_options] r
  obtain q where "?c\<lparr>c_Path := sample_route [0, 1] [0], c_UpdatedAt := 8\<rparr> = ?c\<lparr>c_Path := q, c_UpdatedAt := re_now ?re\<rparr>"
    "moved ?re \<lparr>rt_RouteCost = 0, rt_Terminator = sample_term ''r1''\<rparr> q ?c True es" by auto
  moreover from this(1) have "q = sample_route [0, 1] [0]" by (metis circuit.select_convs(5) circuit.surjective circuit.update_convs(5,10))
  ultimately show ?thesis using r by auto
qed

lemma sample_refused:
  assumes "c = sample_circuit [0, 2, 1] \<or> c = (sample_circuit [0, 2, 1])\<lparr>c_Path := sample_route [0, 1] [0], c_UpdatedAt := 8\<rparr>"
  shows "\<exists>es. rerouteCircuit sample_options (sample_reroute (\<lambda>_. False)) c =
    Some (False, (sample_circuit [0, 2, 1])\<lparr>c_Path := sample_route [0, 1] [0], c_UpdatedAt := 8\<rparr>, es)"
  using assms sample_update [of "[2]" "[]"] sample_update [of "[]" "[0]"]
  by (auto simp: rerouteCircuit_def sample_reroute_def sample_options_def sample_circuit_def reserved_circuit_def switch_path_def
      sample_route_def CreateRouteMessages_map Let_def)

theorem failed_reroute_leaks_witness:
  "\<exists>cs' es'. rerouteCircuitWithTries sample_options sample_registry (\<lambda>_. sample_reroute (\<lambda>_. False)) 2 (sample_circuit [0, 2, 1])
      [(''c1'', sample_circuit [0, 2, 1])] = Some (False, cs', es') \<and>
    SentUnroute 0 ''c1'' True \<in> set es' \<and> SentUnroute 2 ''c1'' True \<notin> set es'"
proof -
  let ?c = "sample_circuit [0, 2, 1]" and ?re = "sample_reroute (\<lambda>_. False)"
  let ?c' = "?c\<lparr>c_Path := sample_route [0, 1] [0], c_UpdatedAt := 8\<rparr>"
  obtain es1 es2 where "rerouteCircuit sample_options ?re ?c = Some (False, ?c', es1)" "rerouteCircuit sample_options ?re ?c' = Some (False, ?c', es2)"
    using sample_refused [of ?c] sample_refused [of ?c'] by blast
  then have "reroute_tries sample_options (\<lambda>_. ?re) 0 2 ?c = Some (False, ?c', es1 @ es2)" by (simp add: numeral_2_eq_2)
  from failed_reroute_leaks [OF _ sample_circuit_ok(1) _ sample_circuit_ok(3) _ this, of "[(''c1'', ?c)]" sample_registry]
  show ?thesis using sample_reroute_net by (auto simp: sample_circuit_ok) (auto simp: sample_route_def)
qed

theorem getRerouteCandidates_improve_witness:
  "\<exists>cqs. getRerouteCandidates sample_options (foldl net_step sample_net sample_ops) (\<lambda>_. (\<lambda>_ r. r, \<lambda>_ _. 0))
      [(''c1'', sample_circuit [0, 2, 1])] = Some cqs \<and> length cqs \<le> 4"
proof -
  let ?n = "foldl net_step sample_net sample_ops" and ?cs = "[(''c1'', sample_circuit [0, 2, 1])]"
  have cs: "table_ok ?cs" by (simp add: table_ok_def sample_circuit_ok)
  define f where "f = (\<lambda>r. router_cost ?n (opt_MinRouterCost sample_options)
    (case GetConnected ?n (router_id ?n r) of Some cr \<Rightarrow> cr | None \<Rightarrow> r))"
  have b: "0 \<le> f r \<and> f r < 65536" for r unfolding f_def by (rule router_cost_bounds)
  have p: "Nodes (c_Path (sample_circuit [0, 2, 1])) = [0, 2, 1]" "Links (c_Path (sample_circuit [0, 2, 1])) = []"
    by (simp_all add: sample_circuit_def sample_route_def)
  have "calculateCircuitCost sample_options ?n (c_Path (sample_circuit [0, 2, 1])) = fold (\<lambda>r cost. wrap64 (cost + f r)) [0, 2, 1] 0"
    unfolding calculateCircuitCost_def p f_def by simp
  moreover have "f 0 + (f 2 + f (Suc 0)) \<le> maxInt64" using b [of 0] b [of "Suc 0"] b [of 2] unfolding maxInt64_def by linarith
  then have "fold (\<lambda>r cost. wrap64 (cost + f r)) [0, 2, 1] 0 = 0 + sum_list (map f [0, 2, 1])" by (intro fold_wrap_sum) (auto simp: b)
  ultimately
  have "0 \<le> calculateCircuitCost sample_options ?n (c_Path (sample_circuit [0, 2, 1]))" using b [of 0] b [of 1] b [of 2] by simp
  then have "\<forall>c \<in> set (Circuit_All ?cs). 0 \<le> calculateCircuitCost sample_options ?n (c_Path c)" by (simp add: Circuit_All_def)
  from getRerouteCandidates_improve [OF _ _ cs this, of "\<lambda>_. (\<lambda>_ r. r, \<lambda>_ _. 0)"] show ?thesis
    using sample_reroute_net [of "\<lambda>_. True"] by (auto simp: sample_reroute_def sample_options_def)
qed

theorem handleConfirmation_answers_witness:
  "\<exists>cs' es. handleConfirmation (foldl net_step sample_net sample_ops) sample_registry 0
      \<lparr>cc_CircuitIds = [''c1'', ''gone''], cc_IdleTimes = [(''c1'', 5)]\<rparr> [(''c1'', sample_circuit [0, 2, 1])] = Some (cs', es) \<and>
    SentUnroute 0 ''gone'' True \<in> set es"
proof -
  have "usable_table [(''c1'', sample_circuit [0, 2, 1])]" by (simp add: usable_table_def sample_circuit_ok)
  from handleConfirmation_answers [OF this, of "foldl net_step sample_net sample_ops" sample_registry 0
      "\<lparr>cc_CircuitIds = [''c1'', ''gone''], cc_IdleTimes = [(''c1'', 5)]\<rparr>"]
  show ?thesis unfolding confirmed_def by fastforce
qed

theorem fault_report_roundtrip_witness:
  "split_ids (fault_Id (snd (hd (snd (faulter_tick (\<lambda>_. 0) [''ctrl1''] \<lparr>fa_interval = 1, fa_circuitIds = [(''c'', ''ctrl1''), (''d'', ''ctrl1'')]\<rparr>))))) =
   [''c'', ''d'']"
proof -
  let ?fa = "\<lparr>fa_interval = 1, fa_circuitIds = [(''c'', ''ctrl1''), (''d'', ''ctrl1'')]\<rparr>"
  obtain fa' where t: "faulter_tick (\<lambda>_. 0) [''ctrl1''] ?fa = (fa', [(''ctrl1'', \<lparr>fault_Subject = ForwardFault, fault_Id = ''c d''\<rparr>)])"
    by (simp add: faulter_tick_def workloadByCtrl_def workload_step_def send_workload_def report_step_def range_order_def)
  from fault_report_roundtrip [OF t, of "''ctrl1''" "\<lparr>fault_Subject = ForwardFault, fault_Id = ''c d''\<rparr>"] t
  show ?thesis by (simp add: pending_faults_def)
qed

end
