(* ===== verification/Data_Plane.thy ===== *)
theory Data_Plane
  imports Circuit_Rerouting
begin

text \<open>
  The data plane of a router around its forwarder: the handlers of payloads, acknowledgements and
  control messages that arrive on links (\<^verbatim>\<open>router/handler_link\<close>), the adapter and the close handler of
  xgresses (\<^verbatim>\<open>router/handler_xgress\<close>).

  The step relation \<open>hop\<close> moves a payload from router to router. It joins the parts of the library: the
  route messages of a path, the route handlers of its routers and their forwarders carry a payload from
  one end of a circuit to the other.
\<close>

section \<open>Messages that arrive on a link\<close>

text \<open>The state is the forwarder and the fault reporter of the router.\<close>

definition link_payload_HandleReceive ::
  "(destination \<Rightarrow> bool) \<Rightarrow> string \<Rightarrow> string \<Rightarrow> int \<Rightarrow> forwarder \<times> faulter option \<Rightarrow> forwarder \<times> faulter option" where
  "link_payload_HandleReceive fails linkId circuitId now st =
     (case st of (f, fa) \<Rightarrow>
        case ForwardPayload fails linkId circuitId 0 now f of
          (f', Inr _) \<Rightarrow> (f', fa)
        | (f', Inl _) \<Rightarrow> (f', ReportForwardingFault circuitId '''' f' fa))"

definition link_ack_HandleReceive ::
  "(destination \<Rightarrow> bool) \<Rightarrow> string \<Rightarrow> string \<Rightarrow> int \<Rightarrow> forwarder \<Rightarrow> forwarder" where
  "link_ack_HandleReceive fails linkId circuitId now f = fst (ForwardAcknowledgement fails linkId circuitId now f)"

definition link_control_HandleReceive ::
  "'c control_ops \<Rightarrow> (destination \<Rightarrow> bool) \<Rightarrow> string \<Rightarrow> 'c \<Rightarrow> int \<Rightarrow> forwarder \<Rightarrow> forwarder option" where
  "link_control_HandleReceive ops fails linkId control now f = map_option fst (ForwardControl ops fails linkId control now f)"

section \<open>Xgresses\<close>

text \<open>
  The adapter forwards a payload again as long as the send times out. Each try has the destinations that
  fail and whether such a failure is a timeout. The result \<open>None\<close> means that all these tries timed out.
\<close>

fun adapter_ForwardPayload ::
  "((destination \<Rightarrow> bool) \<times> bool) list \<Rightarrow> string \<Rightarrow> string \<Rightarrow> string \<Rightarrow> int \<Rightarrow> forwarder \<times> faulter option \<Rightarrow>
   (forwarder \<times> faulter option \<times> bool) option" where
  "adapter_ForwardPayload [] address ctrlId circuitId now st = None"
| "adapter_ForwardPayload ((fails, timedOut) # tries) address ctrlId circuitId now (f, fa) =
     (case ForwardPayload fails address circuitId 1000000000 now f of
        (f', Inr _) \<Rightarrow> Some (f', fa, True)
      | (f', Inl (SendFailed d)) \<Rightarrow>
          if timedOut then adapter_ForwardPayload tries address ctrlId circuitId now (f', fa)
          else Some (f', ReportForwardingFault circuitId ctrlId f' fa, False)
      | (f', Inl _) \<Rightarrow> Some (f', ReportForwardingFault circuitId ctrlId f' fa, False))"

definition adapter_RetransmitPayload ::
  "(destination \<Rightarrow> bool) \<Rightarrow> string \<Rightarrow> string \<Rightarrow> int \<Rightarrow> forwarder \<times> faulter option \<Rightarrow> (forwarder \<times> faulter option) \<times> bool" where
  "adapter_RetransmitPayload fails srcAddr circuitId now st =
     (case st of (f, fa) \<Rightarrow>
        case RetransmitPayload fails srcAddr circuitId now f of
          (f', Inr _) \<Rightarrow> ((f', fa), True)
        | (f', Inl _) \<Rightarrow> ((f', ReportForwardingFault circuitId '''' f' fa), False))"

text \<open>
  Closing an xgress forwards an end of circuit payload if the SDK asks for one, unregisters the circuit
  and tells the controller of the circuit, if that is connected. The result \<open>None\<close> is the panic of
  unregistering a link as an xgress. The last component lists the faults sent.
\<close>

datatype originator = Initiator | Terminator

definition HandleXgressClose ::
  "(destination \<Rightarrow> bool) \<Rightarrow> bool \<Rightarrow> string list \<Rightarrow> originator \<Rightarrow> string \<Rightarrow> string \<Rightarrow> string \<Rightarrow> int \<Rightarrow> forwarder \<Rightarrow>
   (forwarder \<times> nat list \<times> (string \<times> fault) list) option" where
  "HandleXgressClose fails sendEnd ctrls orig address ctrlId circuitId now f =
     (let f1 = (if sendEnd then fst (ForwardPayload fails address circuitId 1000000000 now f) else f)
      in case EndCircuit circuitId f1 of
           None \<Rightarrow> None
         | Some (f2, unrouted) \<Rightarrow>
             Some (f2, unrouted,
               if ctrlId \<in> set ctrls
               then [(ctrlId, \<lparr>fault_Subject = (case orig of Initiator \<Rightarrow> IngressFault | Terminator \<Rightarrow> EgressFault), fault_Id = circuitId\<rparr>)]
               else []))"

text \<open>
  The adapter returns at the first try that does not time out. A delivered payload leaves the fault
  reporter alone; otherwise exactly the fault of this circuit is reported.
\<close>

lemma adapter_ForwardPayload_returns:
  assumes "(fails, False) \<in> set tries"
  shows "\<exists>r. adapter_ForwardPayload tries address ctrlId c now st = Some r"
  using assms
  by (induction tries address ctrlId c now st rule: adapter_ForwardPayload.induct)
    (auto split: prod.splits sum.splits forward_error.splits)

lemma adapter_ForwardPayload_faults:
  assumes "adapter_ForwardPayload tries address ctrlId c now (f, fa) = Some (f', fa', ok)"
  shows "fa' = (if ok then fa else ReportForwardingFault c ctrlId f' fa)"
  using assms
  by (induction tries address ctrlId c now "(f, fa)" arbitrary: f rule: adapter_ForwardPayload.induct)
    (auto split: prod.splits sum.splits forward_error.splits if_splits)

section \<open>How a payload travels\<close>

text \<open>
  \<open>wire r x\<close> is the other end of link object \<open>x\<close> of router \<open>r\<close>: the router there, and the id of the link,
  which is the source address of what arrives. Forwarding marks the circuit as active, so the forwarders
  are part of the state.
\<close>

inductive hop ::
  "(nat \<Rightarrow> nat \<Rightarrow> (nat \<times> string) option) \<Rightarrow> string \<Rightarrow> (nat \<Rightarrow> forwarder) \<times> nat \<times> string \<Rightarrow>
   (nat \<Rightarrow> forwarder) \<times> nat \<times> string \<Rightarrow> bool" for wire c where
  hopI: "ForwardPayload (\<lambda>_. False) src c timeout now (fs r) = (f', Inr (LinkDest x, ty)) \<Longrightarrow> wire r x = Some (r', a) \<Longrightarrow>
    hop wire c (fs, r, src) (fs(r := f'), r', a)"

inductive_cases hopE: "hop wire c (fs, r, src) (fs', r', a)"

text \<open>Where a forwarder sends payloads of a circuit that come from an address.\<close>

definition next_dest :: "forwarder \<Rightarrow> string \<Rightarrow> string \<Rightarrow> destination option" where
  "next_dest f c src = Option.bind (map_of (f_circuits f) c) (\<lambda>ft. Option.bind (getForwardAddress ft src) (getDestination f))"

lemma getForwardTable_next:
  "next_dest (fst (getForwardTable c mark now f)) c' src = next_dest f c' src"
proof -
  have "getDestination (fst (getForwardTable c mark now f)) = getDestination f"
    by (simp add: fun_eq_iff getDestination_def getForwardTable_tables)
  then show ?thesis
    by (cases "map_of (f_circuits f) c'") (auto simp: next_dest_def getForwardTable_lookup getForwardAddress_def)
qed

lemma ForwardPayload_next:
  assumes "next_dest f c src = Some d"
  shows "\<exists>f' ty. ForwardPayload (\<lambda>_. False) src c timeout now f = (f', Inr (d, ty)) \<and> next_dest f' = next_dest f"
proof -
  obtain ft a where ft: "map_of (f_circuits f) c = Some ft" "getForwardAddress ft src = Some a" "getDestination f a = Some d"
    using assms by (auto simp: next_dest_def bind_eq_Some_conv)
  let ?g = "getForwardTable c True now f"
  have g: "?g = (fst ?g, Some (ft\<lparr>ft_last := now\<rparr>))"
    using getForwardTable_lookup(2) [of c True now f] ft(1) by (simp add: prod_eq_iff)
  have "getDestination (fst ?g) a = Some d" using ft(3) by (simp add: getDestination_def getForwardTable_tables)
  moreover have "getForwardAddress (ft\<lparr>ft_last := now\<rparr>) src = Some a" using ft(2) by (simp add: getForwardAddress_def)
  moreover have "next_dest (fst ?g) = next_dest f" by (simp add: fun_eq_iff getForwardTable_next)
  ultimately show ?thesis unfolding ForwardPayload_def forwardPayload_def
    by (subst g) simp
qed

text \<open>A chain of routers that each send to the next over the wire carries a payload to its end.\<close>

lemma hop_chain:
  assumes "\<And>i. i < k \<Longrightarrow> \<exists>x. next_dest (fs (N i)) c (A i) = Some (LinkDest x) \<and> wire (N i) x = Some (N (Suc i), A (Suc i))"
  shows "\<exists>fs'. (hop wire c)\<^sup>*\<^sup>* (fs, N 0, A 0) (fs', N k, A k) \<and> (\<forall>r. next_dest (fs' r) = next_dest (fs r))"
  using assms
proof (induction k)
  case 0
  show ?case by (intro exI [of _ fs]) simp
next
  case (Suc k)
  then obtain fs' where IH: "(hop wire c)\<^sup>*\<^sup>* (fs, N 0, A 0) (fs', N k, A k)" "\<And>r. next_dest (fs' r) = next_dest (fs r)"
    by (meson less_SucI)
  obtain x where x: "next_dest (fs (N k)) c (A k) = Some (LinkDest x)" "wire (N k) x = Some (N (Suc k), A (Suc k))"
    using Suc.prems by blast
  then have "next_dest (fs' (N k)) c (A k) = Some (LinkDest x)" using IH(2) by simp
  from ForwardPayload_next [OF this, of 0 0] obtain f' ty where
    f': "ForwardPayload (\<lambda>_. False) (A k) c 0 0 (fs' (N k)) = (f', Inr (LinkDest x, ty))" "next_dest f' = next_dest (fs' (N k))"
    by blast
  from hopI [where wire = wire and fs = fs' and r = "N k" and r' = "N (Suc k)" and a = "A (Suc k)", OF f'(1) x(2)]
  have "(hop wire c)\<^sup>*\<^sup>* (fs, N 0, A 0) (fs'(N k := f'), N (Suc k), A (Suc k))"
    using IH(1) by (rule rtranclp.rtrancl_into_rtrancl [rotated])
  moreover have "next_dest ((fs'(N k := f')) r) = next_dest (fs r)" for r using IH(2) f'(2) by simp
  ultimately show ?case by blast
qed
section \<open>From the route messages to delivery\<close>

text \<open>What a router has registered under the id of a link of a path is that link.\<close>

definition wired :: "(nat \<Rightarrow> nat \<Rightarrow> (nat \<times> string) option) \<Rightarrow> net \<Rightarrow> path \<Rightarrow> (nat \<Rightarrow> forwarder) \<Rightarrow> bool" where
  "wired wire n p fs \<longleftrightarrow> (\<forall>i < length (Links p). let r = Nodes p ! i; r' = Nodes p ! Suc i; a = l_Id (net_links n (Links p ! i)) in
     (\<forall>d. getDestination (fs r) a = Some d \<longrightarrow> (\<exists>x. d = LinkDest x \<and> wire r x = Some (r', a))) \<and>
     (\<forall>d. getDestination (fs r') a = Some d \<longrightarrow> (\<exists>x. d = LinkDest x \<and> wire r' x = Some (r, a))))"

lemma wired_ends:
  assumes "wired wire n p fs" and "i < length (Links p)"
  shows "getDestination (fs (Nodes p ! i)) (route_addresses n p ! Suc i) = Some d \<Longrightarrow>
      \<exists>x. d = LinkDest x \<and> wire (Nodes p ! i) x = Some (Nodes p ! Suc i, route_addresses n p ! Suc i)"
    and "getDestination (fs (Nodes p ! Suc i)) (route_addresses n p ! Suc i) = Some d \<Longrightarrow>
      \<exists>x. d = LinkDest x \<and> wire (Nodes p ! Suc i) x = Some (Nodes p ! i, route_addresses n p ! Suc i)"
  using assms unfolding wired_def Let_def route_addresses_nth(3) [OF assms(2)] by blast+

text \<open>A payload that enters router \<open>r\<close> from \<open>src\<close> reaches the xgress \<open>y\<close> of router \<open>r'\<close>.\<close>

definition delivers ::
  "(nat \<Rightarrow> nat \<Rightarrow> (nat \<times> string) option) \<Rightarrow> string \<Rightarrow> (nat \<Rightarrow> forwarder) \<Rightarrow> nat \<Rightarrow> string \<Rightarrow> nat \<Rightarrow> nat \<Rightarrow> bool" where
  "delivers wire c fs r src r' y \<longleftrightarrow> (\<exists>fs' a. (hop wire c)\<^sup>*\<^sup>* (fs, r, src) (fs', r', a) \<and>
     (\<exists>ty. snd (ForwardPayload (\<lambda>_. False) a c 0 0 (fs' r')) = Inr (XgressDest y, ty)))"

lemma delivers_chain:
  assumes chain: "\<And>i. i < k \<Longrightarrow> \<exists>x. next_dest (fs (N i)) c (A i) = Some (LinkDest x) \<and> wire (N i) x = Some (N (Suc i), A (Suc i))"
    and out: "next_dest (fs (N k)) c (A k) = Some (XgressDest y)"
  shows "delivers wire c fs (N 0) (A 0) (N k) y"
proof -
  obtain fs' where h: "(hop wire c)\<^sup>*\<^sup>* (fs, N 0, A 0) (fs', N k, A k)" "\<And>r. next_dest (fs' r) = next_dest (fs r)"
    using hop_chain [where fs = fs and k = k and N = N and A = A and c = c and wire = wire] chain by blast
  have "next_dest (fs' (N k)) c (A k) = Some (XgressDest y)" using out h(2) by simp
  from ForwardPayload_next [OF this, of 0 0] have "\<exists>ty. snd (ForwardPayload (\<lambda>_. False) (A k) c 0 0 (fs' (N k))) = Inr (XgressDest y, ty)"
    by auto
  with h(1) show ?thesis unfolding delivers_def by blast
qed

lemma route_addresses_length: "length (route_addresses n p) = Suc (Suc (length (Links p)))"
  by (simp add: route_addresses_def)

lemma hop_message_pairs:
  assumes "distinct (route_addresses n p)" and "i \<le> length (Links p)"
  shows "map_of (rev (route_pairs (Forwards (hop_message n p attempt c t rem i)))) (route_addresses n p ! i) =
      Some (route_addresses n p ! Suc i) \<and>
    map_of (rev (route_pairs (Forwards (hop_message n p attempt c t rem i)))) (route_addresses n p ! Suc i) =
      Some (route_addresses n p ! i)"
proof -
  have "route_addresses n p ! i \<noteq> route_addresses n p ! Suc i"
    using assms by (simp add: nth_eq_iff_index_eq route_addresses_length)
  then show ?thesis by (simp add: hop_message_def Let_def fwd_def)
qed

text \<open>The forwarder of a router that handled its message sends both ways along the path.\<close>

lemma handled_hop:
  assumes d: "distinct (route_addresses n p)" and i: "i \<le> length (Links p)"
    and m: "Forwards m = Forwards (hop_message n p attempt c t rem i)" "CircuitId m = c"
    and h: "handled m f f'"
  shows "next_dest f' c (route_addresses n p ! i) = getDestination f' (route_addresses n p ! Suc i) \<and>
    next_dest f' c (route_addresses n p ! Suc i) = getDestination f' (route_addresses n p ! i) \<and>
    getDestination f' (route_addresses n p ! Suc i) \<noteq> None \<and>
    (0 < i \<longrightarrow> getDestination f' (route_addresses n p ! i) \<noteq> None)"
proof -
  let ?as = "route_addresses n p"
  note P = hop_message_pairs [OF d i, of attempt c t rem, folded m(1)]
  obtain ft where ft: "map_of (f_circuits f') c = Some ft"
    "getForwardAddress ft (?as ! i) = Some (?as ! Suc i)" "getForwardAddress ft (?as ! Suc i) = Some (?as ! i)"
    using h P unfolding handled_def m(2) by auto
  have H: "HasDestination f' (DstAddress x)" if "x \<in> set (Forwards m)" "DstType x \<noteq> DestStart" for x
    using h that unfolding handled_def by blast
  have "HasDestination f' (?as ! Suc i)"
    using H [of "fwd (?as ! i) (?as ! Suc i) (if i = length (Links p) then DestEnd else DestLink)"]
    by (simp add: m(1) hop_message_def Let_def fwd_def)
  moreover have "HasDestination f' (?as ! i)" if "0 < i"
    using H [of "fwd (?as ! Suc i) (?as ! i) DestLink"] that by (simp add: m(1) hop_message_def Let_def fwd_def)
  ultimately show ?thesis using ft by (auto simp: next_dest_def HasDestination_def)
qed
text \<open>What the routers of a path hold when each has handled its message with success.\<close>

lemma routed_tables:
  assumes d: "distinct (route_addresses n p)" and a: "attempt \<noteq> SmartRerouteAttempt"
    and rms: "dress_messages data tags (CreateRouteMessages n p attempt c t rem) = Some rms"
    and dial: "\<forall>i < length rms. ee_dial (env i) = transport_Dial (te i) (x i)"
    and routed: "\<forall>i < length rms. \<exists>c' k pd. route_HandleReceive (env i) True ctrlId (now i) (rms ! i) (fs0 (Nodes p ! i)) =
      (fs (Nodes p ! i), Some (RouteResultSuccess c' k pd))"
    and i: "i \<le> length (Links p)"
  shows "let as = route_addresses n p; f = fs (Nodes p ! i); f0 = fs0 (Nodes p ! i) in
    next_dest f c (as ! i) = getDestination f (as ! Suc i) \<and> next_dest f c (as ! Suc i) = getDestination f (as ! i) \<and>
    getDestination f (as ! Suc i) \<noteq> None \<and> (0 < i \<longrightarrow> getDestination f (as ! i) \<noteq> None) \<and>
    (\<forall>b. b \<noteq> EgressId p \<longrightarrow> getDestination f b = getDestination f0 b) \<and>
    (i = length (Links p) \<and> getDestination f0 (EgressId p) = None \<longrightarrow> (\<exists>z. getDestination f (EgressId p) = Some (XgressDest z)))"
proof -
  let ?as = "route_addresses n p" and ?L = "length (Links p)" and ?f = "fs (Nodes p ! i)" and ?old = "fs0 (Nodes p ! i)"
  let ?h = "hop_message n p attempt c t (of_int rem) i" and ?e = "(terminator_egress p t)\<lparr>PeerData := data\<rparr>"
  have len: "length rms = Suc ?L"
    and m: "rms ! i = ?h\<lparr>Tags := tags, Egress := map_option (\<lambda>e. e\<lparr>PeerData := data\<rparr>) (Egress ?h)\<rparr>"
    using dress_messages_created [OF a, of data tags n p c t rem] rms i
    by (auto simp: CreateRouteMessages_map Let_def simp del: upt_Suc)
  have il: "i < length rms" using i len by simp
  then obtain c' k pd where "route_HandleReceive (env i) True ctrlId (now i) (rms ! i) ?old = (?f, Some (RouteResultSuccess c' k pd))"
    using routed by blast
  from transport.handler_success [OF dial [rule_format, OF il] this] have h: "handled (rms ! i) ?old ?f" by blast
  have eg: "Egress (rms ! i) = (if i = ?L then Some ?e else None)" using a by (simp add: m hop_message_def Let_def)
  have addr: "Address ?e = EgressId p" by (simp add: terminator_egress_def)
  have keep: "getDestination ?f b = getDestination ?old b" if "b \<noteq> EgressId p" for b
    using h that unfolding handled_def eg by (auto simp: addr split: if_splits)
  have new: "\<exists>z. getDestination ?f (EgressId p) = Some (XgressDest z)" if "i = ?L" "getDestination ?old (EgressId p) = None"
    using h that unfolding handled_def eg by (auto simp: addr)
  have "Forwards (rms ! i) = Forwards ?h" "CircuitId (rms ! i) = c" by (simp_all add: m hop_message_def Let_def)
  from handled_hop [OF d i this h] show ?thesis using keep new unfolding Let_def by blast
qed

text \<open>
  C40. A circuit delivers in both directions. The controller's route messages for a usable path, handled
  with success by the router of each position with the transport dialer, leave forwarding tables that
  carry a payload from the initiating xgress over the links of the path, in order, to the xgress that was
  dialed at the last router, and a payload from there back to the initiating xgress. It is assumed that
  the addresses of the circuit are distinct, that a router has a link registered under the link's id,
  and that nothing is registered under the new egress address.
\<close>

theorem circuit_delivers:
  assumes path: "path_ok n p" and d: "distinct (route_addresses n p)" and a: "attempt \<noteq> SmartRerouteAttempt"
    and rms: "dress_messages data tags (CreateRouteMessages n p attempt c t rem) = Some rms"
    and dial: "\<forall>i < length rms. ee_dial (env i) = transport_Dial (te i) (x i)"
    and routed: "\<forall>i < length rms. \<exists>c' k pd. route_HandleReceive (env i) True ctrlId (now i) (rms ! i) (fs0 (Nodes p ! i)) =
      (fs (Nodes p ! i), Some (RouteResultSuccess c' k pd))"
    and wires: "wired wire n p fs0"
    and ingress: "getDestination (fs0 (hd (Nodes p))) (IngressId p) = Some (XgressDest y)"
    and egress: "getDestination (fs0 (last (Nodes p))) (EgressId p) = None"
  shows "(\<exists>z. getDestination (fs (last (Nodes p))) (EgressId p) = Some (XgressDest z) \<and>
      delivers wire c fs (hd (Nodes p)) (IngressId p) (last (Nodes p)) z) \<and>
    delivers wire c fs (last (Nodes p)) (EgressId p) (hd (Nodes p)) y"
proof -
  let ?as = "route_addresses n p" and ?L = "length (Links p)" and ?N = "\<lambda>i. Nodes p ! i"
  have len: "length (Nodes p) = Suc ?L" using path by (auto simp: path_ok_def)
  then have ends: "hd (Nodes p) = ?N 0" "last (Nodes p) = ?N ?L"
    by (metis hd_conv_nth list.size(3) nat.distinct(1), metis diff_Suc_1 last_conv_nth list.size(3) nat.distinct(1))
  note T = routed_tables [OF d a rms dial routed, unfolded Let_def]
  note as = route_addresses_nth(1,2) [of n p] route_addresses_nth(3) [of _ p n]
  have ne: "?as ! i \<noteq> EgressId p" if "i \<le> ?L" for i
    using d that as(2) by (simp add: nth_eq_iff_index_eq route_addresses_length flip: as(2))
  obtain z where z: "getDestination (fs (?N ?L)) (EgressId p) = Some (XgressDest z)"
    using T [OF order_refl] egress ends(2) by auto
  have ing: "getDestination (fs (?N 0)) (IngressId p) = Some (XgressDest y)"
    using T [of 0] ne [of 0] as(1) ingress ends(1) by simp
  have up: "\<exists>x. next_dest (fs (?N i)) c (?as ! i) = Some (LinkDest x) \<and> wire (?N i) x = Some (?N (Suc i), ?as ! Suc i)"
    if l: "i < ?L" for i
  proof -
    obtain d where "getDestination (fs (?N i)) (?as ! Suc i) = Some d" using T [of i] l by auto
    then show ?thesis
      using T [of i] l ne [of "Suc i"] wired_ends(1) [OF wires l, of d] by auto
  qed
  have down: "\<exists>x. next_dest (fs (?N (Suc i))) c (?as ! Suc (Suc i)) = Some (LinkDest x) \<and>
      wire (?N (Suc i)) x = Some (?N i, ?as ! Suc i)" if l: "i < ?L" for i
  proof -
    obtain d where "getDestination (fs (?N (Suc i))) (?as ! Suc i) = Some d" using T [of "Suc i"] l by auto
    then show ?thesis
      using T [of "Suc i"] l ne [of "Suc i"] wired_ends(2) [OF wires l, of d] by auto
  qed
  have "delivers wire c fs (?N 0) (?as ! 0) (?N ?L) z"
    by (rule delivers_chain [of ?L fs ?N c "\<lambda>i. ?as ! i" wire z, OF up]) (simp_all add: T z as)
  moreover have "delivers wire c fs (?N (?L - 0)) (?as ! (Suc ?L - 0)) (?N (?L - ?L)) y"
  proof (rule delivers_chain [of ?L fs "\<lambda>i. ?N (?L - i)" c "\<lambda>i. ?as ! (Suc ?L - i)" wire y])
    show "next_dest (fs (?N (?L - ?L))) c (?as ! (Suc ?L - ?L)) = Some (XgressDest y)" using T [of 0] ing as(1) by simp
    fix i assume "i < ?L"
    then show "\<exists>x. next_dest (fs (?N (?L - i))) c (?as ! (Suc ?L - i)) = Some (LinkDest x) \<and>
        wire (?N (?L - i)) x = Some (?N (?L - Suc i), ?as ! (Suc ?L - Suc i))"
      using down [of "?L - Suc i"] by (simp add: Suc_diff_Suc Suc_diff_le)
  qed
  ultimately show ?thesis using z by (auto simp: ends as)
qed
subsection \<open>Witnesses\<close>

definition sample_wire :: "nat \<Rightarrow> nat \<Rightarrow> (nat \<times> string) option" where
  "sample_wire r x = (if r = 0 \<and> x = 4 then Some (1, ''l1'') else if r = 1 \<and> x = 5 then Some (0, ''l1'') else None)"

definition sample_plane :: "nat \<Rightarrow> forwarder" where
  "sample_plane r = \<lparr>f_circuits = [],
     f_destinations = (if r = 0 then [(''in'', XgressDest 3), (''l1'', LinkDest 4)] else [(''l1'', LinkDest 5)]), f_xgress = []\<rparr>"

definition sample_messages :: "route list" where
  "sample_messages = the (dress_messages [] [] (CreateRouteMessages (foldl net_step sample_net sample_ops) (sample_route [0, 1] [0])
     0 ''c'' (sample_term ''r1'') 9))"

definition sample_routed :: "nat \<Rightarrow> forwarder" where
  "sample_routed r = fst (route_HandleReceive sample_egress_env True ''ctrl1'' 9 (sample_messages ! r) (sample_plane r))"

lemma sample_link: "l_Id (net_links (foldl net_step sample_net sample_ops) 0) = ''l1''"
  by (simp add: sample_net_defs net_op_defs)

lemma sample_addresses: "route_addresses (foldl net_step sample_net sample_ops) (sample_route [0, 1] [0]) = [''in'', ''l1'', ''out'']"
  by (simp add: route_addresses_def sample_link) (simp add: sample_route_def sample_link)

lemma sample_path_ok: "path_ok (foldl net_step sample_net sample_ops) (sample_route [0, 1] [0])"
proof -
  have "carries (foldl net_step sample_net sample_ops) 0 0 1" 
    by (simp add: carries_def sample_net_defs net_op_defs)
  then show ?thesis by (simp add: path_ok_def sample_route_def)
qed

lemma sample_dressed:
  "dress_messages [] [] (CreateRouteMessages (foldl net_step sample_net sample_ops) (sample_route [0, 1] [0])
     0 ''c'' (sample_term ''r1'') 9) = Some sample_messages"
  "sample_messages = [\<lparr>CircuitId = ''c'', Attempt = 0, Egress = None,
     Forwards = [fwd ''in'' ''l1'' DestLink, fwd ''l1'' ''in'' DestStart], Timeout = 9, Tags = []\<rparr>,
   \<lparr>CircuitId = ''c'', Attempt = 0, Egress = Some (terminator_egress (sample_route [0, 1] [0]) (sample_term ''r1'')),
     Forwards = [fwd ''out'' ''l1'' DestLink, fwd ''l1'' ''out'' DestEnd], Timeout = 9, Tags = []\<rparr>]"
proof -
  let ?n = "foldl net_step sample_net sample_ops"
  have L: "Links (sample_route [0, 1] [0]) = [0]" by (simp add: sample_route_def)
  have "CreateRouteMessages ?n (sample_route [0, 1] [0]) 0 ''c'' (sample_term ''r1'') 9 =
    [hop_message ?n (sample_route [0, 1] [0]) 0 ''c'' (sample_term ''r1'') 9 0,
     hop_message ?n (sample_route [0, 1] [0]) 0 ''c'' (sample_term ''r1'') 9 1]"
    unfolding CreateRouteMessages_map L by simp
  then have d: "dress_messages [] [] (CreateRouteMessages ?n (sample_route [0, 1] [0]) 0 ''c'' (sample_term ''r1'') 9) =
    Some [\<lparr>CircuitId = ''c'', Attempt = 0, Egress = None,
     Forwards = [fwd ''in'' ''l1'' DestLink, fwd ''l1'' ''in'' DestStart], Timeout = 9, Tags = []\<rparr>,
   \<lparr>CircuitId = ''c'', Attempt = 0, Egress = Some (terminator_egress (sample_route [0, 1] [0]) (sample_term ''r1'')),
     Forwards = [fwd ''out'' ''l1'' DestLink, fwd ''l1'' ''out'' DestEnd], Timeout = 9, Tags = []\<rparr>]"
    unfolding dress_messages_def hop_message_def sample_addresses L Let_def
    by (simp add: SmartRerouteAttempt_def terminator_egress_def)
  then show "dress_messages [] [] (CreateRouteMessages ?n (sample_route [0, 1] [0]) 0 ''c'' (sample_term ''r1'') 9) = Some sample_messages"
    unfolding sample_messages_def by simp
  from d show "sample_messages = [\<lparr>CircuitId = ''c'', Attempt = 0, Egress = None,
     Forwards = [fwd ''in'' ''l1'' DestLink, fwd ''l1'' ''in'' DestStart], Timeout = 9, Tags = []\<rparr>,
   \<lparr>CircuitId = ''c'', Attempt = 0, Egress = Some (terminator_egress (sample_route [0, 1] [0]) (sample_term ''r1'')),
     Forwards = [fwd ''out'' ''l1'' DestLink, fwd ''l1'' ''out'' DestEnd], Timeout = 9, Tags = []\<rparr>]"
    unfolding sample_messages_def by simp
qed

lemma sample_handled:
  "i < 2 \<Longrightarrow> \<exists>c k pd. route_HandleReceive sample_egress_env True ''ctrl1'' 9 (sample_messages ! i) (sample_plane i) =
     (sample_routed i, Some (RouteResultSuccess c k pd))"
  unfolding sample_routed_def sample_dressed(2)
  by (auto simp: less_2_cases_iff route_HandleReceive_def terminator_egress_def connectEgress_def sample_egress_env_def transport_Dial_def
        sample_transport_def HandleXgressBind_def RegisterDestination_def linkDestinationToCircuit_def addDestination_def
        completeRoute_def Route_def getForwardTable_def sample_plane_def HasDestination_def getDestination_def fwd_def
        sample_route_def Let_def)

theorem circuit_delivers_witness:
  "(\<exists>z. delivers sample_wire ''c'' sample_routed 0 ''in'' 1 z) \<and> delivers sample_wire ''c'' sample_routed 1 ''out'' 0 3"
proof -
  let ?n = "foldl net_step sample_net sample_ops" and ?p = "sample_route [0, 1] [0]"
  have "wired sample_wire ?n ?p sample_plane"
    by (simp add: wired_def sample_link) (simp add: sample_route_def sample_link sample_plane_def getDestination_def sample_wire_def)
  moreover have "Nodes ?p = [0, 1]" "IngressId ?p = ''in''" "EgressId ?p = ''out''" by (simp_all add: sample_route_def)
  moreover have "\<forall>i < length sample_messages. \<exists>c k pd. route_HandleReceive sample_egress_env True ''ctrl1'' 9 (sample_messages ! i)
      (sample_plane (Nodes ?p ! i)) = (sample_routed (Nodes ?p ! i), Some (RouteResultSuccess c k pd))"
  proof (intro allI impI)
    fix i assume "i < length sample_messages"
    then have i: "i < 2" by (simp add: sample_dressed(2))
    then have "Nodes ?p ! i = i" by (auto simp: sample_route_def less_2_cases_iff)
    with sample_handled [OF i] show "\<exists>c k pd. route_HandleReceive sample_egress_env True ''ctrl1'' 9 (sample_messages ! i)
        (sample_plane (Nodes ?p ! i)) = (sample_routed (Nodes ?p ! i), Some (RouteResultSuccess c k pd))" by simp
  qed
  moreover have "distinct (route_addresses ?n ?p)" "0 \<noteq> SmartRerouteAttempt" unfolding sample_addresses
    by (simp_all add: SmartRerouteAttempt_def)
  moreover have "\<forall>i < length sample_messages. ee_dial sample_egress_env = transport_Dial sample_transport 7"
    by (simp add: sample_egress_env_def)
  moreover have "getDestination (sample_plane 0) ''in'' = Some (XgressDest 3)" "getDestination (sample_plane 1) ''out'' = None"
    by (simp_all add: sample_plane_def getDestination_def)
  ultimately show ?thesis
    using circuit_delivers [OF sample_path_ok _ _ sample_dressed(1), of "\<lambda>_. sample_egress_env" "\<lambda>_. sample_transport" "\<lambda>_. 7"
        "''ctrl1''" "\<lambda>_. 9" sample_plane sample_routed sample_wire 3]
    by auto
qed
end
