(* ===== verification/Data_State.thy ===== *)
theory Data_State
  imports Event_Cache
begin

text \<open>
  The messages of the router data model (\<^verbatim>\<open>DataState\<close> of \<^verbatim>\<open>common/pb/edge_ctrl_pb/edge_ctrl.proto\<close>): the
  entities a controller sends to its routers, the events that create, update and delete them, and the
  events that relate policies to identities, services and posture checks.
\<close>

section \<open>Entities\<close>

datatype action = Create | Update | Delete

datatype policy_type = InvalidPolicy | DialPolicy | BindPolicy

datatype related_type = InvalidRelatedType | RelatedService | RelatedIdentity | RelatedPostureCheck

datatype hosting_precedence = HostDefault | HostRequired | HostFailed

text \<open>Maps of a message are association lists with distinct keys, byte strings are strings.\<close>

record ds_config_type =
  ct_Id :: string
  ct_Name :: string
  ct_Target :: string

record ds_config =
  cfg_Id :: string
  cfg_TypeId :: string
  cfg_Name :: string
  cfg_DataJson :: string

record ds_identity =
  id_Id :: string
  id_Name :: string
  id_DefaultHostingPrecedence :: hosting_precedence
  id_DefaultHostingCost :: u32
  id_ServiceHostingPrecedences :: "(string \<times> hosting_precedence) list"
  id_ServiceHostingCosts :: "(string \<times> u32) list"
  id_AppDataJson :: string
  id_ServiceConfigs :: "(string \<times> (string \<times> string) list) list"
  id_Disabled :: bool

record ds_service =
  svc_Id :: string
  svc_Name :: string
  svc_EncryptionRequired :: bool
  svc_Configs :: "string list"

record ds_router =
  rtr_Id :: string
  rtr_Name :: string
  rtr_Fingerprint :: string
  rtr_Configs :: "string list"
  rtr_Disabled :: bool

record ds_policy =
  pol_Id :: string
  pol_Name :: string
  pol_PolicyType :: policy_type

record ds_os =
  os_OsType :: string
  os_OsVersions :: "string list"

record ds_process =
  proc_OsType :: string
  proc_Path :: string
  proc_Hashes :: "string list"
  proc_Fingerprints :: "string list"

datatype check_subtype =
  CheckMac "string list"
| CheckMfa int bool bool bool
| CheckOsList "ds_os list"
| CheckProcess ds_process
| CheckProcessMulti string "ds_process list"
| CheckDomains "string list"

record ds_posture_check =
  chk_Id :: string
  chk_Name :: string
  chk_TypeId :: string
  chk_Subtype :: "check_subtype option"

datatype key_format = X509CertDer | PKIXPublicKey | UnknownFormat

datatype key_usage = JWTValidation | ClientX509CertValidation

record ds_public_key =
  pk_Data :: string
  pk_Kid :: string
  pk_Usages :: "key_usage list"
  pk_Format :: key_format

record ds_revocation =
  rev_Id :: string
  rev_ExpiresAt :: int
  rev_Type :: string
  rev_IssuedBefore :: "int option"

section \<open>Events\<close>

record ds_policy_change =
  pc_PolicyId :: string
  pc_RelatedEntityIds :: "string list"
  pc_RelatedEntityType :: related_type
  pc_Add :: bool

datatype ds_model =
  IdentityModel ds_identity
| ServiceModel ds_service
| ServicePolicyModel ds_policy
| PostureCheckModel ds_posture_check
| PublicKeyModel ds_public_key
| RevocationModel ds_revocation
| PolicyChangeModel ds_policy_change
| ConfigTypeModel ds_config_type
| ConfigModel ds_config
| RouterModel ds_router
| NoModel

record ds_event =
  ev_Action :: action
  ev_IsSynthetic :: bool
  ev_Model :: ds_model

record data_state =
  ds_Events :: "ds_event list"
  ds_EndIndex :: u64
  ds_TimelineId :: string
  ds_TerminatorIds :: "string cmap option"

definition ConfigTypeTargetRouter :: string where
  "ConfigTypeTargetRouter = ''router''"

text \<open>The events of a snapshot create an entity, and the events for policy changes have no action set.\<close>

definition create_event :: "ds_model \<Rightarrow> ds_event" where
  "create_event m = \<lparr>ev_Action = Create, ev_IsSynthetic = False, ev_Model = m\<rparr>"

definition change_event :: "string \<Rightarrow> related_type \<Rightarrow> bool \<Rightarrow> string list \<Rightarrow> ds_event" where
  "change_event p ty add ids = create_event (PolicyChangeModel
     \<lparr>pc_PolicyId = p, pc_RelatedEntityIds = ids, pc_RelatedEntityType = ty, pc_Add = add\<rparr>)"

section \<open>Sets and folds\<close>

text \<open>
  A concurrent map of the source with empty structures as its values is a set; here a list of distinct
  keys. A loop whose body may panic is a fold over the option type.
\<close>

type_synonym cset = "string list"

definition cset_set :: "string \<Rightarrow> cset \<Rightarrow> cset" where
  "cset_set x xs = (if x \<in> set xs then xs else xs @ [x])"

definition cset_remove :: "string \<Rightarrow> cset \<Rightarrow> cset" where
  "cset_remove x xs = removeAll x xs"

lemma set_cset_set [simp]: "set (cset_set x xs) = insert x (set xs)"
  by (auto simp: cset_set_def)

lemma set_cset_remove [simp]: "set (cset_remove x xs) = set xs - {x}"
  by (simp add: cset_remove_def)

lemma distinct_cset_set [simp]: "distinct xs \<Longrightarrow> distinct (cset_set x xs)"
  by (simp add: cset_set_def)

lemma distinct_cset_remove [simp]: "distinct xs \<Longrightarrow> distinct (cset_remove x xs)"
  by (simp add: cset_remove_def distinct_removeAll)

lemma set_fold_cset_set [simp]: "set (foldl (\<lambda>xs x. cset_set x xs) xs ys) = set xs \<union> set ys"
  by (induction ys arbitrary: xs) auto

lemma set_fold_cset_remove [simp]: "set (foldl (\<lambda>xs x. cset_remove x xs) xs ys) = set xs - set ys"
  by (induction ys arbitrary: xs) auto

lemma distinct_fold_cset_set [simp]: "distinct xs \<Longrightarrow> distinct (foldl (\<lambda>xs x. cset_set x xs) xs ys)"
  by (induction ys arbitrary: xs) auto

lemma distinct_fold_cset_remove [simp]: "distinct xs \<Longrightarrow> distinct (foldl (\<lambda>xs x. cset_remove x xs) xs ys)"
  by (induction ys arbitrary: xs) auto

primrec ofold :: "('a \<Rightarrow> 's \<Rightarrow> 's option) \<Rightarrow> 'a list \<Rightarrow> 's \<Rightarrow> 's option" where
  "ofold f [] s = Some s"
| "ofold f (x # xs) s = (case f x s of None \<Rightarrow> None | Some s' \<Rightarrow> ofold f xs s')"

lemma ofold_append: "ofold f (xs @ ys) s = (case ofold f xs s of None \<Rightarrow> None | Some s' \<Rightarrow> ofold f ys s')"
  by (induction xs arbitrary: s) (auto split: option.splits)

lemma ofold_Some: "ofold (\<lambda>x s. Some (f x s)) xs s = Some (foldl (\<lambda>s x. f x s) s xs)"
  by (induction xs arbitrary: s) auto

lemma ofold_invariant:
  assumes "P s" and "\<And>x s. x \<in> set xs \<Longrightarrow> P s \<Longrightarrow> \<exists>s'. f x s = Some s' \<and> P s'"
  shows "\<exists>s'. ofold f xs s = Some s' \<and> P s'"
  using assms
proof (induction xs arbitrary: s)
  case (Cons x xs)
  obtain s' where s': "f x s = Some s'" "P s'" using Cons.prems(1) Cons.prems(2) [of x s] by auto
  from Cons.IH [OF s'(2) Cons.prems(2)] show ?case using s'(1) by simp
qed simp

definition change_member :: "bool \<Rightarrow> string \<Rightarrow> cset \<Rightarrow> cset" where
  "change_member add x xs = (if add then cset_set x xs else cset_remove x xs)"

section \<open>Public keys\<close>

text \<open>
  The parsers of certificates and keys are those of Go's \<^verbatim>\<open>crypto/x509\<close>, as inputs; \<open>'k\<close> is the type of
  parsed keys. Keys that cannot be parsed are left out of the cache.
\<close>

record 'k key_parsers =
  ParseCertificate :: "string \<Rightarrow> 'k option"
  ParsePKIXPublicKey :: "string \<Rightarrow> 'k option"

definition parse_key :: "'k key_parsers \<Rightarrow> ds_public_key \<Rightarrow> 'k option" where
  "parse_key parsers k =
     (case pk_Format k of
        X509CertDer \<Rightarrow> ParseCertificate parsers (pk_Data k)
      | PKIXPublicKey \<Rightarrow> ParsePKIXPublicKey parsers (pk_Data k)
      | UnknownFormat \<Rightarrow> None)"

definition parsed_keys :: "'k key_parsers \<Rightarrow> ds_public_key cmap \<Rightarrow> 'k cmap" where
  "parsed_keys parsers keys =
     foldl (\<lambda>m (kid, k). case parse_key parsers k of Some key \<Rightarrow> AList.update kid key m | None \<Rightarrow> m) [] keys"

end
