(* ===== verification/Data_Model_Spec.thy ===== *)
theory Data_Model_Spec
  imports Data_State "HOL-Library.List_Lexorder" "HOL-Library.Char_ord"
begin

text \<open>
  What the router data model promises, independently of the indexes and caches of the controller and of
  the router: the entities, and for each policy the sets of its members. Every event has a step on this
  specification. A replica is a component whose handler of events refines the steps; two replicas that
  handle the same events agree.
\<close>

section \<open>The specification\<close>

record policy_spec =
  ps_Policy :: ds_policy
  ps_Services :: "string set"
  ps_PostureChecks :: "string set"
  ps_Identities :: "string set"

text \<open>
  The router drops overrides of deleted configs from its identities and sorts the configs of services, so
  the specification has identities without overrides and services with sorted configs. Configs themselves
  are filtered for each router and are not part of the specification.
\<close>

record 'k data_model =
  dm_ConfigTypes :: "string \<rightharpoonup> ds_config_type"
  dm_Identities :: "string \<rightharpoonup> ds_identity"
  dm_Services :: "string \<rightharpoonup> ds_service"
  dm_Routers :: "string \<rightharpoonup> ds_router"
  dm_Policies :: "string \<rightharpoonup> policy_spec"
  dm_PostureChecks :: "string \<rightharpoonup> ds_posture_check"
  dm_PublicKeys :: "ds_public_key cmap"
  dm_Revocations :: "string \<rightharpoonup> ds_revocation"
  dm_Keys :: "'k cmap"

definition empty_data_model :: "'k data_model" where
  "empty_data_model = \<lparr>dm_ConfigTypes = Map.empty, dm_Identities = Map.empty, dm_Services = Map.empty, dm_Routers = Map.empty,
     dm_Policies = Map.empty, dm_PostureChecks = Map.empty, dm_PublicKeys = [], dm_Revocations = Map.empty, dm_Keys = []\<rparr>"

definition plain_identity :: "ds_identity \<Rightarrow> ds_identity" where
  "plain_identity v = v\<lparr>id_ServiceConfigs := []\<rparr>"

definition plain_service :: "ds_service \<Rightarrow> ds_service" where
  "plain_service v = v\<lparr>svc_Configs := sort (svc_Configs v)\<rparr>"

definition put :: "action \<Rightarrow> string \<Rightarrow> 'v \<Rightarrow> (string \<rightharpoonup> 'v) \<Rightarrow> string \<rightharpoonup> 'v" where
  "put a k v m = m(k := if a = Delete then None else Some v)"

definition change_set_members :: "bool \<Rightarrow> 'a set \<Rightarrow> 'a set \<Rightarrow> 'a set" where
  "change_set_members add X S = (if add then S \<union> X else S - X)"

definition policy_step :: "action \<Rightarrow> ds_policy \<Rightarrow> (string \<rightharpoonup> policy_spec) \<Rightarrow> string \<rightharpoonup> policy_spec" where
  "policy_step a v m = put a (pol_Id v) (case m (pol_Id v) of
       None \<Rightarrow> \<lparr>ps_Policy = v, ps_Services = {}, ps_PostureChecks = {}, ps_Identities = {}\<rparr>
     | Some p \<Rightarrow> p\<lparr>ps_Policy := v\<rparr>) m"

definition member_change :: "related_type \<Rightarrow> bool \<Rightarrow> string set \<Rightarrow> policy_spec \<Rightarrow> policy_spec" where
  "member_change ty add X p =
     (case ty of
        RelatedIdentity \<Rightarrow> p\<lparr>ps_Identities := change_set_members add X (ps_Identities p)\<rparr>
      | RelatedService \<Rightarrow> p\<lparr>ps_Services := change_set_members add X (ps_Services p)\<rparr>
      | RelatedPostureCheck \<Rightarrow> p\<lparr>ps_PostureChecks := change_set_members add X (ps_PostureChecks p)\<rparr>
      | InvalidRelatedType \<Rightarrow> p)"

definition change_step :: "ds_policy_change \<Rightarrow> (string \<rightharpoonup> policy_spec) \<Rightarrow> string \<rightharpoonup> policy_spec" where
  "change_step c m = m(pc_PolicyId c := map_option
     (member_change (pc_RelatedEntityType c) (pc_Add c) (set (pc_RelatedEntityIds c))) (m (pc_PolicyId c)))"

text \<open>A deleted identity or service leaves its policies.\<close>

definition forget :: "action \<Rightarrow> related_type \<Rightarrow> string \<Rightarrow> (string \<rightharpoonup> policy_spec) \<Rightarrow> string \<rightharpoonup> policy_spec" where
  "forget a ty i m = (if a = Delete then (\<lambda>p. map_option (member_change ty False {i}) (m p)) else m)"

definition data_step :: "'k key_parsers \<Rightarrow> ds_event \<Rightarrow> 'k data_model \<Rightarrow> 'k data_model" where
  "data_step parsers e A =
     (let a = ev_Action e
      in case ev_Model e of
           ConfigTypeModel v \<Rightarrow> A\<lparr>dm_ConfigTypes := put a (ct_Id v) v (dm_ConfigTypes A)\<rparr>
         | ConfigModel v \<Rightarrow> A
         | IdentityModel v \<Rightarrow> A\<lparr>dm_Identities := put a (id_Id v) (plain_identity v) (dm_Identities A),
             dm_Policies := forget a RelatedIdentity (id_Id v) (dm_Policies A)\<rparr>
         | ServiceModel v \<Rightarrow> A\<lparr>dm_Services := put a (svc_Id v) (plain_service v) (dm_Services A),
             dm_Policies := forget a RelatedService (svc_Id v) (dm_Policies A)\<rparr>
         | ServicePolicyModel v \<Rightarrow> A\<lparr>dm_Policies := policy_step a v (dm_Policies A)\<rparr>
         | PostureCheckModel v \<Rightarrow> A\<lparr>dm_PostureChecks := put a (chk_Id v) v (dm_PostureChecks A)\<rparr>
         | PublicKeyModel v \<Rightarrow>
             (let keys = (if a = Delete then AList.delete (pk_Kid v) (dm_PublicKeys A) else AList.update (pk_Kid v) v (dm_PublicKeys A))
              in A\<lparr>dm_PublicKeys := keys, dm_Keys := parsed_keys parsers keys\<rparr>)
         | RevocationModel v \<Rightarrow> A\<lparr>dm_Revocations := put a (rev_Id v) v (dm_Revocations A)\<rparr>
         | PolicyChangeModel c \<Rightarrow> A\<lparr>dm_Policies := change_step c (dm_Policies A)\<rparr>
         | RouterModel v \<Rightarrow> A\<lparr>dm_Routers := put a (rtr_Id v) v (dm_Routers A)\<rparr>
         | NoModel \<Rightarrow> A)"

section \<open>Well-formed events\<close>

text \<open>
  Counters go wrong if a service or a posture check is added to a policy twice or removed when it is not
  there. The controller's transactions produce no such events: relations exist only between entities that
  exist, change once, and a posture check leaves its policies before it is deleted. Policies are dial or bind
  policies.
\<close>

definition change_wf :: "'k data_model \<Rightarrow> ds_policy_change \<Rightarrow> bool" where
  "change_wf A c \<longleftrightarrow> distinct (pc_RelatedEntityIds c) \<and>
     (case dm_Policies A (pc_PolicyId c) of
        None \<Rightarrow> False
      | Some p \<Rightarrow>
          (case pc_RelatedEntityType c of
             RelatedIdentity \<Rightarrow> (\<forall>i \<in> set (pc_RelatedEntityIds c). dm_Identities A i \<noteq> None)
           | RelatedService \<Rightarrow>
               (if pc_Add c then \<forall>i \<in> set (pc_RelatedEntityIds c). dm_Services A i \<noteq> None \<and> i \<notin> ps_Services p
                else \<forall>i \<in> set (pc_RelatedEntityIds c). i \<in> ps_Services p)
           | RelatedPostureCheck \<Rightarrow>
               (if pc_Add c then \<forall>i \<in> set (pc_RelatedEntityIds c). dm_PostureChecks A i \<noteq> None \<and> i \<notin> ps_PostureChecks p
                else \<forall>i \<in> set (pc_RelatedEntityIds c). i \<in> ps_PostureChecks p)
           | InvalidRelatedType \<Rightarrow> True))"

definition event_wf :: "'k data_model \<Rightarrow> ds_event \<Rightarrow> bool" where
  "event_wf A e =
     (case ev_Model e of
        ServicePolicyModel v \<Rightarrow> ev_Action e = Delete \<or> pol_PolicyType v = DialPolicy \<or> pol_PolicyType v = BindPolicy
      | PostureCheckModel v \<Rightarrow> ev_Action e = Delete \<longrightarrow> (\<forall>p P. dm_Policies A p = Some P \<longrightarrow> chk_Id v \<notin> ps_PostureChecks P)
      | PolicyChangeModel c \<Rightarrow> change_wf A c
      | _ \<Rightarrow> True)"

primrec events_wf :: "'k key_parsers \<Rightarrow> 'k data_model \<Rightarrow> ds_event list \<Rightarrow> bool" where
  "events_wf parsers A [] = True"
| "events_wf parsers A (e # es) = (event_wf A e \<and> events_wf parsers (data_step parsers e A) es)"

definition data_steps :: "'k key_parsers \<Rightarrow> ds_event list \<Rightarrow> 'k data_model \<Rightarrow> 'k data_model" where
  "data_steps parsers es A = foldl (\<lambda>A e. data_step parsers e A) A es"

lemma data_steps_simps [simp]:
  "data_steps parsers [] A = A" "data_steps parsers (e # es) A = data_steps parsers es (data_step parsers e A)"
  by (simp_all add: data_steps_def)

lemma data_steps_append: "data_steps parsers (es @ fs) A = data_steps parsers fs (data_steps parsers es A)"
  by (simp add: data_steps_def)

lemma events_wf_append:
  "events_wf parsers A (es @ fs) \<longleftrightarrow> events_wf parsers A es \<and> events_wf parsers (data_steps parsers es A) fs"
  by (induction es arbitrary: A) auto

text \<open>Configs do not matter: the events of configs can be left out, moved and added.\<close>

definition config_event :: "ds_event \<Rightarrow> bool" where
  "config_event e = (case ev_Model e of ConfigModel _ \<Rightarrow> True | _ \<Rightarrow> False)"

lemma data_step_config [simp]: "config_event e \<Longrightarrow> data_step parsers e A = A" "config_event e \<Longrightarrow> event_wf A e"
  by (auto simp: config_event_def data_step_def event_wf_def Let_def split: ds_model.splits)

lemma data_steps_filter: "data_steps parsers (filter (\<lambda>e. \<not> config_event e) es) A = data_steps parsers es A"
  by (induction es arbitrary: A) auto

lemma events_wf_filter: "events_wf parsers A (filter (\<lambda>e. \<not> config_event e) es) = events_wf parsers A es"
  by (induction es arbitrary: A) auto

section \<open>Replicas\<close>

text \<open>A condition on the states that a component passes through while it handles events.\<close>

primrec guarded :: "('st \<Rightarrow> ds_event \<Rightarrow> bool) \<Rightarrow> (ds_event \<Rightarrow> 'st \<Rightarrow> 'st option) \<Rightarrow> 'st \<Rightarrow> ds_event list \<Rightarrow> bool" where
  "guarded guard handle st [] = True"
| "guarded guard handle st (e # es) =
     (guard st e \<and> (case handle e st of None \<Rightarrow> True | Some st' \<Rightarrow> guarded guard handle st' es))"

lemma guarded_True [simp]: "guarded (\<lambda>_ _. True) handle st es"
  by (induction es arbitrary: st) (auto split: option.split)

locale replica =
  fixes parsers :: "'k key_parsers" and handle :: "ds_event \<Rightarrow> 'st \<Rightarrow> 'st option" and guard :: "'st \<Rightarrow> ds_event \<Rightarrow> bool"
    and ok :: "'st \<Rightarrow> bool" and spec :: "'st \<Rightarrow> 'k data_model"
  assumes handle_step: "ok st \<Longrightarrow> event_wf (spec st) e \<Longrightarrow> guard st e \<Longrightarrow>
    \<exists>st'. handle e st = Some st' \<and> ok st' \<and> spec st' = data_step parsers e (spec st)"
begin

lemma handle_all:
  assumes "ok st" and "events_wf parsers (spec st) es" and "guarded guard handle st es"
  shows "\<exists>st'. ofold handle es st = Some st' \<and> ok st' \<and> spec st' = data_steps parsers es (spec st)"
  using assms
proof (induction es arbitrary: st)
  case (Cons e es)
  then obtain st' where st': "handle e st = Some st'" "ok st'" "spec st' = data_step parsers e (spec st)"
    using handle_step [of st e] by auto
  with Cons.prems have "events_wf parsers (spec st') es" "guarded guard handle st' es" by simp_all
  from Cons.IH [OF st'(2) this] show ?case using st' by simp
qed simp

end

end
