(* ===== verification/Data_Model_Sender.thy ===== *)
theory Data_Model_Sender
  imports Data_Model_Spec
begin

text \<open>
  The controller's side of the router data model (\<^verbatim>\<open>common/router_data_model_sender.go\<close>): plain tables of
  the entities, the snapshot of them that a router is sent when it cannot catch up from the event cache,
  and the selection of the events that one router gets.
\<close>

section \<open>The model\<close>

record sender_identity =
  si_Identity :: ds_identity
  si_ServicePolicies :: cset

record sender_policy =
  sp_Policy :: ds_policy
  sp_Services :: cset
  sp_PostureChecks :: cset

text \<open>
  The table of identities can hold nil pointers, so its entries are options.
\<close>

record 'k sender =
  sn_ConfigTypes :: "ds_config_type cmap"
  sn_Configs :: "ds_config cmap"
  sn_Identities :: "sender_identity option cmap"
  sn_Services :: "ds_service cmap"
  sn_Routers :: "ds_router cmap"
  sn_ServicePolicies :: "sender_policy cmap"
  sn_PostureChecks :: "ds_posture_check cmap"
  sn_PublicKeys :: "ds_public_key cmap"
  sn_Revocations :: "ds_revocation cmap"
  sn_cachedPublicKeys :: "'k cmap"

definition NewRouterDataModelSender :: "'k sender" where
  "NewRouterDataModelSender =
     \<lparr>sn_ConfigTypes = [], sn_Configs = [], sn_Identities = [], sn_Services = [], sn_Routers = [],
      sn_ServicePolicies = [], sn_PostureChecks = [], sn_PublicKeys = [], sn_Revocations = [], sn_cachedPublicKeys = []\<rparr>"

definition sender_HandleIdentityEvent :: "action \<Rightarrow> ds_identity \<Rightarrow> 'k sender \<Rightarrow> 'k sender" where
  "sender_HandleIdentityEvent a model s =
     (if a = Delete then s\<lparr>sn_Identities := AList.delete (id_Id model) (sn_Identities s)\<rparr>
      else s\<lparr>sn_Identities := cmap_upsert (sn_Identities s) (id_Id model) (\<lambda>old. Some
             \<lparr>si_Identity = model, si_ServicePolicies = (case old of Some (Some v) \<Rightarrow> si_ServicePolicies v | _ \<Rightarrow> [])\<rparr>)\<rparr>)"

definition sender_HandleServiceEvent :: "action \<Rightarrow> ds_service \<Rightarrow> 'k sender \<Rightarrow> 'k sender" where
  "sender_HandleServiceEvent a model s =
     (if a = Delete then
        s\<lparr>sn_Services := AList.delete (svc_Id model) (sn_Services s),
          sn_ServicePolicies := map (\<lambda>(k, v). (k, v\<lparr>sp_Services := cset_remove (svc_Id model) (sp_Services v)\<rparr>)) (sn_ServicePolicies s)\<rparr>
      else s\<lparr>sn_Services := AList.update (svc_Id model) model (sn_Services s)\<rparr>)"

definition sender_HandleConfigTypeEvent :: "action \<Rightarrow> ds_config_type \<Rightarrow> 'k sender \<Rightarrow> 'k sender" where
  "sender_HandleConfigTypeEvent a model s =
     (if a = Delete then s\<lparr>sn_ConfigTypes := AList.delete (ct_Id model) (sn_ConfigTypes s)\<rparr>
      else s\<lparr>sn_ConfigTypes := AList.update (ct_Id model) model (sn_ConfigTypes s)\<rparr>)"

definition sender_HandleConfigEvent :: "action \<Rightarrow> ds_config \<Rightarrow> 'k sender \<Rightarrow> 'k sender" where
  "sender_HandleConfigEvent a model s =
     (if a = Delete then s\<lparr>sn_Configs := AList.delete (cfg_Id model) (sn_Configs s)\<rparr>
      else s\<lparr>sn_Configs := AList.update (cfg_Id model) model (sn_Configs s)\<rparr>)"

definition sender_HandleRouterEvent :: "action \<Rightarrow> ds_router \<Rightarrow> 'k sender \<Rightarrow> 'k sender" where
  "sender_HandleRouterEvent a model s =
     (if a = Delete then s\<lparr>sn_Routers := AList.delete (rtr_Id model) (sn_Routers s)\<rparr>
      else s\<lparr>sn_Routers := AList.update (rtr_Id model) model (sn_Routers s)\<rparr>)"

definition sender_applyUpdateServicePolicyEvent :: "ds_policy \<Rightarrow> 'k sender \<Rightarrow> 'k sender" where
  "sender_applyUpdateServicePolicyEvent model s =
     s\<lparr>sn_ServicePolicies := cmap_upsert (sn_ServicePolicies s) (pol_Id model) (\<lambda>old. case old of
         Some v \<Rightarrow> \<lparr>sp_Policy = model, sp_Services = sp_Services v, sp_PostureChecks = sp_PostureChecks v\<rparr>
       | None \<Rightarrow> \<lparr>sp_Policy = model, sp_Services = [], sp_PostureChecks = []\<rparr>)\<rparr>"

definition sender_applyDeleteServicePolicyEvent :: "ds_policy \<Rightarrow> 'k sender \<Rightarrow> 'k sender" where
  "sender_applyDeleteServicePolicyEvent model s =
     s\<lparr>sn_ServicePolicies := AList.delete (pol_Id model) (sn_ServicePolicies s)\<rparr>"

definition sender_HandleServicePolicyEvent :: "action \<Rightarrow> ds_policy \<Rightarrow> 'k sender \<Rightarrow> 'k sender" where
  "sender_HandleServicePolicyEvent a model s =
     (case a of
        Create \<Rightarrow> sender_applyUpdateServicePolicyEvent model s
      | Update \<Rightarrow> sender_applyUpdateServicePolicyEvent model s
      | Delete \<Rightarrow> sender_applyDeleteServicePolicyEvent model s)"

definition sender_HandlePostureCheckEvent :: "action \<Rightarrow> ds_posture_check \<Rightarrow> 'k sender \<Rightarrow> 'k sender" where
  "sender_HandlePostureCheckEvent a model s =
     (if a = Delete then s\<lparr>sn_PostureChecks := AList.delete (chk_Id model) (sn_PostureChecks s)\<rparr>
      else s\<lparr>sn_PostureChecks := AList.update (chk_Id model) model (sn_PostureChecks s)\<rparr>)"

definition sender_HandlePublicKeyEvent :: "'k key_parsers \<Rightarrow> action \<Rightarrow> ds_public_key \<Rightarrow> 'k sender \<Rightarrow> 'k sender" where
  "sender_HandlePublicKeyEvent parsers a model s =
     (let keys = (if a = Delete then AList.delete (pk_Kid model) (sn_PublicKeys s)
                  else AList.update (pk_Kid model) model (sn_PublicKeys s))
      in s\<lparr>sn_PublicKeys := keys, sn_cachedPublicKeys := parsed_keys parsers keys\<rparr>)"

definition sender_HandleRevocationEvent :: "action \<Rightarrow> ds_revocation \<Rightarrow> 'k sender \<Rightarrow> 'k sender" where
  "sender_HandleRevocationEvent a model s =
     (if a = Delete then s\<lparr>sn_Revocations := AList.delete (rev_Id model) (sn_Revocations s)\<rparr>
      else s\<lparr>sn_Revocations := AList.update (rev_Id model) model (sn_Revocations s)\<rparr>)"

text \<open>
  A change of the identities of a policy is stored with the identities. The upsert stores what its
  callback returns, so an identity that is not in the table gets a nil entry.
\<close>

definition sender_HandleServicePolicyChange :: "ds_policy_change \<Rightarrow> 'k sender \<Rightarrow> 'k sender" where
  "sender_HandleServicePolicyChange model s =
     (if pc_RelatedEntityType model = RelatedIdentity then
        s\<lparr>sn_Identities := foldl (\<lambda>ids i. cmap_upsert ids i (\<lambda>old. case old of
            Some (Some v) \<Rightarrow> Some (v\<lparr>si_ServicePolicies := change_member (pc_Add model) (pc_PolicyId model) (si_ServicePolicies v)\<rparr>)
          | _ \<Rightarrow> None)) (sn_Identities s) (pc_RelatedEntityIds model)\<rparr>
      else case map_of (sn_ServicePolicies s) (pc_PolicyId model) of
        None \<Rightarrow> s
      | Some p \<Rightarrow>
          let change = (\<lambda>xs. foldl (\<lambda>xs x. change_member (pc_Add model) x xs) xs (pc_RelatedEntityIds model));
              p' = (case pc_RelatedEntityType model of
                      RelatedService \<Rightarrow> p\<lparr>sp_Services := change (sp_Services p)\<rparr>
                    | RelatedPostureCheck \<Rightarrow> p\<lparr>sp_PostureChecks := change (sp_PostureChecks p)\<rparr>
                    | _ \<Rightarrow> p)
          in s\<lparr>sn_ServicePolicies := AList.update (pc_PolicyId model) p' (sn_ServicePolicies s)\<rparr>)"

definition sender_Handle :: "'k key_parsers \<Rightarrow> ds_event \<Rightarrow> 'k sender \<Rightarrow> 'k sender" where
  "sender_Handle parsers e =
     (let a = ev_Action e
      in case ev_Model e of
           ConfigTypeModel m \<Rightarrow> sender_HandleConfigTypeEvent a m
         | ConfigModel m \<Rightarrow> sender_HandleConfigEvent a m
         | IdentityModel m \<Rightarrow> sender_HandleIdentityEvent a m
         | ServiceModel m \<Rightarrow> sender_HandleServiceEvent a m
         | ServicePolicyModel m \<Rightarrow> sender_HandleServicePolicyEvent a m
         | PostureCheckModel m \<Rightarrow> sender_HandlePostureCheckEvent a m
         | PublicKeyModel m \<Rightarrow> sender_HandlePublicKeyEvent parsers a m
         | RevocationModel m \<Rightarrow> sender_HandleRevocationEvent a m
         | PolicyChangeModel m \<Rightarrow> sender_HandleServicePolicyChange m
         | RouterModel m \<Rightarrow> sender_HandleRouterEvent a m
         | NoModel \<Rightarrow> (\<lambda>s. s))"

text \<open>
  A change set goes through the event cache first. The result has the change sets sent to the listeners;
  \<open>None\<close> is a panic of the cache.
\<close>

definition sender_ApplyChangeSet ::
  "'k key_parsers \<Rightarrow> ds_event change_set \<Rightarrow> ds_event event_cache \<times> 'k sender \<Rightarrow>
   ((ds_event event_cache \<times> 'k sender) \<times> ds_event change_set list) option" where
  "sender_ApplyChangeSet parsers change st =
     (case st of (c, s) \<Rightarrow>
        case Store c change of
          Inl CachePanic \<Rightarrow> None
        | Inl (OutOfOrderEvent _ _) \<Rightarrow> Some ((c, s), [])
        | Inr (c', _, change') \<Rightarrow> Some ((c', foldl (\<lambda>s e. sender_Handle parsers e s) s (cs_Changes change')), [change']))"

section \<open>Snapshots\<close>

text \<open>The identities of a policy, in the order in which the table of identities is met.\<close>

definition policy_identities :: "sender_identity cmap \<Rightarrow> string \<Rightarrow> string list" where
  "policy_identities ids p = map (\<lambda>(_, v). id_Id (si_Identity v)) (filter (\<lambda>(_, v). p \<in> set (si_ServicePolicies v)) ids)"

definition sender_policy_events :: "sender_identity cmap \<Rightarrow> sender_policy \<Rightarrow> ds_event list" where
  "sender_policy_events ids v =
     (let p = pol_Id (sp_Policy v); members = policy_identities ids p
      in [create_event (ServicePolicyModel (sp_Policy v)),
          change_event p RelatedService True (sp_Services v),
          change_event p RelatedPostureCheck True (sp_PostureChecks v)] @
         (if members = [] then [] else [change_event p RelatedIdentity True members]))"

text \<open>A nil entry in the table of identities is dereferenced, so the snapshot panics: \<open>None\<close>.\<close>

definition sender_getDataState :: "string \<Rightarrow> u64 \<Rightarrow> 'k sender \<Rightarrow> data_state option" where
  "sender_getDataState timeline index s =
     (if \<exists>(_, v) \<in> set (sn_Identities s). v = None then None
      else
        let ids = map (\<lambda>(k, v). (k, the v)) (sn_Identities s);
            events = map (\<lambda>(_, v). create_event (ConfigTypeModel v)) (sn_ConfigTypes s) @
              map (\<lambda>(_, v). create_event (ConfigModel v)) (sn_Configs s) @
              map (\<lambda>(_, v). create_event (IdentityModel (si_Identity v))) ids @
              map (\<lambda>(_, v). create_event (ServiceModel v)) (sn_Services s) @
              map (\<lambda>(_, v). create_event (RouterModel v)) (sn_Routers s) @
              map (\<lambda>(_, v). create_event (PostureCheckModel v)) (sn_PostureChecks s) @
              concat (map (\<lambda>(_, v). sender_policy_events ids v) (sn_ServicePolicies s)) @
              map (\<lambda>(_, v). (create_event (PublicKeyModel v))\<lparr>ev_IsSynthetic := True\<rparr>) (sn_PublicKeys s) @
              map (\<lambda>(_, v). create_event (RevocationModel v)) (sn_Revocations s)
        in Some \<lparr>ds_Events = events, ds_EndIndex = index, ds_TimelineId = timeline, ds_TerminatorIds = None\<rparr>)"


section \<open>The events of one router\<close>

definition is_config_for_router :: "'k sender \<Rightarrow> string \<Rightarrow> string \<Rightarrow> bool" where
  "is_config_for_router s routerId configId =
     (case map_of (sn_Routers s) routerId of Some r \<Rightarrow> configId \<in> set (rtr_Configs r) | None \<Rightarrow> False)"

definition is_router_target_config :: "'k sender \<Rightarrow> string \<Rightarrow> bool" where
  "is_router_target_config s typeId =
     (case map_of (sn_ConfigTypes s) typeId of Some t \<Rightarrow> ct_Target t = ConfigTypeTargetRouter | None \<Rightarrow> False)"

definition needs_rebuild :: "'k sender \<Rightarrow> string \<Rightarrow> bool \<Rightarrow> ds_event \<Rightarrow> bool" where
  "needs_rebuild s routerId synthesizeMissing e =
     (case ev_Model e of
        ConfigModel m \<Rightarrow> is_router_target_config s (cfg_TypeId m) \<and> \<not> is_config_for_router s routerId (cfg_Id m)
      | RouterModel m \<Rightarrow> synthesizeMissing \<and> rtr_Id m = routerId \<and> ev_Action e \<noteq> Delete \<and> rtr_Configs m \<noteq> []
      | _ \<Rightarrow> False)"

definition router_configs :: "'k sender \<Rightarrow> string list \<Rightarrow> ds_event list" where
  "router_configs s ids =
     concat (map (\<lambda>i. case map_of (sn_Configs s) i of
       Some c \<Rightarrow> [(create_event (ConfigModel c))\<lparr>ev_IsSynthetic := True\<rparr>] | None \<Rightarrow> []) ids)"

definition filter_event :: "'k sender \<Rightarrow> string \<Rightarrow> bool \<Rightarrow> ds_event \<Rightarrow> ds_event list" where
  "filter_event s routerId synthesizeMissing e =
     (case ev_Model e of
        ConfigModel m \<Rightarrow> if \<not> is_router_target_config s (cfg_TypeId m) \<or> is_config_for_router s routerId (cfg_Id m) then [e] else []
      | RouterModel m \<Rightarrow>
          (if synthesizeMissing \<and> rtr_Id m = routerId \<and> ev_Action e \<noteq> Delete then router_configs s (rtr_Configs m) else []) @ [e]
      | _ \<Rightarrow> [e])"

definition FilterEventsForRouter :: "'k sender \<Rightarrow> string \<Rightarrow> ds_event list \<Rightarrow> bool \<Rightarrow> ds_event list \<times> bool" where
  "FilterEventsForRouter s routerId events synthesizeMissing =
     (if events = [] then (events, False)
      else if \<not> list_ex (needs_rebuild s routerId synthesizeMissing) events then (events, False)
      else (concat (map (filter_event s routerId synthesizeMissing) events), True))"

definition GetDataStateForRouter :: "string \<Rightarrow> u64 \<Rightarrow> 'k sender \<Rightarrow> string \<Rightarrow> data_state option" where
  "GetDataStateForRouter timeline index s routerId =
     map_option (\<lambda>st. case FilterEventsForRouter s routerId (ds_Events st) False of
       (filtered, changed) \<Rightarrow> if changed then st\<lparr>ds_Events := filtered\<rparr> else st) (sender_getDataState timeline index s)"

text \<open>The scan that avoids the rebuild does not change the result.\<close>

lemma filter_event_kept:
  assumes "\<not> needs_rebuild s r b e"
  shows "filter_event s r b e = [e]"
  using assms by (auto simp: needs_rebuild_def filter_event_def router_configs_def split: ds_model.splits)

lemma FilterEventsForRouter_events:
  "fst (FilterEventsForRouter s r es b) = concat (map (filter_event s r b) es)"
proof (cases "list_ex (needs_rebuild s r b) es")
  case False
  then have "map (filter_event s r b) es = map (\<lambda>e. [e]) es" by (auto simp: list_ex_iff filter_event_kept)
  then have "concat (map (filter_event s r b) es) = es" by (simp only: concat_map_singleton) simp
  with False show ?thesis by (simp add: FilterEventsForRouter_def)
qed (auto simp: FilterEventsForRouter_def)

section \<open>The controller as a replica\<close>

definition sender_members :: "'k sender \<Rightarrow> string \<Rightarrow> string set" where
  "sender_members s p = {i. \<exists>v. map_of (sn_Identities s) i = Some (Some v) \<and> p \<in> set (si_ServicePolicies v)}"

definition sender_policy_spec :: "'k sender \<Rightarrow> string \<Rightarrow> sender_policy \<Rightarrow> policy_spec" where
  "sender_policy_spec s p v = \<lparr>ps_Policy = sp_Policy v, ps_Services = set (sp_Services v),
     ps_PostureChecks = set (sp_PostureChecks v), ps_Identities = sender_members s p\<rparr>"

definition sender_spec :: "'k sender \<Rightarrow> 'k data_model" where
  "sender_spec s = \<lparr>dm_ConfigTypes = map_of (sn_ConfigTypes s),
     dm_Identities = (\<lambda>i. case map_of (sn_Identities s) i of Some (Some v) \<Rightarrow> Some (plain_identity (si_Identity v)) | _ \<Rightarrow> None),
     dm_Services = (\<lambda>i. map_option plain_service (map_of (sn_Services s) i)),
     dm_Routers = map_of (sn_Routers s),
     dm_Policies = (\<lambda>p. map_option (sender_policy_spec s p) (map_of (sn_ServicePolicies s) p)),
     dm_PostureChecks = map_of (sn_PostureChecks s), dm_PublicKeys = sn_PublicKeys s,
     dm_Revocations = map_of (sn_Revocations s), dm_Keys = sn_cachedPublicKeys s\<rparr>"

definition sender_ok :: "'k sender \<Rightarrow> bool" where
  "sender_ok s \<longleftrightarrow> (\<forall>i. map_of (sn_Identities s) i \<noteq> Some None)"

text \<open>
  The controller does not clear the identities of a deleted policy. The id of a new policy must not be the
  id of such a policy.
\<close>

definition fresh_policy :: "'k sender \<Rightarrow> ds_event \<Rightarrow> bool" where
  "fresh_policy s e =
     (case ev_Model e of
        ServicePolicyModel v \<Rightarrow> ev_Action e = Delete \<or> map_of (sn_ServicePolicies s) (pol_Id v) \<noteq> None \<or>
          list_all (\<lambda>(_, w). case w of Some w' \<Rightarrow> pol_Id v \<notin> set (si_ServicePolicies w') | None \<Rightarrow> True) (sn_Identities s)
      | _ \<Rightarrow> True)"

lemma fresh_policy_members:
  assumes "fresh_policy s e" and "ev_Model e = ServicePolicyModel v" and "ev_Action e \<noteq> Delete"
    and "map_of (sn_ServicePolicies s) (pol_Id v) = None"
  shows "sender_members s (pol_Id v) = {}"
  using assms by (fastforce simp: fresh_policy_def sender_members_def list_all_iff dest: map_of_SomeD)

lemma sender_members_cong: "sn_Identities s' = sn_Identities s \<Longrightarrow> sender_members s' = sender_members s"
  by (simp add: sender_members_def fun_eq_iff)

lemma sender_policy_spec_cong: "sn_Identities s' = sn_Identities s \<Longrightarrow> sender_policy_spec s' = sender_policy_spec s"
  using sender_members_cong [of s' s] by (simp add: sender_policy_spec_def fun_eq_iff)

lemma sender_policy_spec_other [simp]:
  "sender_policy_spec (s\<lparr>sn_ConfigTypes := a\<rparr>) = sender_policy_spec s" "sender_policy_spec (s\<lparr>sn_Configs := b\<rparr>) = sender_policy_spec s"
  "sender_policy_spec (s\<lparr>sn_Routers := c\<rparr>) = sender_policy_spec s" "sender_policy_spec (s\<lparr>sn_PostureChecks := d\<rparr>) = sender_policy_spec s"
  "sender_policy_spec (s\<lparr>sn_Revocations := e\<rparr>) = sender_policy_spec s"
  by (rule sender_policy_spec_cong, simp)+

lemma sender_identity_step:
  assumes "sender_ok s"
  shows "sender_ok (sender_HandleIdentityEvent a v s)"
    "sender_spec (sender_HandleIdentityEvent a v s) = (sender_spec s)\<lparr>dm_Identities := put a (id_Id v) (plain_identity v) (dm_Identities (sender_spec s)),
       dm_Policies := forget a RelatedIdentity (id_Id v) (dm_Policies (sender_spec s))\<rparr>"
proof -
  let ?s = "sender_HandleIdentityEvent a v s"
  have ids: "map_of (sn_Identities ?s) = (map_of (sn_Identities s))(id_Id v := if a = Delete then None else
      Some (Some \<lparr>si_Identity = v, si_ServicePolicies = (case map_of (sn_Identities s) (id_Id v) of Some (Some w) \<Rightarrow> si_ServicePolicies w | _ \<Rightarrow> [])\<rparr>))"
    by (simp add: sender_HandleIdentityEvent_def fun_eq_iff cmap_upsert_get delete_conv')
  have m: "sender_members ?s p = (if a = Delete then sender_members s p - {id_Id v} else sender_members s p)" for p
    using assms by (auto simp: sender_members_def ids sender_ok_def split: option.splits if_splits)
  show "sender_ok ?s" using assms by (simp add: sender_ok_def ids)
  have "map_option (sender_policy_spec ?s p) z = (if a = Delete then map_option (member_change RelatedIdentity False {id_Id v}) (map_option (sender_policy_spec s p) z)
      else map_option (sender_policy_spec s p) z)" for p z
    by (cases z) (simp_all add: sender_policy_spec_def m member_change_def change_set_members_def)
  moreover have "sn_ServicePolicies ?s = sn_ServicePolicies s" "sn_ConfigTypes ?s = sn_ConfigTypes s" "sn_Services ?s = sn_Services s"
    "sn_Routers ?s = sn_Routers s" "sn_PostureChecks ?s = sn_PostureChecks s" "sn_PublicKeys ?s = sn_PublicKeys s"
    "sn_Revocations ?s = sn_Revocations s" "sn_cachedPublicKeys ?s = sn_cachedPublicKeys s"
    by (simp_all add: sender_HandleIdentityEvent_def)
  ultimately show "sender_spec ?s = (sender_spec s)\<lparr>dm_Identities := put a (id_Id v) (plain_identity v) (dm_Identities (sender_spec s)),
       dm_Policies := forget a RelatedIdentity (id_Id v) (dm_Policies (sender_spec s))\<rparr>"
    by (simp add: sender_spec_def put_def forget_def fun_eq_iff ids)
qed

lemma map_of_map_values: "map_of (map (\<lambda>(k, v). (k, f v)) xs) k = map_option f (map_of xs k)"
  by (induction xs) auto

lemma sender_service_step:
  "sender_ok (sender_HandleServiceEvent a v s) = sender_ok s"
  "sender_spec (sender_HandleServiceEvent a v s) = (sender_spec s)\<lparr>dm_Services := put a (svc_Id v) (plain_service v) (dm_Services (sender_spec s)),
     dm_Policies := forget a RelatedService (svc_Id v) (dm_Policies (sender_spec s))\<rparr>"
  unfolding sender_HandleServiceEvent_def sender_ok_def
  by (auto simp: sender_spec_def put_def forget_def fun_eq_iff map_of_map_values delete_conv' update_conv' option.map_comp comp_def
      sender_policy_spec_def member_change_def change_set_members_def sender_members_def intro!: option.map_cong0)

lemma sender_policy_step:
  assumes "fresh_policy s e" and "ev_Model e = ServicePolicyModel v"
  shows "sender_ok (sender_HandleServicePolicyEvent (ev_Action e) v s) = sender_ok s"
    "sender_spec (sender_HandleServicePolicyEvent (ev_Action e) v s) = (sender_spec s)\<lparr>dm_Policies := policy_step (ev_Action e) v (dm_Policies (sender_spec s))\<rparr>"
proof -
  let ?s = "sender_HandleServicePolicyEvent (ev_Action e) v s"
  have same: "sn_Identities ?s = sn_Identities s" "sn_ConfigTypes ?s = sn_ConfigTypes s" "sn_Services ?s = sn_Services s"
    "sn_Routers ?s = sn_Routers s" "sn_PostureChecks ?s = sn_PostureChecks s" "sn_PublicKeys ?s = sn_PublicKeys s"
    "sn_Revocations ?s = sn_Revocations s" "sn_cachedPublicKeys ?s = sn_cachedPublicKeys s"
    by (simp_all add: sender_HandleServicePolicyEvent_def sender_applyUpdateServicePolicyEvent_def sender_applyDeleteServicePolicyEvent_def split: action.split)
  then show "sender_ok ?s = sender_ok s" by (simp add: sender_ok_def)
  have pols: "map_of (sn_ServicePolicies ?s) = (map_of (sn_ServicePolicies s))(pol_Id v := if ev_Action e = Delete then None else
      Some (case map_of (sn_ServicePolicies s) (pol_Id v) of
         Some w \<Rightarrow> \<lparr>sp_Policy = v, sp_Services = sp_Services w, sp_PostureChecks = sp_PostureChecks w\<rparr>
       | None \<Rightarrow> \<lparr>sp_Policy = v, sp_Services = [], sp_PostureChecks = []\<rparr>))"
    by (simp add: sender_HandleServicePolicyEvent_def sender_applyUpdateServicePolicyEvent_def sender_applyDeleteServicePolicyEvent_def
        fun_eq_iff cmap_upsert_get delete_conv' split: action.split)
  have "map_option (sender_policy_spec s p) (map_of (sn_ServicePolicies ?s) p) = policy_step (ev_Action e) v (dm_Policies (sender_spec s)) p" for p
    using fresh_policy_members [OF assms]
    by (auto simp: pols sender_spec_def policy_step_def put_def sender_policy_spec_def split: option.split)
  then show "sender_spec ?s = (sender_spec s)\<lparr>dm_Policies := policy_step (ev_Action e) v (dm_Policies (sender_spec s))\<rparr>"
    by (simp add: sender_spec_def same sender_policy_spec_cong [OF same(1)] fun_eq_iff)
qed


lemma fold_upsert_identities:
  assumes "distinct xs"
  shows "map_of (foldl (\<lambda>ids i. cmap_upsert ids i f) ids xs) i = (if i \<in> set xs then Some (f (map_of ids i)) else map_of ids i)"
  using assms by (induction xs arbitrary: ids) (auto simp: cmap_upsert_get)

lemma sender_identity_change:
  assumes ok: "sender_ok s" and ty: "pc_RelatedEntityType c = RelatedIdentity" and wf: "change_wf (sender_spec s) c"
  shows "sender_ok (sender_HandleServicePolicyChange c s)"
    "sender_spec (sender_HandleServicePolicyChange c s) = (sender_spec s)\<lparr>dm_Policies := change_step c (dm_Policies (sender_spec s))\<rparr>"
proof -
  let ?s = "sender_HandleServicePolicyChange c s" and ?X = "set (pc_RelatedEntityIds c)" and ?p = "pc_PolicyId c"
  let ?f = "\<lambda>v. v\<lparr>si_ServicePolicies := change_member (pc_Add c) ?p (si_ServicePolicies v)\<rparr>"
  have ex: "\<exists>v. map_of (sn_Identities s) i = Some (Some v)" if "i \<in> ?X" for i
  proof -
    have "dm_Identities (sender_spec s) i \<noteq> None" using wf ty that by (auto simp: change_wf_def split: option.splits)
    then show ?thesis by (simp add: sender_spec_def split: option.splits)
  qed
  have ids: "map_of (sn_Identities ?s) i = (if i \<in> ?X then map_option (map_option ?f) (map_of (sn_Identities s) i) else map_of (sn_Identities s) i)" for i
    using wf ex [of i] ty by (auto simp: sender_HandleServicePolicyChange_def fold_upsert_identities change_wf_def)
  show "sender_ok ?s" using ok by (auto simp: sender_ok_def ids)
  have mem: "sender_members ?s p = (if p = ?p then change_set_members (pc_Add c) ?X (sender_members s p) else sender_members s p)" for p
  proof -
    have "i \<in> sender_members ?s p \<longleftrightarrow> i \<in> (if p = ?p then change_set_members (pc_Add c) ?X (sender_members s p) else sender_members s p)" for i
      using ex [of i] by (auto simp: sender_members_def ids change_set_members_def change_member_def)
    then show ?thesis by blast
  qed
  have "map_option (sender_policy_spec ?s p) z = (if p = ?p then map_option (member_change RelatedIdentity (pc_Add c) ?X) (map_option (sender_policy_spec s p) z)
      else map_option (sender_policy_spec s p) z)" for p z
    by (cases z) (simp_all add: sender_policy_spec_def mem member_change_def)
  moreover have "sn_ServicePolicies ?s = sn_ServicePolicies s" "sn_ConfigTypes ?s = sn_ConfigTypes s" "sn_Services ?s = sn_Services s"
    "sn_Routers ?s = sn_Routers s" "sn_PostureChecks ?s = sn_PostureChecks s" "sn_PublicKeys ?s = sn_PublicKeys s"
    "sn_Revocations ?s = sn_Revocations s" "sn_cachedPublicKeys ?s = sn_cachedPublicKeys s"
    using ty by (simp_all add: sender_HandleServicePolicyChange_def)
  ultimately show "sender_spec ?s = (sender_spec s)\<lparr>dm_Policies := change_step c (dm_Policies (sender_spec s))\<rparr>"
    using ty ex by (auto simp: sender_spec_def change_step_def fun_eq_iff ids split: option.split)
qed

lemma sender_entity_change:
  assumes ty: "pc_RelatedEntityType c \<noteq> RelatedIdentity"
  shows "sender_ok (sender_HandleServicePolicyChange c s) = sender_ok s"
    "sender_spec (sender_HandleServicePolicyChange c s) = (sender_spec s)\<lparr>dm_Policies := change_step c (dm_Policies (sender_spec s))\<rparr>"
proof -
  let ?s = "sender_HandleServicePolicyChange c s" and ?X = "set (pc_RelatedEntityIds c)" and ?p = "pc_PolicyId c"
  have same: "sn_Identities ?s = sn_Identities s" "sn_ConfigTypes ?s = sn_ConfigTypes s" "sn_Services ?s = sn_Services s"
    "sn_Routers ?s = sn_Routers s" "sn_PostureChecks ?s = sn_PostureChecks s" "sn_PublicKeys ?s = sn_PublicKeys s"
    "sn_Revocations ?s = sn_Revocations s" "sn_cachedPublicKeys ?s = sn_cachedPublicKeys s"
    using ty by (simp_all add: sender_HandleServicePolicyChange_def Let_def split: option.split)
  then show "sender_ok ?s = sender_ok s" by (simp add: sender_ok_def)
  have "map_option (sender_policy_spec s p) (map_of (sn_ServicePolicies ?s) p) = change_step c (dm_Policies (sender_spec s)) p" for p
    using ty by (cases "pc_RelatedEntityType c"; cases "map_of (sn_ServicePolicies s) ?p")
      (auto simp: sender_HandleServicePolicyChange_def Let_def sender_spec_def change_step_def update_conv' member_change_def
        sender_policy_spec_def change_set_members_def change_member_def)
  then show "sender_spec ?s = (sender_spec s)\<lparr>dm_Policies := change_step c (dm_Policies (sender_spec s))\<rparr>"
    by (simp add: sender_spec_def same sender_policy_spec_cong [OF same(1)] fun_eq_iff)
qed

lemma sender_other_step:
  "sender_ok (sender_HandleConfigTypeEvent a t s) = sender_ok s"
  "sender_spec (sender_HandleConfigTypeEvent a t s) = (sender_spec s)\<lparr>dm_ConfigTypes := put a (ct_Id t) t (dm_ConfigTypes (sender_spec s))\<rparr>"
  "sender_ok (sender_HandleConfigEvent a g s) = sender_ok s"
  "sender_spec (sender_HandleConfigEvent a g s) = sender_spec s"
  "sender_ok (sender_HandleRouterEvent a r s) = sender_ok s"
  "sender_spec (sender_HandleRouterEvent a r s) = (sender_spec s)\<lparr>dm_Routers := put a (rtr_Id r) r (dm_Routers (sender_spec s))\<rparr>"
  "sender_ok (sender_HandlePostureCheckEvent a c s) = sender_ok s"
  "sender_spec (sender_HandlePostureCheckEvent a c s) = (sender_spec s)\<lparr>dm_PostureChecks := put a (chk_Id c) c (dm_PostureChecks (sender_spec s))\<rparr>"
  "sender_ok (sender_HandleRevocationEvent a x s) = sender_ok s"
  "sender_spec (sender_HandleRevocationEvent a x s) = (sender_spec s)\<lparr>dm_Revocations := put a (rev_Id x) x (dm_Revocations (sender_spec s))\<rparr>"
  "sender_ok (sender_HandlePublicKeyEvent parsers a k s) = sender_ok s"
  by (simp_all add: sender_HandleConfigTypeEvent_def sender_HandleConfigEvent_def sender_HandleRouterEvent_def sender_HandlePostureCheckEvent_def
      sender_HandleRevocationEvent_def sender_HandlePublicKeyEvent_def sender_ok_def sender_spec_def put_def Let_def delete_conv' update_conv' fun_eq_iff)

lemma sender_key_step:
  "sender_spec (sender_HandlePublicKeyEvent parsers a k s) =
     (let keys = (if a = Delete then AList.delete (pk_Kid k) (dm_PublicKeys (sender_spec s)) else AList.update (pk_Kid k) k (dm_PublicKeys (sender_spec s)))
      in (sender_spec s)\<lparr>dm_PublicKeys := keys, dm_Keys := parsed_keys parsers keys\<rparr>)"
proof -
  have "sender_policy_spec (sender_HandlePublicKeyEvent parsers a k s) = sender_policy_spec s"
    by (rule sender_policy_spec_cong) (simp add: sender_HandlePublicKeyEvent_def Let_def)
  then show ?thesis by (simp add: sender_HandlePublicKeyEvent_def sender_spec_def Let_def)
qed

lemma sender_Handle_step:
  assumes "sender_ok s" and "event_wf (sender_spec s) e" and "fresh_policy s e"
  shows "sender_ok (sender_Handle parsers e s) \<and> sender_spec (sender_Handle parsers e s) = data_step parsers e (sender_spec s)"
proof (cases "ev_Model e")
  case (PolicyChangeModel c)
  then have "change_wf (sender_spec s) c" using assms(2) by (simp add: event_wf_def)
  then show ?thesis using PolicyChangeModel assms(1) sender_identity_change [of s c] sender_entity_change [of c s]
    by (cases "pc_RelatedEntityType c = RelatedIdentity") (simp_all add: sender_Handle_def data_step_def Let_def)
next
  case (ServicePolicyModel v)
  then show ?thesis using assms sender_policy_step [OF assms(3) ServicePolicyModel] by (simp add: sender_Handle_def data_step_def Let_def)
qed (use assms in \<open>simp_all add: sender_Handle_def data_step_def Let_def sender_identity_step sender_service_step sender_other_step sender_key_step\<close>)

interpretation controller: replica parsers "\<lambda>e s. Some (sender_Handle parsers e s)" fresh_policy sender_ok sender_spec
  for parsers :: "'k key_parsers"
  by unfold_locales (simp add: sender_Handle_step)

end
