(* ===== verification/Router_Data_Model.thy ===== *)
theory Router_Data_Model
  imports Data_Model_Sender "HOL-Library.List_Lexorder" "HOL-Library.Char_ord"
begin

text \<open>
  The router's side of the router data model (\<^verbatim>\<open>common/router_data_model.go\<close>): the same entities as on the
  controller, with indexes between them and with the access of each identity kept ready for use. The
  handlers of events maintain all of this incrementally.
\<close>

section \<open>The model\<close>

text \<open>
  Counters of 32 bits are kept as integers: they count the policies of one identity. An index is the
  number of the change set that last touched an entry.
\<close>

record service_access =
  DialPoliciesCount :: int
  BindPoliciesCount :: int
  dialPoliciesIndex :: u64
  bindPoliciesIndex :: u64

record identity =
  i_Data :: ds_identity
  i_ServicePolicies :: cset
  i_ServiceAccess :: "service_access cmap"
  i_PostureChecks :: "int cmap"
  i_identityIndex :: u64
  i_tracking :: bool

record config_type =
  t_Data :: ds_config_type
  t_index :: u64

record config =
  c_Data :: ds_config
  c_services :: cset
  c_identities :: cset
  c_index :: u64

record service =
  s_Data :: ds_service
  s_servicePolicies :: cset
  s_index :: u64

record posture_check =
  k_Data :: ds_posture_check
  k_servicePolicies :: cset
  k_index :: u64

record service_policy =
  p_Data :: ds_policy
  p_Services :: cset
  p_PostureChecks :: cset
  p_Identities :: cset
  p_servicesIndex :: u64
  p_postureChecksIndex :: u64

text \<open>
  What is queued for the goroutine that serves subscriptions, and what is told to the subscriber of the
  router's own configs.
\<close>

datatype subscriber_event =
  identityDeletedEvent string
| identityCreatedEvent string
| checkForIdentityChangesEvent string
| syncAllSubscribersEvent

datatype router_config_event = OnRouterConfigApplied string string | OnRouterConfigRemoved string

text \<open>
  \<open>'s\<close> is the type of subscriptions. The channel of subscriber events has room for 250 events; the
  request for a scan is a channel with room for one. \<open>m_dispatched\<close> is the trace of calls to the
  subscriber of router configs, if there is one.
\<close>

record ('k, 's) rdm =
  m_ConfigTypes :: "config_type cmap"
  m_Configs :: "config cmap"
  m_Identities :: "identity cmap"
  m_Services :: "service cmap"
  m_Routers :: "ds_router cmap"
  m_ServicePolicies :: "service_policy cmap"
  m_PostureChecks :: "posture_check cmap"
  m_PublicKeys :: "ds_public_key cmap"
  m_Revocations :: "ds_revocation cmap"
  m_cachedPublicKeys :: "'k cmap"
  m_serviceNameIndex :: "string cmap"
  m_terminatorIdCache :: "string cmap"
  m_subscriptions :: "'s cmap"
  m_updatedIdentities :: "u8 cmap"
  m_events :: "subscriber_event list"
  m_scanSubs :: bool
  m_timelineId :: string
  m_selfRouterId :: string
  m_configSubscriber :: bool
  m_dispatched :: "router_config_event list"
  m_rdmIndex :: u64

definition NewReceiverRouterDataModel :: "string \<Rightarrow> ('k, 's) rdm" where
  "NewReceiverRouterDataModel routerId =
     \<lparr>m_ConfigTypes = [], m_Configs = [], m_Identities = [], m_Services = [], m_Routers = [],
      m_ServicePolicies = [], m_PostureChecks = [], m_PublicKeys = [], m_Revocations = [],
      m_cachedPublicKeys = [], m_serviceNameIndex = [], m_terminatorIdCache = [], m_subscriptions = [],
      m_updatedIdentities = [], m_events = [], m_scanSubs = False, m_timelineId = '''',
      m_selfRouterId = routerId, m_configSubscriber = False, m_dispatched = [], m_rdmIndex = 0\<rparr>"

section \<open>Policies and the access of an identity\<close>

definition IsDial :: "service_policy \<Rightarrow> bool" where
  "IsDial p \<longleftrightarrow> pol_PolicyType (p_Data p) = DialPolicy"

definition IsBind :: "service_policy \<Rightarrow> bool" where
  "IsBind p \<longleftrightarrow> pol_PolicyType (p_Data p) = BindPolicy"

definition IsDialAllowed :: "service_access \<Rightarrow> bool" where
  "IsDialAllowed a \<longleftrightarrow> DialPoliciesCount a > 0"

definition IsBindAllowed :: "service_access \<Rightarrow> bool" where
  "IsBindAllowed a \<longleftrightarrow> BindPoliciesCount a > 0"

definition HasAccess :: "service_access \<Rightarrow> bool" where
  "HasAccess a \<longleftrightarrow> IsDialAllowed a \<or> IsBindAllowed a"

definition no_access :: service_access where
  "no_access = \<lparr>DialPoliciesCount = 0, BindPoliciesCount = 0, dialPoliciesIndex = 0, bindPoliciesIndex = 0\<rparr>"

definition updatePostureChecksIndex :: "service_policy \<Rightarrow> u64 \<Rightarrow> service_access \<Rightarrow> service_access" where
  "updatePostureChecksIndex p index a =
     (if IsDial p then (if index > dialPoliciesIndex a then a\<lparr>dialPoliciesIndex := index\<rparr> else a)
      else if IsBind p then (if index > bindPoliciesIndex a then a\<lparr>bindPoliciesIndex := index\<rparr> else a)
      else a)"

definition updateServicePolicies :: "service_policy \<Rightarrow> u64 \<Rightarrow> bool \<Rightarrow> service_access \<Rightarrow> service_access" where
  "updateServicePolicies p index add a =
     (let d = (if add then 1 else - 1)
      in if IsDial p then
           let a' = a\<lparr>DialPoliciesCount := DialPoliciesCount a + d\<rparr>
           in if index > dialPoliciesIndex a' then a'\<lparr>dialPoliciesIndex := index\<rparr> else a'
         else if IsBind p then
           let a' = a\<lparr>BindPoliciesCount := BindPoliciesCount a + d\<rparr>
           in if index > bindPoliciesIndex a' then a'\<lparr>bindPoliciesIndex := index\<rparr> else a'
         else a)"

definition updateServiceCount :: "service_policy \<Rightarrow> u64 \<Rightarrow> bool \<Rightarrow> string \<Rightarrow> identity \<Rightarrow> identity" where
  "updateServiceCount p index add serviceId d =
     (let present = map_of (i_ServiceAccess d) serviceId;
          current = updateServicePolicies p index add (case present of Some a \<Rightarrow> a | None \<Rightarrow> no_access)
      in if HasAccess current then d\<lparr>i_ServiceAccess := AList.update serviceId current (i_ServiceAccess d)\<rparr>
         else if present \<noteq> None then d\<lparr>i_ServiceAccess := AList.delete serviceId (i_ServiceAccess d)\<rparr>
         else d)"

definition incrementUseCount :: "string \<Rightarrow> int cmap \<Rightarrow> int cmap" where
  "incrementUseCount k m = AList.update k ((case map_of m k of Some v \<Rightarrow> v | None \<Rightarrow> 0) + 1) m"

definition decrementUseCount :: "string \<Rightarrow> int cmap \<Rightarrow> int cmap" where
  "decrementUseCount k m =
     (case map_of m k of
        Some v \<Rightarrow> if v - 1 < 1 then AList.delete k m else AList.update k (v - 1) m
      | None \<Rightarrow> m)"

definition addedToPolicy :: "service_policy \<Rightarrow> u64 \<Rightarrow> identity \<Rightarrow> identity" where
  "addedToPolicy p index d =
     (if pol_Id (p_Data p) \<in> set (i_ServicePolicies d) then d
      else
        let d1 = d\<lparr>i_ServicePolicies := cset_set (pol_Id (p_Data p)) (i_ServicePolicies d)\<rparr>;
            d2 = (if i_tracking d1 then foldl (\<lambda>d s. updateServiceCount p index True s d) d1 (p_Services p) else d1)
        in if p_Services p \<noteq> []
           then d2\<lparr>i_PostureChecks := foldl (\<lambda>m k. incrementUseCount k m) (i_PostureChecks d2) (p_PostureChecks p)\<rparr>
           else d2)"

definition removedFromPolicy :: "service_policy \<Rightarrow> u64 \<Rightarrow> identity \<Rightarrow> identity" where
  "removedFromPolicy p index d =
     (if pol_Id (p_Data p) \<notin> set (i_ServicePolicies d) then d
      else
        let d1 = d\<lparr>i_ServicePolicies := cset_remove (pol_Id (p_Data p)) (i_ServicePolicies d)\<rparr>;
            d2 = (if i_tracking d1 then foldl (\<lambda>d s. updateServiceCount p index False s d) d1 (p_Services p) else d1)
        in if p_Services p \<noteq> []
           then d2\<lparr>i_PostureChecks := foldl (\<lambda>m k. decrementUseCount k m) (i_PostureChecks d2) (p_PostureChecks p)\<rparr>
           else d2)"

text \<open>The services of a policy change, before they are entered in the policy.\<close>

definition servicesChangedInPolicy :: "bool \<Rightarrow> service_policy \<Rightarrow> string list \<Rightarrow> u64 \<Rightarrow> identity \<Rightarrow> identity" where
  "servicesChangedInPolicy add p serviceIds index d =
     (if i_tracking d \<and> pol_Id (p_Data p) \<in> set (i_ServicePolicies d)
      then foldl (\<lambda>d s. updateServiceCount p index add s d) d serviceIds else d)"

text \<open>
  The access of a service of the policy is dereferenced without a check, so a missing entry panics if the
  policy is a dial or bind policy: \<open>None\<close>.
\<close>

definition touch_access :: "service_policy \<Rightarrow> u64 \<Rightarrow> string \<Rightarrow> identity \<Rightarrow> identity option" where
  "touch_access p index serviceId d =
     (case map_of (i_ServiceAccess d) serviceId of
        Some a \<Rightarrow> Some (d\<lparr>i_ServiceAccess := AList.update serviceId (updatePostureChecksIndex p index a) (i_ServiceAccess d)\<rparr>)
      | None \<Rightarrow> if IsDial p \<or> IsBind p then None else Some d)"

definition postureChecksChangedInPolicy :: "bool \<Rightarrow> service_policy \<Rightarrow> string list \<Rightarrow> u64 \<Rightarrow> identity \<Rightarrow> identity option" where
  "postureChecksChangedInPolicy add p ids index d =
     (let d1 = (if pol_Id (p_Data p) \<in> set (i_ServicePolicies d)
                then d\<lparr>i_PostureChecks := foldl (\<lambda>m k. if add then incrementUseCount k m else decrementUseCount k m)
                         (i_PostureChecks d) ids\<rparr>
                else d)
      in if i_tracking d1 then ofold (touch_access p index) (p_Services p) d1 else Some d1)"

section \<open>Notifications\<close>

definition IdentityUpdated :: u8 where "IdentityUpdated = 2"
definition IdentityAdded :: u8 where "IdentityAdded = 1"
definition IdentityDeleted :: u8 where "IdentityDeleted = 4"

definition markIdentityForCheck :: "string \<Rightarrow> u8 \<Rightarrow> ('k, 's) rdm \<Rightarrow> ('k, 's) rdm" where
  "markIdentityForCheck identityId checkType m =
     m\<lparr>m_updatedIdentities := cmap_upsert (m_updatedIdentities m) identityId
        (\<lambda>old. or (case old of Some v \<Rightarrow> v | None \<Rightarrow> 0) checkType)\<rparr>"

text \<open>
  The flag of the identity is set and an event is queued; if the queue is full, a scan of all flags is
  requested instead.
\<close>

definition queue_check :: "u8 \<Rightarrow> subscriber_event \<Rightarrow> string \<Rightarrow> ('k, 's) rdm \<Rightarrow> ('k, 's) rdm" where
  "queue_check checkType event identityId m =
     (if map_of (m_subscriptions m) identityId = None then m
      else
        let m1 = markIdentityForCheck identityId checkType m
        in if length (m_events m1) < 250 then m1\<lparr>m_events := m_events m1 @ [event]\<rparr> else m1\<lparr>m_scanSubs := True\<rparr>)"

definition queueSyncCheck :: "string \<Rightarrow> ('k, 's) rdm \<Rightarrow> ('k, 's) rdm" where
  "queueSyncCheck i = queue_check IdentityUpdated (checkForIdentityChangesEvent i) i"

definition queueNewIdentitySubCheck :: "string \<Rightarrow> ('k, 's) rdm \<Rightarrow> ('k, 's) rdm" where
  "queueNewIdentitySubCheck i = queue_check IdentityAdded (identityCreatedEvent i) i"

definition queueIdentityDeletedSubCheck :: "string \<Rightarrow> ('k, 's) rdm \<Rightarrow> ('k, 's) rdm" where
  "queueIdentityDeletedSubCheck i = queue_check IdentityDeleted (identityDeletedEvent i) i"

definition SyncAllSubscribers :: "('k, 's) rdm \<Rightarrow> ('k, 's) rdm" where
  "SyncAllSubscribers m = m\<lparr>m_events := m_events m @ [syncAllSubscribersEvent]\<rparr>"

definition NotifyIdentityChange :: "string \<Rightarrow> ('k, 's) rdm \<Rightarrow> ('k, 's) rdm" where
  "NotifyIdentityChange i m = (if map_of (m_Identities m) i = None then m else queueSyncCheck i m)"

definition NotifyServicePolicyServiceChange :: "u64 \<Rightarrow> string \<Rightarrow> ('k, 's) rdm \<Rightarrow> ('k, 's) rdm" where
  "NotifyServicePolicyServiceChange index policyId m =
     (case map_of (m_ServicePolicies m) policyId of
        None \<Rightarrow> m
      | Some p \<Rightarrow>
          let m1 = (if p_servicesIndex p < index
                    then m\<lparr>m_ServicePolicies := AList.update policyId (p\<lparr>p_servicesIndex := index\<rparr>) (m_ServicePolicies m)\<rparr>
                    else m)
          in foldl (\<lambda>m i. NotifyIdentityChange i m) m1 (p_Identities p))"

definition NotifyServicePolicyPostureChecksChange :: "u64 \<Rightarrow> string \<Rightarrow> ('k, 's) rdm \<Rightarrow> ('k, 's) rdm" where
  "NotifyServicePolicyPostureChecksChange index policyId m =
     (case map_of (m_ServicePolicies m) policyId of
        None \<Rightarrow> m
      | Some p \<Rightarrow>
          let m1 = (if p_postureChecksIndex p < index
                    then m\<lparr>m_ServicePolicies := AList.update policyId (p\<lparr>p_postureChecksIndex := index\<rparr>) (m_ServicePolicies m)\<rparr>
                    else m)
          in foldl (\<lambda>m i. NotifyIdentityChange i m) m1 (p_Identities p))"

definition NotifyServiceOfConfigChange :: "u64 \<Rightarrow> string \<Rightarrow> ('k, 's) rdm \<Rightarrow> ('k, 's) rdm" where
  "NotifyServiceOfConfigChange index serviceId m =
     (case map_of (m_Services m) serviceId of
        None \<Rightarrow> m
      | Some v \<Rightarrow>
          let m1 = (if s_index v < index
                    then m\<lparr>m_Services := AList.update serviceId (v\<lparr>s_index := index\<rparr>) (m_Services m)\<rparr> else m)
          in foldl (\<lambda>m p. NotifyServicePolicyServiceChange index p m) m1 (s_servicePolicies v))"

text \<open>The subscriber of the router's own configs hears only of config types that target routers.\<close>

definition dispatch_router_config :: "string \<Rightarrow> (string \<Rightarrow> router_config_event) \<Rightarrow> ('k, 's) rdm \<Rightarrow> ('k, 's) rdm" where
  "dispatch_router_config typeId event m =
     (if \<not> m_configSubscriber m then m
      else case map_of (m_ConfigTypes m) typeId of
        Some t \<Rightarrow> if ct_Target (t_Data t) = ConfigTypeTargetRouter
                  then m\<lparr>m_dispatched := m_dispatched m @ [event (ct_Name (t_Data t))]\<rparr> else m
      | None \<Rightarrow> m)"

definition dispatchRouterConfigApply :: "string \<Rightarrow> string \<Rightarrow> ('k, 's) rdm \<Rightarrow> ('k, 's) rdm" where
  "dispatchRouterConfigApply typeId data = dispatch_router_config typeId (\<lambda>name. OnRouterConfigApplied name data)"

definition dispatchRouterConfigRemove :: "string \<Rightarrow> ('k, 's) rdm \<Rightarrow> ('k, 's) rdm" where
  "dispatchRouterConfigRemove typeId = dispatch_router_config typeId OnRouterConfigRemoved"

section \<open>Access to the tables\<close>

definition withLockedIdentity :: "string \<Rightarrow> (identity \<Rightarrow> identity option) \<Rightarrow> ('k, 's) rdm \<Rightarrow> ('k, 's) rdm option" where
  "withLockedIdentity i f m =
     (case map_of (m_Identities m) i of
        None \<Rightarrow> Some m
      | Some d \<Rightarrow> map_option (\<lambda>d'. m\<lparr>m_Identities := AList.update i d' (m_Identities m)\<rparr>) (f d))"

definition withService :: "string \<Rightarrow> (service \<Rightarrow> service) \<Rightarrow> ('k, 's) rdm \<Rightarrow> ('k, 's) rdm" where
  "withService i f m =
     (case map_of (m_Services m) i of
        None \<Rightarrow> m | Some v \<Rightarrow> m\<lparr>m_Services := AList.update i (f v) (m_Services m)\<rparr>)"

definition withPostureCheck :: "string \<Rightarrow> (posture_check \<Rightarrow> posture_check) \<Rightarrow> ('k, 's) rdm \<Rightarrow> ('k, 's) rdm" where
  "withPostureCheck i f m =
     (case map_of (m_PostureChecks m) i of
        None \<Rightarrow> m | Some v \<Rightarrow> m\<lparr>m_PostureChecks := AList.update i (f v) (m_PostureChecks m)\<rparr>)"

definition with_config :: "string \<Rightarrow> (config \<Rightarrow> config) \<Rightarrow> ('k, 's) rdm \<Rightarrow> ('k, 's) rdm" where
  "with_config i f m =
     (case map_of (m_Configs m) i of
        None \<Rightarrow> m | Some v \<Rightarrow> m\<lparr>m_Configs := AList.update i (f v) (m_Configs m)\<rparr>)"

section \<open>Policy changes\<close>

text \<open>
  The new or removed identities of a policy. The policy is updated with each identity that exists.
\<close>

fun change_identities ::
  "bool \<Rightarrow> u64 \<Rightarrow> string list \<Rightarrow> service_policy \<times> ('k, 's) rdm \<Rightarrow> service_policy \<times> ('k, 's) rdm" where
  "change_identities add index [] st = st"
| "change_identities add index (i # ids) (p, m) =
     (case map_of (m_Identities m) i of
        None \<Rightarrow> change_identities add index ids (p, m)
      | Some d \<Rightarrow>
          let p' = p\<lparr>p_Identities := change_member add i (p_Identities p)\<rparr>;
              d' = (if add then addedToPolicy p' index d else removedFromPolicy p' index d)
          in change_identities add index ids (p', m\<lparr>m_Identities := AList.update i d' (m_Identities m)\<rparr>))"

definition change_services ::
  "bool \<Rightarrow> u64 \<Rightarrow> string list \<Rightarrow> service_policy \<times> ('k, 's) rdm \<Rightarrow> (service_policy \<times> ('k, 's) rdm) option" where
  "change_services add index ids st =
     (case st of (p, m) \<Rightarrow>
        case ofold (\<lambda>i. withLockedIdentity i (\<lambda>d. Some (servicesChangedInPolicy add p ids index d))) (p_Identities p) m of
          None \<Rightarrow> None
        | Some m1 \<Rightarrow>
            let p1 = p\<lparr>p_Services := foldl (\<lambda>xs x. change_member add x xs) (p_Services p) ids\<rparr>;
                m2 = foldl (\<lambda>m i. withService i
                       (\<lambda>v. v\<lparr>s_servicePolicies := change_member add (pol_Id (p_Data p)) (s_servicePolicies v)\<rparr>) m) m1 ids;
                checks = (if add then p_Services p = [] \<and> p_Services p1 \<noteq> [] else p_Services p \<noteq> [] \<and> p_Services p1 = [])
            in map_option (Pair p1)
                 (if checks
                  then ofold (\<lambda>i. withLockedIdentity i (postureChecksChangedInPolicy add p1 (p_PostureChecks p1) index)) (p_Identities p1) m2
                  else Some m2))"

definition change_posture_checks ::
  "bool \<Rightarrow> u64 \<Rightarrow> string list \<Rightarrow> service_policy \<times> ('k, 's) rdm \<Rightarrow> (service_policy \<times> ('k, 's) rdm) option" where
  "change_posture_checks add index ids st =
     (case st of (p, m) \<Rightarrow>
        case (if p_Services p \<noteq> []
              then ofold (\<lambda>i. withLockedIdentity i (postureChecksChangedInPolicy add p ids index)) (p_Identities p) m
              else Some m) of
          None \<Rightarrow> None
        | Some m1 \<Rightarrow>
            Some (p\<lparr>p_PostureChecks := foldl (\<lambda>xs x. change_member add x xs) (p_PostureChecks p) ids\<rparr>,
              foldl (\<lambda>m i. withPostureCheck i
                (\<lambda>v. v\<lparr>k_servicePolicies := change_member add (pol_Id (p_Data p)) (k_servicePolicies v)\<rparr>) m) m1 ids))"

definition HandleServicePolicyChange :: "u64 \<Rightarrow> ds_policy_change \<Rightarrow> ('k, 's) rdm \<Rightarrow> ('k, 's) rdm option" where
  "HandleServicePolicyChange index model m =
     (case map_of (m_ServicePolicies m) (pc_PolicyId model) of
        None \<Rightarrow> Some m
      | Some p \<Rightarrow>
          let ids = pc_RelatedEntityIds model; add = pc_Add model
          in case (case pc_RelatedEntityType model of
                     RelatedIdentity \<Rightarrow> Some (change_identities add index ids (p, m))
                   | RelatedService \<Rightarrow> map_option (\<lambda>(p, m). (p\<lparr>p_servicesIndex := index\<rparr>, m)) (change_services add index ids (p, m))
                   | RelatedPostureCheck \<Rightarrow>
                       map_option (\<lambda>(p, m). (p\<lparr>p_postureChecksIndex := index\<rparr>, m)) (change_posture_checks add index ids (p, m))
                   | InvalidRelatedType \<Rightarrow> Some (p, m)) of
               None \<Rightarrow> None
             | Some (p1, m1) \<Rightarrow>
                 let m2 = m1\<lparr>m_ServicePolicies := AList.update (pc_PolicyId model) p1 (m_ServicePolicies m1)\<rparr>;
                     m3 = foldl (\<lambda>m i. NotifyIdentityChange i m) m2 (p_Identities p1)
                 in Some (if pc_RelatedEntityType model = RelatedIdentity \<and> \<not> add
                          then foldl (\<lambda>m i. NotifyIdentityChange i m) m3 ids else m3))"


section \<open>Events\<close>

definition getReferencedConfigs :: "ds_identity \<Rightarrow> string list" where
  "getReferencedConfigs d = remdups (concat (map (\<lambda>(_, configs). map snd configs) (id_ServiceConfigs d)))"

definition removeConfigReferences :: "ds_identity \<Rightarrow> ('k, 's) rdm \<Rightarrow> ('k, 's) rdm" where
  "removeConfigReferences d m =
     foldl (\<lambda>m c. with_config c (\<lambda>v. v\<lparr>c_identities := cset_remove (id_Id d) (c_identities v)\<rparr>) m) m (getReferencedConfigs d)"

definition addConfigReferences :: "ds_identity \<Rightarrow> ('k, 's) rdm \<Rightarrow> ('k, 's) rdm" where
  "addConfigReferences d m =
     foldl (\<lambda>m c. with_config c (\<lambda>v. v\<lparr>c_identities := cset_set (id_Id d) (c_identities v)\<rparr>) m) m (getReferencedConfigs d)"

text \<open>The change that takes a deleted entity out of a policy.\<close>

definition cleanup_change :: "related_type \<Rightarrow> string \<Rightarrow> string \<Rightarrow> ds_policy_change" where
  "cleanup_change ty i policyId = \<lparr>pc_PolicyId = policyId, pc_RelatedEntityIds = [i], pc_RelatedEntityType = ty, pc_Add = False\<rparr>"

definition cleanup_policies ::
  "u64 \<Rightarrow> related_type \<Rightarrow> (service_policy \<Rightarrow> cset) \<Rightarrow> string \<Rightarrow> cset \<Rightarrow> ('k, 's) rdm \<Rightarrow> ('k, 's) rdm \<Rightarrow> ('k, 's) rdm option" where
  "cleanup_policies index ty members i policies m0 m =
     ofold (HandleServicePolicyChange index)
       (map (cleanup_change ty i)
         (filter (\<lambda>p. case map_of (m_ServicePolicies m0) p of Some v \<Rightarrow> i \<in> set (members v) | None \<Rightarrow> False) policies)) m"

definition HandleIdentityEvent :: "u64 \<Rightarrow> action \<Rightarrow> ds_identity \<Rightarrow> ('k, 's) rdm \<Rightarrow> ('k, 's) rdm option" where
  "HandleIdentityEvent index a model m =
     (let i = id_Id model
      in if a = Delete then
           case (case map_of (m_Identities m) i of
                   None \<Rightarrow> Some m
                 | Some d \<Rightarrow> cleanup_policies index RelatedIdentity p_Identities i (i_ServicePolicies d) m
                     (removeConfigReferences (i_Data d) m)) of
             None \<Rightarrow> None
           | Some m1 \<Rightarrow> Some (queueIdentityDeletedSubCheck i (m1\<lparr>m_Identities := AList.delete i (m_Identities m1)\<rparr>))
         else
           let m1 = (case map_of (m_Identities m) i of None \<Rightarrow> m | Some d \<Rightarrow> removeConfigReferences (i_Data d) m);
               m2 = addConfigReferences model m1;
               d' = (case map_of (m_Identities m) i of
                       None \<Rightarrow> \<lparr>i_Data = model, i_ServicePolicies = [], i_ServiceAccess = [], i_PostureChecks = [],
                                i_identityIndex = index, i_tracking = False\<rparr>
                     | Some d \<Rightarrow> d\<lparr>i_Data := model, i_identityIndex := index\<rparr>);
               m3 = m2\<lparr>m_Identities := AList.update i d' (m_Identities m2)\<rparr>
           in Some (if a = Create then queueNewIdentitySubCheck i m3 else queueSyncCheck i m3))"

text \<open>The elements that only one of two sorted lists has.\<close>

fun diff_sorted :: "string list \<Rightarrow> string list \<Rightarrow> string list \<times> string list" where
  "diff_sorted [] ys = ([], ys)"
| "diff_sorted xs [] = (xs, [])"
| "diff_sorted (x # xs) (y # ys) =
     (if x < y then apfst (Cons x) (diff_sorted xs (y # ys))
      else if y < x then apsnd (Cons y) (diff_sorted (x # xs) ys)
      else diff_sorted xs ys)"

definition diffStringSlices :: "string list \<Rightarrow> string list \<Rightarrow> string list \<times> string list" where
  "diffStringSlices xs ys = diff_sorted (sort xs) (sort ys)"

definition removeFromConfigs :: "string \<Rightarrow> string list \<Rightarrow> ('k, 's) rdm \<Rightarrow> ('k, 's) rdm" where
  "removeFromConfigs serviceId ids m =
     foldl (\<lambda>m c. with_config c (\<lambda>v. v\<lparr>c_services := cset_remove serviceId (c_services v)\<rparr>) m) m ids"

definition addToConfigs :: "string \<Rightarrow> string list \<Rightarrow> ('k, 's) rdm \<Rightarrow> ('k, 's) rdm" where
  "addToConfigs serviceId ids m =
     foldl (\<lambda>m c. with_config c (\<lambda>v. v\<lparr>c_services := cset_set serviceId (c_services v)\<rparr>) m) m ids"

text \<open>An entry of the name index is dropped only if it belongs to this service.\<close>

definition drop_name :: "string \<Rightarrow> string \<Rightarrow> ('k, 's) rdm \<Rightarrow> ('k, 's) rdm" where
  "drop_name name serviceId m =
     (if name = '''' then m
      else m\<lparr>m_serviceNameIndex := fst (cmap_remove_cb (m_serviceNameIndex m) name (\<lambda>v. v = Some serviceId))\<rparr>)"

text \<open>Sorting happens in place, so an updated service has sorted configs and a new one has not.\<close>

definition HandleServiceEvent :: "u64 \<Rightarrow> action \<Rightarrow> ds_service \<Rightarrow> ('k, 's) rdm \<Rightarrow> ('k, 's) rdm option" where
  "HandleServiceEvent index a model m =
     (let i = svc_Id model
      in if a = Delete then
           case map_of (m_Services m) i of
             None \<Rightarrow> Some m
           | Some v \<Rightarrow>
               let m1 = removeFromConfigs i (svc_Configs (s_Data v)) m;
                   m2 = m1\<lparr>m_Services := AList.delete i (m_Services m1)\<rparr>
               in cleanup_policies index RelatedService p_Services i (s_servicePolicies v) m (drop_name (svc_Name (s_Data v)) i m2)
         else
           let old = map_of (m_Services m) i;
               (toRemove, toAdd) = (case old of None \<Rightarrow> ([], svc_Configs model)
                                    | Some v \<Rightarrow> diffStringSlices (svc_Configs (s_Data v)) (svc_Configs model));
               v' = \<lparr>s_Data = (case old of None \<Rightarrow> model | Some _ \<Rightarrow> model\<lparr>svc_Configs := sort (svc_Configs model)\<rparr>),
                     s_servicePolicies = (case old of None \<Rightarrow> [] | Some v \<Rightarrow> s_servicePolicies v), s_index = index\<rparr>;
               m1 = addToConfigs i toAdd (removeFromConfigs i toRemove m);
               m2 = m1\<lparr>m_Services := AList.update i v' (m_Services m1)\<rparr>;
               m3 = (case old of None \<Rightarrow> m2
                     | Some v \<Rightarrow> if svc_Name (s_Data v) \<noteq> svc_Name model then drop_name (svc_Name (s_Data v)) i m2 else m2);
               m4 = m3\<lparr>m_serviceNameIndex := AList.update (svc_Name model) i (m_serviceNameIndex m3)\<rparr>
           in Some (foldl (\<lambda>m p. NotifyServicePolicyServiceChange index p m) m4 (s_servicePolicies v')))"

definition HandleConfigTypeEvent :: "u64 \<Rightarrow> action \<Rightarrow> ds_config_type \<Rightarrow> ('k, 's) rdm \<Rightarrow> ('k, 's) rdm" where
  "HandleConfigTypeEvent index a model m =
     (if a = Delete then m\<lparr>m_ConfigTypes := AList.delete (ct_Id model) (m_ConfigTypes m)\<rparr>
      else
        let m1 = m\<lparr>m_ConfigTypes := AList.update (ct_Id model) \<lparr>t_Data = model, t_index = index\<rparr> (m_ConfigTypes m)\<rparr>
        in foldl (\<lambda>m (_, c). if cfg_TypeId (c_Data c) = ct_Id model
                             then foldl (\<lambda>m i. NotifyIdentityChange i m)
                                    (foldl (\<lambda>m s. NotifyServiceOfConfigChange index s m) m (c_services c)) (c_identities c)
                             else m) m1 (m_Configs m1))"

text \<open>What is left of the overrides of an identity when a config is deleted.\<close>

definition prune_configs :: "string \<Rightarrow> identity \<Rightarrow> identity" where
  "prune_configs configId d =
     d\<lparr>i_Data := (i_Data d)\<lparr>id_ServiceConfigs :=
        filter (\<lambda>(_, cs). cs \<noteq> []) (map (\<lambda>(s, cs). (s, filter (\<lambda>(_, c). c \<noteq> configId) cs)) (id_ServiceConfigs (i_Data d)))\<rparr>\<rparr>"

definition HandleConfigEvent :: "u64 \<Rightarrow> action \<Rightarrow> ds_config \<Rightarrow> ('k, 's) rdm \<Rightarrow> ('k, 's) rdm option" where
  "HandleConfigEvent index a model m =
     (let i = cfg_Id model
      in if a = Delete then
           case map_of (m_Configs m) i of
             None \<Rightarrow> Some m
           | Some v \<Rightarrow>
               let m1 = foldl (\<lambda>m s. NotifyServiceOfConfigChange index s m) m (c_services v)
               in case ofold (\<lambda>k m. map_option (NotifyIdentityChange k)
                               (withLockedIdentity k (\<lambda>d. Some (prune_configs (cfg_Id (c_Data v)) d)) m)) (c_identities v) m1 of
                    None \<Rightarrow> None
                  | Some m2 \<Rightarrow>
                      let m3 = m2\<lparr>m_Configs := AList.delete i (m_Configs m2)\<rparr>
                      in Some (if cfg_TypeId (c_Data v) \<noteq> '''' then dispatchRouterConfigRemove (cfg_TypeId (c_Data v)) m3 else m3)
         else
           let old = map_of (m_Configs m) i;
               v' = \<lparr>c_Data = model, c_services = (case old of Some v \<Rightarrow> c_services v | None \<Rightarrow> []),
                     c_identities = (case old of Some v \<Rightarrow> c_identities v | None \<Rightarrow> []), c_index = index\<rparr>;
               changed = (case old of Some v \<Rightarrow> model \<noteq> c_Data v | None \<Rightarrow> True);
               m1 = (if changed
                     then foldl (\<lambda>m i. NotifyIdentityChange i m)
                            (foldl (\<lambda>m s. NotifyServiceOfConfigChange index s m) m (c_services v')) (c_identities v')
                     else m);
               m2 = m1\<lparr>m_Configs := AList.update i v' (m_Configs m1)\<rparr>
           in Some (if changed then dispatchRouterConfigApply (cfg_TypeId model) (cfg_DataJson model) m2 else m2))"


definition applyUpdateServicePolicyEvent :: "u64 \<Rightarrow> ds_policy \<Rightarrow> ('k, 's) rdm \<Rightarrow> ('k, 's) rdm option" where
  "applyUpdateServicePolicyEvent index model m =
     (case map_of (m_ServicePolicies m) (pol_Id model) of
        None \<Rightarrow> Some (m\<lparr>m_ServicePolicies := AList.update (pol_Id model)
          \<lparr>p_Data = model, p_Services = [], p_PostureChecks = [], p_Identities = [],
           p_servicesIndex = index, p_postureChecksIndex = 0\<rparr> (m_ServicePolicies m)\<rparr>)
      | Some p \<Rightarrow>
          let p' = \<lparr>p_Data = model, p_Services = p_Services p, p_PostureChecks = p_PostureChecks p,
                    p_Identities = p_Identities p, p_servicesIndex = index, p_postureChecksIndex = 0\<rparr>
          in map_option (\<lambda>m. m\<lparr>m_ServicePolicies := AList.update (pol_Id model) p' (m_ServicePolicies m)\<rparr>)
               (if pol_PolicyType (p_Data p) \<noteq> pol_PolicyType model
                then ofold (\<lambda>i. withLockedIdentity i (\<lambda>d. Some (addedToPolicy p' index (removedFromPolicy p index d)))) (p_Identities p) m
                else Some m))"

definition applyDeleteServicePolicyEvent :: "u64 \<Rightarrow> ds_policy \<Rightarrow> ('k, 's) rdm \<Rightarrow> ('k, 's) rdm option" where
  "applyDeleteServicePolicyEvent index model m =
     (case map_of (m_ServicePolicies m) (pol_Id model) of
        None \<Rightarrow> Some m
      | Some p \<Rightarrow>
          map_option (\<lambda>m. m\<lparr>m_ServicePolicies := AList.delete (pol_Id model) (m_ServicePolicies m)\<rparr>)
            (ofold (\<lambda>i m. map_option (queueSyncCheck i) (withLockedIdentity i (\<lambda>d. Some (removedFromPolicy p index d)) m))
               (p_Identities p) m))"

definition HandleServicePolicyEvent :: "u64 \<Rightarrow> action \<Rightarrow> ds_policy \<Rightarrow> ('k, 's) rdm \<Rightarrow> ('k, 's) rdm option" where
  "HandleServicePolicyEvent index a model m =
     (case a of
        Create \<Rightarrow> applyUpdateServicePolicyEvent index model m
      | Update \<Rightarrow> applyUpdateServicePolicyEvent index model m
      | Delete \<Rightarrow> applyDeleteServicePolicyEvent index model m)"

definition HandlePostureCheckEvent :: "u64 \<Rightarrow> action \<Rightarrow> ds_posture_check \<Rightarrow> ('k, 's) rdm \<Rightarrow> ('k, 's) rdm option" where
  "HandlePostureCheckEvent index a model m =
     (let i = chk_Id model
      in if a = Delete then
           map_option (\<lambda>m. m\<lparr>m_PostureChecks := AList.delete i (m_PostureChecks m)\<rparr>)
             (case map_of (m_PostureChecks m) i of
                None \<Rightarrow> Some m
              | Some v \<Rightarrow> cleanup_policies index RelatedPostureCheck p_PostureChecks i (k_servicePolicies v) m m)
         else
           let v' = \<lparr>k_Data = model, k_servicePolicies = (case map_of (m_PostureChecks m) i of Some v \<Rightarrow> k_servicePolicies v | None \<Rightarrow> []),
                     k_index = index\<rparr>;
               m1 = m\<lparr>m_PostureChecks := AList.update i v' (m_PostureChecks m)\<rparr>
           in Some (foldl (\<lambda>m p. NotifyServicePolicyPostureChecksChange index p m) m1 (k_servicePolicies v')))"

definition HandlePublicKeyEvent :: "'k key_parsers \<Rightarrow> action \<Rightarrow> ds_public_key \<Rightarrow> ('k, 's) rdm \<Rightarrow> ('k, 's) rdm" where
  "HandlePublicKeyEvent parsers a model m =
     (let keys = (if a = Delete then AList.delete (pk_Kid model) (m_PublicKeys m)
                  else AList.update (pk_Kid model) model (m_PublicKeys m))
      in m\<lparr>m_PublicKeys := keys, m_cachedPublicKeys := parsed_keys parsers keys\<rparr>)"

definition HandleRevocationEvent :: "action \<Rightarrow> ds_revocation \<Rightarrow> ('k, 's) rdm \<Rightarrow> ('k, 's) rdm" where
  "HandleRevocationEvent a model m =
     (if a = Delete then m\<lparr>m_Revocations := AList.delete (rev_Id model) (m_Revocations m)\<rparr>
      else m\<lparr>m_Revocations := AList.update (rev_Id model) model (m_Revocations m)\<rparr>)"

text \<open>
  When the router's own list of configs shrinks, the configs that are no longer listed are removed.
\<close>

definition drop_router_config :: "string \<Rightarrow> ('k, 's) rdm \<Rightarrow> ('k, 's) rdm" where
  "drop_router_config configId m =
     (case map_of (m_Configs m) configId of
        None \<Rightarrow> m
      | Some c \<Rightarrow> dispatchRouterConfigRemove (cfg_TypeId (c_Data c)) (m\<lparr>m_Configs := AList.delete configId (m_Configs m)\<rparr>))"

definition HandleRouterEvent :: "action \<Rightarrow> ds_router \<Rightarrow> ('k, 's) rdm \<Rightarrow> ('k, 's) rdm" where
  "HandleRouterEvent a model m =
     (if a = Delete then m\<lparr>m_Routers := AList.delete (rtr_Id model) (m_Routers m)\<rparr>
      else
        let m1 = m\<lparr>m_Routers := AList.update (rtr_Id model) model (m_Routers m)\<rparr>
        in case map_of (m_Routers m) (rtr_Id model) of
             None \<Rightarrow> m1
           | Some prev \<Rightarrow>
               if m_selfRouterId m = '''' \<or> rtr_Id model \<noteq> m_selfRouterId m then m1
               else foldl (\<lambda>m c. drop_router_config c m) m1 (filter (\<lambda>c. c \<notin> set (rtr_Configs model)) (rtr_Configs prev)))"

definition Handle :: "'k key_parsers \<Rightarrow> u64 \<Rightarrow> ds_event \<Rightarrow> ('k, 's) rdm \<Rightarrow> ('k, 's) rdm option" where
  "Handle parsers index e m =
     (let a = ev_Action e
      in case ev_Model e of
           ConfigTypeModel v \<Rightarrow> Some (HandleConfigTypeEvent index a v m)
         | ConfigModel v \<Rightarrow> HandleConfigEvent index a v m
         | IdentityModel v \<Rightarrow> HandleIdentityEvent index a v m
         | ServiceModel v \<Rightarrow> HandleServiceEvent index a v m
         | ServicePolicyModel v \<Rightarrow> HandleServicePolicyEvent index a v m
         | PostureCheckModel v \<Rightarrow> HandlePostureCheckEvent index a v m
         | PublicKeyModel v \<Rightarrow> Some (HandlePublicKeyEvent parsers a v m)
         | RevocationModel v \<Rightarrow> Some (HandleRevocationEvent a v m)
         | PolicyChangeModel v \<Rightarrow> HandleServicePolicyChange index v m
         | RouterModel v \<Rightarrow> Some (HandleRouterEvent a v m)
         | NoModel \<Rightarrow> Some m)"

section \<open>Change sets\<close>

datatype rdm_error = OutOfOrder u64 u64 | GapDetected u64 u64 u64

text \<open>
  The receiver checks the index of a change set before it applies the events. The result is \<open>None\<close> if a
  handler panics.
\<close>

definition rdm_Store :: "ds_event change_set \<Rightarrow> ('k, 's) rdm \<Rightarrow> rdm_error + ('k, 's) rdm" where
  "rdm_Store event m =
     (if cs_IsSynthetic event then Inr m
      else
        let current = m_rdmIndex m
        in if current > 0 \<and> current \<ge> cs_Index event then Inl (OutOfOrder current (cs_Index event))
           else if cs_PreviousIndex event > 0 \<and> current > 0 \<and> cs_PreviousIndex event \<noteq> current
           then Inl (GapDetected current (cs_PreviousIndex event) (cs_Index event))
           else Inr (m\<lparr>m_rdmIndex := cs_Index event\<rparr>))"

definition ApplyChangeSet ::
  "'k key_parsers \<Rightarrow> ds_event change_set \<Rightarrow> ('k, 's) rdm \<Rightarrow> (rdm_error + ('k, 's) rdm) option" where
  "ApplyChangeSet parsers change m =
     (case rdm_Store change m of
        Inl e \<Rightarrow> Some (Inl e)
      | Inr m' \<Rightarrow> map_option Inr (ofold (Handle parsers (cs_Index change)) (cs_Changes change) m'))"

definition NewReceiverRouterDataModelFromDataState :: "'k key_parsers \<Rightarrow> string \<Rightarrow> data_state \<Rightarrow> ('k, 's) rdm option" where
  "NewReceiverRouterDataModelFromDataState parsers routerId st =
     map_option (\<lambda>m. m\<lparr>m_rdmIndex := ds_EndIndex st\<rparr>)
       (ofold (Handle parsers (ds_EndIndex st)) (ds_Events st)
          ((NewReceiverRouterDataModel routerId)\<lparr>m_timelineId := ds_TimelineId st,
             m_terminatorIdCache := (case ds_TerminatorIds st of Some c \<Rightarrow> c | None \<Rightarrow> [])\<rparr>))"


section \<open>Service access\<close>

definition buildServiceAccessList :: "('k, 's) rdm \<Rightarrow> identity \<Rightarrow> service_access cmap" where
  "buildServiceAccessList m d =
     foldl (\<lambda>services pid. case map_of (m_ServicePolicies m) pid of
         None \<Rightarrow> services
       | Some p \<Rightarrow> foldl (\<lambda>services s. AList.update s
           (updateServicePolicies p (max (p_postureChecksIndex p) (p_servicesIndex p)) True
             (case map_of services s of Some a \<Rightarrow> a | None \<Rightarrow> no_access)) services) services (p_Services p))
       [] (i_ServicePolicies d)"

definition EnableServiceAccessTracking :: "string \<Rightarrow> ('k, 's) rdm \<Rightarrow> ('k, 's) rdm" where
  "EnableServiceAccessTracking i m =
     (case map_of (m_Identities m) i of
        None \<Rightarrow> m
      | Some d \<Rightarrow>
          if i_tracking d then m
          else m\<lparr>m_Identities := AList.update i (d\<lparr>i_tracking := True, i_ServiceAccess := buildServiceAccessList m d\<rparr>) (m_Identities m)\<rparr>)"

definition DisableServiceAccessTracking :: "string \<Rightarrow> ('k, 's) rdm \<Rightarrow> ('k, 's) rdm" where
  "DisableServiceAccessTracking i m =
     (case map_of (m_Identities m) i of
        None \<Rightarrow> m
      | Some d \<Rightarrow>
          if i_tracking d
          then m\<lparr>m_Identities := AList.update i (d\<lparr>i_tracking := False, i_ServiceAccess := []\<rparr>) (m_Identities m)\<rparr>
          else m)"

text \<open>
  A model that replaces another one takes over its tracked identities, its subscriptions and its terminator
  ids. The rest of a model comes from the controller.
\<close>

definition InheritLocalData :: "('k, 's) rdm \<Rightarrow> ('k, 's) rdm \<Rightarrow> ('k, 's) rdm" where
  "InheritLocalData other m =
     (let m1 = foldl (\<lambda>m (i, d). if i_tracking d then EnableServiceAccessTracking i m else m) m (m_Identities other);
          m2 = foldl (\<lambda>m (i, sub). EnableServiceAccessTracking i (m\<lparr>m_subscriptions := AList.update i sub (m_subscriptions m)\<rparr>))
                 m1 (m_subscriptions other)
      in foldl (\<lambda>m (k, v). m\<lparr>m_terminatorIdCache := AList.update k v (m_terminatorIdCache m)\<rparr>) m2 (m_terminatorIdCache other))"

record identity_config =
  ic_TypeId :: string
  ic_TypeName :: string
  ic_DataJson :: string

definition loadIdentityConfig :: "('k, 's) rdm \<Rightarrow> string \<Rightarrow> identity_config option" where
  "loadIdentityConfig m configId =
     (case map_of (m_Configs m) configId of
        None \<Rightarrow> None
      | Some c \<Rightarrow>
          case map_of (m_ConfigTypes m) (cfg_TypeId (c_Data c)) of
            None \<Rightarrow> None
          | Some t \<Rightarrow> Some \<lparr>ic_TypeId = ct_Id (t_Data t), ic_TypeName = ct_Name (t_Data t), ic_DataJson = cfg_DataJson (c_Data c)\<rparr>)"

definition GetIdentityServiceConfigs :: "('k, 's) rdm \<Rightarrow> ds_identity \<Rightarrow> string \<Rightarrow> identity_config cmap option" where
  "GetIdentityServiceConfigs m d serviceId =
     (case map_of (m_Services m) serviceId of
        None \<Rightarrow> None
      | Some v \<Rightarrow>
          let load = foldl (\<lambda>res c. case loadIdentityConfig m c of Some ic \<Rightarrow> AList.update (ic_TypeName ic) ic res | None \<Rightarrow> res);
              base = load [] (svc_Configs (s_Data v))
          in Some (case map_of (id_ServiceConfigs d) serviceId of
                     Some overrides \<Rightarrow> load base (map snd overrides) | None \<Rightarrow> base))"

record identity_service =
  is_Service :: service
  is_Configs :: "identity_config cmap"
  is_DialAllowed :: bool
  is_BindAllowed :: bool
  is_dialPoliciesIndex :: u64
  is_bindPoliciesIndex :: u64

text \<open>The list of services of an identity, from the access that is kept with the identity.\<close>

definition denormalized_services :: "('k, 's) rdm \<Rightarrow> identity \<Rightarrow> identity_service cmap" where
  "denormalized_services m d =
     foldl (\<lambda>services (s, a). case map_of (m_Services m) s of
         None \<Rightarrow> services
       | Some v \<Rightarrow> AList.update s
           \<lparr>is_Service = v,
            is_Configs = (case GetIdentityServiceConfigs m (i_Data d) (svc_Id (s_Data v)) of Some c \<Rightarrow> c | None \<Rightarrow> []),
            is_DialAllowed = IsDialAllowed a, is_BindAllowed = IsBindAllowed a,
            is_dialPoliciesIndex = dialPoliciesIndex a, is_bindPoliciesIndex = bindPoliciesIndex a\<rparr> services)
       [] (i_ServiceAccess d)"

definition found_checks :: "('k, 's) rdm \<Rightarrow> string list \<Rightarrow> posture_check cmap \<Rightarrow> posture_check cmap" where
  "found_checks m ids checks =
     foldl (\<lambda>checks c. case map_of (m_PostureChecks m) c of Some v \<Rightarrow> AList.update c v checks | None \<Rightarrow> checks) checks ids"

definition buildServiceListUsingDenormalizedData ::
  "('k, 's) rdm \<Rightarrow> string \<Rightarrow> identity_service cmap \<times> posture_check cmap" where
  "buildServiceListUsingDenormalizedData m identityId =
     (case map_of (m_Identities m) identityId of
        None \<Rightarrow> ([], [])
      | Some d \<Rightarrow> (denormalized_services m d, found_checks m (map fst (i_PostureChecks d)) []))"

text \<open>The same list from the policies of the identity.\<close>

definition grant :: "service_policy \<Rightarrow> identity_service \<Rightarrow> identity_service" where
  "grant p v =
     (if IsDial p then
        let v' = v\<lparr>is_DialAllowed := True\<rparr>
        in if p_postureChecksIndex p > is_dialPoliciesIndex v' then v'\<lparr>is_dialPoliciesIndex := p_postureChecksIndex p\<rparr> else v'
      else if IsBind p then
        let v' = v\<lparr>is_BindAllowed := True\<rparr>
        in if p_postureChecksIndex p > is_bindPoliciesIndex v' then v'\<lparr>is_bindPoliciesIndex := p_postureChecksIndex p\<rparr> else v'
      else v)"

definition add_service :: "('k, 's) rdm \<Rightarrow> identity \<Rightarrow> service_policy \<Rightarrow> string \<Rightarrow> identity_service cmap \<Rightarrow> identity_service cmap" where
  "add_service m d p s services =
     (case map_of (m_Services m) s of
        None \<Rightarrow> services
      | Some v \<Rightarrow> AList.update s (grant p (case map_of services s of
            Some x \<Rightarrow> x
          | None \<Rightarrow> \<lparr>is_Service = v,
              is_Configs = (case GetIdentityServiceConfigs m (i_Data d) (svc_Id (s_Data v)) of Some c \<Rightarrow> c | None \<Rightarrow> []),
              is_DialAllowed = False, is_BindAllowed = False, is_dialPoliciesIndex = 0, is_bindPoliciesIndex = 0\<rparr>)) services)"

definition loadServicePostureChecks :: "('k, 's) rdm \<Rightarrow> service_policy \<Rightarrow> posture_check cmap \<Rightarrow> posture_check cmap" where
  "loadServicePostureChecks m p checks =
     (if p_Services p = [] then checks
      else foldl (\<lambda>checks c. if map_of checks c \<noteq> None then checks
                             else case map_of (m_PostureChecks m) c of Some v \<Rightarrow> AList.update c v checks | None \<Rightarrow> checks)
             checks (p_PostureChecks p))"

definition buildServiceList :: "('k, 's) rdm \<Rightarrow> identity \<Rightarrow> identity_service cmap \<times> posture_check cmap" where
  "buildServiceList m d =
     foldl (\<lambda>(services, checks) pid. case map_of (m_ServicePolicies m) pid of
         None \<Rightarrow> (services, checks)
       | Some p \<Rightarrow> (foldl (\<lambda>services s. add_service m d p s services) services (p_Services p), loadServicePostureChecks m p checks))
       ([], []) (i_ServicePolicies d)"

section \<open>Access checks\<close>

datatype access_error = IdentityNotFound | ServiceNotFound

record access_policies =
  ap_Identity :: identity
  ap_Service :: service
  ap_Policies :: "service_policy list"
  ap_PostureChecks :: "ds_posture_check cmap"

text \<open>The check of a policy that is not in the model is dereferenced, which panics: \<open>None\<close>.\<close>

definition load_checks :: "('k, 's) rdm \<Rightarrow> service_policy \<Rightarrow> ds_posture_check cmap \<Rightarrow> ds_posture_check cmap option" where
  "load_checks m p checks =
     ofold (\<lambda>c checks. if map_of checks c \<noteq> None then Some checks
                       else map_option (\<lambda>v. AList.update c (k_Data v) checks) (map_of (m_PostureChecks m) c))
       (p_PostureChecks p) checks"

definition grants :: "('k, 's) rdm \<Rightarrow> policy_type \<Rightarrow> string \<Rightarrow> string \<Rightarrow> service_policy option" where
  "grants m ty serviceId pid =
     (case map_of (m_ServicePolicies m) pid of
        Some p \<Rightarrow> if pol_PolicyType (p_Data p) = ty \<and> serviceId \<in> set (p_Services p) then Some p else None
      | None \<Rightarrow> None)"

definition GetServiceAccessPolicies ::
  "('k, 's) rdm \<Rightarrow> string \<Rightarrow> string \<Rightarrow> policy_type \<Rightarrow> (access_error + access_policies) option" where
  "GetServiceAccessPolicies m identityId serviceId ty =
     (case map_of (m_Identities m) identityId of
        None \<Rightarrow> Some (Inl IdentityNotFound)
      | Some d \<Rightarrow>
          case map_of (m_Services m) serviceId of
            None \<Rightarrow> Some (Inl ServiceNotFound)
          | Some v \<Rightarrow>
              let policies = List.map_filter (grants m ty serviceId) (i_ServicePolicies d)
              in map_option (\<lambda>checks. Inr \<lparr>ap_Identity = d, ap_Service = v, ap_Policies = policies, ap_PostureChecks = checks\<rparr>)
                   (ofold (load_checks m) policies []))"

definition RevocationTypeApiSession :: string where
  "RevocationTypeApiSession = ''API_SESSION''"

definition RevocationTypeIdentity :: string where
  "RevocationTypeIdentity = ''IDENTITY''"

definition IsApiSessionRevoked :: "('k, 's) rdm \<Rightarrow> string \<Rightarrow> bool" where
  "IsApiSessionRevoked m apiSessionId =
     (case map_of (m_Revocations m) apiSessionId of Some r \<Rightarrow> rev_Type r = RevocationTypeApiSession | None \<Rightarrow> False)"

definition IsIdentityRevoked :: "('k, 's) rdm \<Rightarrow> string \<Rightarrow> int \<Rightarrow> bool" where
  "IsIdentityRevoked m identityId issuedAt =
     (case map_of (m_Revocations m) identityId of
        Some r \<Rightarrow> rev_Type r = RevocationTypeIdentity \<and>
          (case rev_IssuedBefore r of None \<Rightarrow> True | Some t \<Rightarrow> issuedAt < t)
      | None \<Rightarrow> False)"

end
