(* ===== verification/Data_Model_Access.thy ===== *)
theory Data_Model_Access
  imports Router_Data_Model
begin

text \<open>
  The access that a router keeps ready for each identity: counters of the policies that grant a service,
  and counters of the policies that use a posture check. This theory shows that the operations on an
  identity keep the counters equal to what the policies say.
\<close>

section \<open>Counters\<close>

definition pol_count :: "(string \<rightharpoonup> service_policy) \<Rightarrow> (service_policy \<Rightarrow> bool) \<Rightarrow> cset \<Rightarrow> int" where
  "pol_count T f ps = int (length (filter (\<lambda>p. case T p of Some P \<Rightarrow> f P | None \<Rightarrow> False) ps))"

definition access_count :: "(service_access \<Rightarrow> int) \<Rightarrow> identity \<Rightarrow> string \<Rightarrow> int" where
  "access_count f d s = (case map_of (i_ServiceAccess d) s of Some a \<Rightarrow> f a | None \<Rightarrow> 0)"

definition use_count :: "identity \<Rightarrow> string \<Rightarrow> int" where
  "use_count d c = (case map_of (i_PostureChecks d) c of Some v \<Rightarrow> v | None \<Rightarrow> 0)"

definition dials :: "string \<Rightarrow> service_policy \<Rightarrow> bool" where
  "dials s P \<longleftrightarrow> IsDial P \<and> s \<in> set (p_Services P)"

definition binds :: "string \<Rightarrow> service_policy \<Rightarrow> bool" where
  "binds s P \<longleftrightarrow> IsBind P \<and> s \<in> set (p_Services P)"

definition requires :: "string \<Rightarrow> service_policy \<Rightarrow> bool" where
  "requires c P \<longleftrightarrow> p_Services P \<noteq> [] \<and> c \<in> set (p_PostureChecks P)"

text \<open>The access table has one entry per service, which grants something and has no negative counter.\<close>

definition access_valid :: "identity \<Rightarrow> bool" where
  "access_valid d \<longleftrightarrow> (\<forall>s a. map_of (i_ServiceAccess d) s = Some a \<longrightarrow>
     HasAccess a \<and> 0 \<le> DialPoliciesCount a \<and> 0 \<le> BindPoliciesCount a)"

definition access_entries :: "identity \<Rightarrow> bool" where
  "access_entries d \<longleftrightarrow> distinct (map fst (i_ServiceAccess d)) \<and> access_valid d"

definition access_consistent :: "(string \<rightharpoonup> service_policy) \<Rightarrow> identity \<Rightarrow> bool" where
  "access_consistent T d \<longleftrightarrow> access_entries d \<and>
     (\<forall>s. access_count DialPoliciesCount d s = pol_count T (dials s) (i_ServicePolicies d) \<and>
          access_count BindPoliciesCount d s = pol_count T (binds s) (i_ServicePolicies d))"

definition checks_consistent :: "(string \<rightharpoonup> service_policy) \<Rightarrow> identity \<Rightarrow> bool" where
  "checks_consistent T d \<longleftrightarrow> (\<forall>c v. map_of (i_PostureChecks d) c = Some v \<longrightarrow> 0 < v) \<and>
     (\<forall>c. use_count d c = pol_count T (requires c) (i_ServicePolicies d))"

definition consistent :: "(string \<rightharpoonup> service_policy) \<Rightarrow> identity \<Rightarrow> bool" where
  "consistent T d \<longleftrightarrow> distinct (i_ServicePolicies d) \<and> checks_consistent T d \<and>
     (i_tracking d \<longrightarrow> access_consistent T d)"

lemma dial_not_bind: "IsDial P \<Longrightarrow> \<not> IsBind P"
  by (simp add: IsDial_def IsBind_def)

lemma pol_count_nonneg [simp]: "0 \<le> pol_count T f ps"
  by (simp add: pol_count_def)

lemma pol_count_Nil [simp]: "pol_count T f [] = 0"
  by (simp add: pol_count_def)

lemma pol_count_Cons:
  "pol_count T f (p # ps) = of_bool (case T p of Some P \<Rightarrow> f P | None \<Rightarrow> False) + pol_count T f ps"
  by (simp add: pol_count_def)

lemma pol_count_set:
  assumes "p \<notin> set ps"
  shows "pol_count T f (cset_set p ps) = pol_count T f ps + of_bool (case T p of Some P \<Rightarrow> f P | None \<Rightarrow> False)"
  using assms by (simp add: cset_set_def pol_count_def)

lemma pol_count_remove:
  assumes "distinct ps" and "p \<in> set ps"
  shows "pol_count T f (cset_remove p ps) = pol_count T f ps - of_bool (case T p of Some P \<Rightarrow> f P | None \<Rightarrow> False)"
  using assms
proof (induction ps)
  case (Cons q ps)
  then show ?case
    by (cases "q = p") (auto simp: cset_remove_def pol_count_Cons)
qed simp

lemma pol_count_update:
  assumes "distinct ps"
  shows "pol_count (T(p := P)) f ps = pol_count T f ps +
    (if p \<in> set ps then of_bool (case P of Some P \<Rightarrow> f P | None \<Rightarrow> False) - of_bool (case T p of Some P \<Rightarrow> f P | None \<Rightarrow> False) else 0)"
  using assms by (induction ps) (auto simp: pol_count_Cons)

lemma pol_count_pos:
  assumes "p \<in> set ps" and "T p = Some P" and "f P"
  shows "0 < pol_count T f ps"
  using assms by (force simp: pol_count_def filter_empty_conv)

lemma pol_count_zero_iff: "pol_count T f ps = 0 \<longleftrightarrow> (\<forall>p \<in> set ps. \<forall>P. T p = Some P \<longrightarrow> \<not> f P)"
  by (auto simp: pol_count_def filter_empty_conv split: option.splits)

section \<open>The access of services\<close>

definition shift :: "bool \<Rightarrow> bool \<Rightarrow> int" where
  "shift add b = (if b then (if add then 1 else - 1) else 0)"

lemma updateServicePolicies_counts:
  "DialPoliciesCount (updateServicePolicies p index add a) = DialPoliciesCount a + shift add (IsDial p)"
  "BindPoliciesCount (updateServicePolicies p index add a) = BindPoliciesCount a + shift add (IsBind p)"
  using dial_not_bind [of p] by (auto simp: updateServicePolicies_def shift_def Let_def)

lemma no_access_counts [simp]: "DialPoliciesCount no_access = 0" "BindPoliciesCount no_access = 0" "\<not> HasAccess no_access"
  by (simp_all add: no_access_def HasAccess_def IsDialAllowed_def IsBindAllowed_def)

lemma updateServiceCount_fields [simp]:
  "i_ServicePolicies (updateServiceCount p index add s d) = i_ServicePolicies d"
  "i_PostureChecks (updateServiceCount p index add s d) = i_PostureChecks d"
  "i_tracking (updateServiceCount p index add s d) = i_tracking d"
  "i_Data (updateServiceCount p index add s d) = i_Data d"
  by (simp_all add: updateServiceCount_def Let_def)

text \<open>A change of one service moves its counter by one. A removal needs a policy that was counted.\<close>

lemma updateServiceCount_counts:
  assumes e: "access_entries d"
    and r: "\<not> add \<Longrightarrow> (IsDial p \<longrightarrow> 0 < access_count DialPoliciesCount d s) \<and> (IsBind p \<longrightarrow> 0 < access_count BindPoliciesCount d s)"
  shows "access_entries (updateServiceCount p index add s d) \<and>
    (\<forall>t. access_count DialPoliciesCount (updateServiceCount p index add s d) t =
           access_count DialPoliciesCount d t + shift add (t = s \<and> IsDial p) \<and>
         access_count BindPoliciesCount (updateServiceCount p index add s d) t =
           access_count BindPoliciesCount d t + shift add (t = s \<and> IsBind p))"
proof -
  define a where "a = (case map_of (i_ServiceAccess d) s of Some a \<Rightarrow> a | None \<Rightarrow> no_access)"
  define b where "b = updateServicePolicies p index add a"
  have a: "0 \<le> DialPoliciesCount a" "0 \<le> BindPoliciesCount a"
    "access_count DialPoliciesCount d s = DialPoliciesCount a" "access_count BindPoliciesCount d s = BindPoliciesCount a"
    using e by (auto simp: a_def access_entries_def access_valid_def access_count_def simp del: map_of_eq_Some_iff split: option.splits)
  have b: "DialPoliciesCount b = DialPoliciesCount a + shift add (IsDial p)" "BindPoliciesCount b = BindPoliciesCount a + shift add (IsBind p)"
    by (simp_all add: b_def updateServicePolicies_counts)
  have pos: "0 \<le> DialPoliciesCount b" "0 \<le> BindPoliciesCount b" using a b r by (auto simp: shift_def)
  have u: "updateServiceCount p index add s d =
      (if HasAccess b then d\<lparr>i_ServiceAccess := AList.update s b (i_ServiceAccess d)\<rparr>
       else if map_of (i_ServiceAccess d) s \<noteq> None then d\<lparr>i_ServiceAccess := AList.delete s (i_ServiceAccess d)\<rparr> else d)"
    by (simp add: updateServiceCount_def Let_def a_def b_def)
  have none: "DialPoliciesCount b = 0 \<and> BindPoliciesCount b = 0" if "\<not> HasAccess b"
    using that pos by (auto simp: HasAccess_def IsDialAllowed_def IsBindAllowed_def)
  have v: "access_valid d" "distinct (map fst (i_ServiceAccess (updateServiceCount p index add s d)))"
    using e by (simp_all add: u access_entries_def distinct_update distinct_delete)
  show ?thesis
  proof (cases "HasAccess b")
    case True
    then show ?thesis using v(1) v(2) [unfolded u] pos b a
      by (auto simp: u access_entries_def access_valid_def access_count_def update_conv' shift_def simp del: map_of_eq_Some_iff)
  next
    case False
    then show ?thesis using v(1) v(2) [unfolded u] none b a
      by (auto simp: u access_entries_def access_valid_def access_count_def delete_conv' shift_def simp del: map_of_eq_Some_iff split: option.splits if_splits)
  qed
qed

text \<open>The same for all services of a list.\<close>

lemma fold_updateServiceCount:
  assumes "access_entries d" and "distinct ids"
    and "\<not> add \<Longrightarrow> \<forall>s \<in> set ids. (IsDial p \<longrightarrow> 0 < access_count DialPoliciesCount d s) \<and> (IsBind p \<longrightarrow> 0 < access_count BindPoliciesCount d s)"
  shows "\<exists>sa. foldl (\<lambda>d s. updateServiceCount p index add s d) d ids = d\<lparr>i_ServiceAccess := sa\<rparr> \<and> access_entries (d\<lparr>i_ServiceAccess := sa\<rparr>) \<and>
    (\<forall>t. access_count DialPoliciesCount (d\<lparr>i_ServiceAccess := sa\<rparr>) t = access_count DialPoliciesCount d t + shift add (t \<in> set ids \<and> IsDial p) \<and>
         access_count BindPoliciesCount (d\<lparr>i_ServiceAccess := sa\<rparr>) t = access_count BindPoliciesCount d t + shift add (t \<in> set ids \<and> IsBind p))"
  using assms
proof (induction ids arbitrary: d)
  case Nil
  show ?case by (rule exI [of _ "i_ServiceAccess d"]) (use Nil in \<open>simp add: shift_def\<close>)
next
  case (Cons s ids)
  let ?d = "updateServiceCount p index add s d"
  have u: "access_entries ?d"
    "\<And>t. access_count DialPoliciesCount ?d t = access_count DialPoliciesCount d t + shift add (t = s \<and> IsDial p)"
    "\<And>t. access_count BindPoliciesCount ?d t = access_count BindPoliciesCount d t + shift add (t = s \<and> IsBind p)"
    using updateServiceCount_counts [of d add p s index] Cons.prems by auto
  have eq: "?d = d\<lparr>i_ServiceAccess := i_ServiceAccess ?d\<rparr>" by (simp add: updateServiceCount_def Let_def)
  have ns: "s \<notin> set ids" using Cons.prems(2) by simp
  have "\<forall>s' \<in> set ids. (IsDial p \<longrightarrow> 0 < access_count DialPoliciesCount ?d s') \<and> (IsBind p \<longrightarrow> 0 < access_count BindPoliciesCount ?d s')"
    if "\<not> add" using Cons.prems(3) [OF that] u(2,3) ns by (auto simp: shift_def)
  with Cons.IH [OF u(1)] Cons.prems(2) obtain sa where
    sa: "foldl (\<lambda>d s. updateServiceCount p index add s d) ?d ids = ?d\<lparr>i_ServiceAccess := sa\<rparr>" "access_entries (?d\<lparr>i_ServiceAccess := sa\<rparr>)"
    "\<And>t. access_count DialPoliciesCount (?d\<lparr>i_ServiceAccess := sa\<rparr>) t = access_count DialPoliciesCount ?d t + shift add (t \<in> set ids \<and> IsDial p)"
    "\<And>t. access_count BindPoliciesCount (?d\<lparr>i_ServiceAccess := sa\<rparr>) t = access_count BindPoliciesCount ?d t + shift add (t \<in> set ids \<and> IsBind p)"
    by auto
  have eq': "?d\<lparr>i_ServiceAccess := sa\<rparr> = d\<lparr>i_ServiceAccess := sa\<rparr>" by (subst eq) simp
  show ?case using sa ns unfolding eq' u by (intro exI [of _ sa]) (auto simp: shift_def)
qed

section \<open>The use of posture checks\<close>

definition checks_positive :: "int cmap \<Rightarrow> bool" where
  "checks_positive m \<longleftrightarrow> (\<forall>c v. map_of m c = Some v \<longrightarrow> 0 < v)"

definition count_of :: "int cmap \<Rightarrow> string \<Rightarrow> int" where
  "count_of m c = (case map_of m c of Some v \<Rightarrow> v | None \<Rightarrow> 0)"

lemma use_count_of: "use_count d c = count_of (i_PostureChecks d) c"
  by (simp add: use_count_def count_of_def)

lemma count_of_nonneg: "checks_positive m \<Longrightarrow> 0 \<le> count_of m c"
  by (force simp: checks_positive_def count_of_def split: option.split intro: less_imp_le)

lemma incrementUseCount_count:
  assumes "checks_positive m"
  shows "checks_positive (incrementUseCount k m) \<and> count_of (incrementUseCount k m) c = count_of m c + of_bool (c = k)"
  using assms count_of_nonneg [OF assms, of k]
  by (auto simp: incrementUseCount_def checks_positive_def count_of_def update_conv' split: option.splits)

lemma decrementUseCount_count:
  assumes "checks_positive m" and "0 < count_of m k"
  shows "checks_positive (decrementUseCount k m) \<and> count_of (decrementUseCount k m) c = count_of m c - of_bool (c = k)"
  using assms
  by (auto simp: decrementUseCount_def checks_positive_def count_of_def update_conv' delete_conv' split: option.splits)
    force+

lemma fold_use_count:
  assumes "checks_positive m" and "distinct ids" and "\<not> add \<Longrightarrow> \<forall>k \<in> set ids. 0 < count_of m k"
  shows "checks_positive (foldl (\<lambda>m k. if add then incrementUseCount k m else decrementUseCount k m) m ids) \<and>
    (\<forall>c. count_of (foldl (\<lambda>m k. if add then incrementUseCount k m else decrementUseCount k m) m ids) c = count_of m c + shift add (c \<in> set ids))"
  using assms
proof (induction ids arbitrary: m)
  case Nil
  then show ?case by (simp add: shift_def)
next
  case (Cons k ids)
  let ?m = "if add then incrementUseCount k m else decrementUseCount k m"
  have u: "checks_positive ?m" "\<And>c. count_of ?m c = count_of m c + shift add (c = k)"
    using incrementUseCount_count [OF Cons.prems(1), of k] decrementUseCount_count [OF Cons.prems(1), of k] Cons.prems(3)
    by (auto simp: shift_def)
  have "\<forall>j \<in> set ids. 0 < count_of ?m j" if "\<not> add" using Cons.prems(2) Cons.prems(3) [OF that] unfolding u by (auto simp: shift_def)
  from Cons.IH [OF u(1) _ this] Cons.prems(2)
  show ?case unfolding foldl_Cons u by (auto simp: shift_def)
qed


section \<open>Operations on identities\<close>

lemma consistent_checks_positive: "consistent T d \<Longrightarrow> checks_positive (i_PostureChecks d)"
  by (simp add: consistent_def checks_consistent_def checks_positive_def)

lemma consistentI:
  assumes "distinct (i_ServicePolicies d)" and "checks_positive (i_PostureChecks d)"
    and "\<And>c. count_of (i_PostureChecks d) c = pol_count T (requires c) (i_ServicePolicies d)"
    and "i_tracking d \<Longrightarrow> access_entries d"
    and "\<And>s. i_tracking d \<Longrightarrow> access_count DialPoliciesCount d s = pol_count T (dials s) (i_ServicePolicies d)"
    and "\<And>s. i_tracking d \<Longrightarrow> access_count BindPoliciesCount d s = pol_count T (binds s) (i_ServicePolicies d)"
  shows "consistent T d"
  using assms by (simp add: consistent_def checks_consistent_def checks_positive_def access_consistent_def use_count_of)

lemma consistentD:
  assumes "consistent T d"
  shows "distinct (i_ServicePolicies d)" "count_of (i_PostureChecks d) c = pol_count T (requires c) (i_ServicePolicies d)"
    "i_tracking d \<Longrightarrow> access_entries d"
    "i_tracking d \<Longrightarrow> access_count DialPoliciesCount d s = pol_count T (dials s) (i_ServicePolicies d)"
    "i_tracking d \<Longrightarrow> access_count BindPoliciesCount d s = pol_count T (binds s) (i_ServicePolicies d)"
  using assms by (simp_all add: consistent_def checks_consistent_def access_consistent_def use_count_of)

text \<open>Policies that give the same access and require the same checks.\<close>

definition same_grants :: "service_policy \<Rightarrow> service_policy \<Rightarrow> bool" where
  "same_grants p P \<longleftrightarrow> pol_PolicyType (p_Data p) = pol_PolicyType (p_Data P) \<and>
     p_Services p = p_Services P \<and> p_PostureChecks p = p_PostureChecks P"

lemma same_grants_refl [simp]: "same_grants p p"
  by (simp add: same_grants_def)

lemma same_grantsD:
  assumes "same_grants p P"
  shows "dials s p = dials s P" "binds s p = binds s P" "requires c p = requires c P" "IsDial p = IsDial P" "IsBind p = IsBind P"
    "p_Services p = p_Services P" "p_PostureChecks p = p_PostureChecks P"
  using assms by (auto simp: same_grants_def dials_def binds_def requires_def IsDial_def IsBind_def)

lemma access_count_other [simp]:
  "access_count f (d\<lparr>i_ServicePolicies := ps\<rparr>) s = access_count f d s"
  "access_count f (d\<lparr>i_PostureChecks := cs\<rparr>) s = access_count f d s"
  "access_entries (d\<lparr>i_ServicePolicies := ps\<rparr>) = access_entries d"
  "access_entries (d\<lparr>i_PostureChecks := cs\<rparr>) = access_entries d"
  by (simp_all add: access_count_def access_entries_def access_valid_def)

text \<open>
  Adding an identity to a policy and removing it have the same shape: the services of the policy are
  counted one by one, and its posture checks if it has services.
\<close>

definition change_policy :: "bool \<Rightarrow> service_policy \<Rightarrow> u64 \<Rightarrow> cset \<Rightarrow> identity \<Rightarrow> identity" where
  "change_policy add p index ps d =
     (let d1 = d\<lparr>i_ServicePolicies := ps\<rparr>;
          d2 = (if i_tracking d1 then foldl (\<lambda>d s. updateServiceCount p index add s d) d1 (p_Services p) else d1)
      in if p_Services p \<noteq> []
         then d2\<lparr>i_PostureChecks := foldl (\<lambda>m k. if add then incrementUseCount k m else decrementUseCount k m)
                   (i_PostureChecks d2) (p_PostureChecks p)\<rparr>
         else d2)"

lemma addedToPolicy_change:
  "addedToPolicy p index d = (if pol_Id (p_Data p) \<in> set (i_ServicePolicies d) then d
     else change_policy True p index (cset_set (pol_Id (p_Data p)) (i_ServicePolicies d)) d)"
  by (simp add: addedToPolicy_def change_policy_def Let_def)

lemma removedFromPolicy_change:
  "removedFromPolicy p index d = (if pol_Id (p_Data p) \<notin> set (i_ServicePolicies d) then d
     else change_policy False p index (cset_remove (pol_Id (p_Data p)) (i_ServicePolicies d)) d)"
  by (simp add: removedFromPolicy_def change_policy_def Let_def)

lemma change_policy_same_grants:
  assumes "same_grants p P"
  shows "change_policy add p index ps d = change_policy add P index ps d"
proof -
  have "updateServicePolicies p = updateServicePolicies P"
    unfolding fun_eq_iff updateServicePolicies_def same_grantsD(4,5) [OF assms] by (intro allI refl)
  then have "updateServiceCount p index add = updateServiceCount P index add"
    unfolding fun_eq_iff updateServiceCount_def by (intro allI) simp
  then show ?thesis unfolding change_policy_def same_grantsD(6,7) [OF assms] by (rule ssubst) (rule refl)
qed

lemma change_policy_consistent:
  assumes c: "consistent T d" and d: "distinct (p_Services p)" "distinct (p_PostureChecks p)" "distinct ps"
    and n: "\<And>f. pol_count T f ps = pol_count T f (i_ServicePolicies d) + shift add (f p)"
    and r: "\<not> add \<Longrightarrow> (\<forall>s \<in> set (p_Services p). i_tracking d \<longrightarrow>
        (IsDial p \<longrightarrow> 0 < access_count DialPoliciesCount d s) \<and> (IsBind p \<longrightarrow> 0 < access_count BindPoliciesCount d s)) \<and>
      (p_Services p \<noteq> [] \<longrightarrow> (\<forall>k \<in> set (p_PostureChecks p). 0 < count_of (i_PostureChecks d) k))"
  shows "consistent T (change_policy add p index ps d)"
    "i_ServicePolicies (change_policy add p index ps d) = ps" "i_tracking (change_policy add p index ps d) = i_tracking d"
    "i_Data (change_policy add p index ps d) = i_Data d"
proof -
  define d1 where "d1 = d\<lparr>i_ServicePolicies := ps\<rparr>"
  define d2 where "d2 = (if i_tracking d1 then foldl (\<lambda>d s. updateServiceCount p index add s d) d1 (p_Services p) else d1)"
  have "\<exists>sa. d2 = d1\<lparr>i_ServiceAccess := sa\<rparr> \<and> (i_tracking d \<longrightarrow> access_entries d2 \<and>
      (\<forall>t. access_count DialPoliciesCount d2 t = access_count DialPoliciesCount d t + shift add (dials t p) \<and>
           access_count BindPoliciesCount d2 t = access_count BindPoliciesCount d t + shift add (binds t p)))"
  proof (cases "i_tracking d")
    case True
    then show ?thesis
      using fold_updateServiceCount [of d1 "p_Services p" add p index] consistentD(3) [OF c] d(1) r
      by (auto simp: d2_def d1_def dials_def binds_def conj_commute)
  next
    case False
    then show ?thesis by (auto simp: d2_def d1_def intro: exI [of _ "i_ServiceAccess d"])
  qed
  then obtain sa where sa: "d2 = d1\<lparr>i_ServiceAccess := sa\<rparr>" and acc: "i_tracking d \<Longrightarrow> access_entries d2"
    "\<And>t. i_tracking d \<Longrightarrow> access_count DialPoliciesCount d2 t = access_count DialPoliciesCount d t + shift add (dials t p)"
    "\<And>t. i_tracking d \<Longrightarrow> access_count BindPoliciesCount d2 t = access_count BindPoliciesCount d t + shift add (binds t p)"
    by blast
  define cs where "cs = (if p_Services p \<noteq> [] then foldl (\<lambda>m k. if add then incrementUseCount k m else decrementUseCount k m)
    (i_PostureChecks d) (p_PostureChecks p) else i_PostureChecks d)"
  have cs: "checks_positive cs" "count_of cs k = count_of (i_PostureChecks d) k + shift add (requires k p)" for k
    using fold_use_count [OF consistent_checks_positive [OF c] d(2), of add] r consistent_checks_positive [OF c]
    by (auto simp: cs_def requires_def shift_def)
  have eq: "change_policy add p index ps d = d2\<lparr>i_PostureChecks := cs\<rparr>"
    unfolding change_policy_def Let_def d1_def [symmetric] d2_def [symmetric] cs_def by (simp add: sa d1_def)
  show "consistent T (change_policy add p index ps d)" unfolding eq
    by (rule consistentI) (use d(3) cs n consistentD [OF c] acc in \<open>auto simp: sa d1_def\<close>)
  show "i_ServicePolicies (change_policy add p index ps d) = ps" "i_tracking (change_policy add p index ps d) = i_tracking d"
    "i_Data (change_policy add p index ps d) = i_Data d"
    by (simp_all add: eq sa d1_def)
qed


lemma addedToPolicy_consistent:
  assumes c: "consistent T d" and T: "T (pol_Id (p_Data p)) = Some P" "same_grants p P"
    and d: "distinct (p_Services p)" "distinct (p_PostureChecks p)"
  shows "consistent T (addedToPolicy p index d)"
    "set (i_ServicePolicies (addedToPolicy p index d)) = insert (pol_Id (p_Data p)) (set (i_ServicePolicies d))"
    "i_tracking (addedToPolicy p index d) = i_tracking d" "i_Data (addedToPolicy p index d) = i_Data d"
proof -
  let ?i = "pol_Id (p_Data p)" and ?ps = "cset_set (pol_Id (p_Data p)) (i_ServicePolicies d)"
  have "pol_count T f ?ps = pol_count T f (i_ServicePolicies d) + shift True (f P)" if "?i \<notin> set (i_ServicePolicies d)" for f
    using pol_count_set [OF that, of T f] T(1) by (simp add: shift_def)
  then have n: "pol_count T f ?ps = pol_count T f (i_ServicePolicies d) + shift True (f P)" if "?i \<notin> set (i_ServicePolicies d)" for f
    using that by blast
  have "change_policy True p index ?ps d = change_policy True P index ?ps d"
    using T(2) by (rule change_policy_same_grants)
  moreover have "distinct (p_Services P)" "distinct (p_PostureChecks P)" "distinct ?ps"
    using d same_grantsD [OF T(2)] consistentD(1) [OF c] by simp_all
  ultimately have "\<not> ?i \<in> set (i_ServicePolicies d) \<Longrightarrow> consistent T (change_policy True p index ?ps d) \<and>
      i_ServicePolicies (change_policy True p index ?ps d) = ?ps \<and> i_tracking (change_policy True p index ?ps d) = i_tracking d \<and>
      i_Data (change_policy True p index ?ps d) = i_Data d"
    using change_policy_consistent [OF c _ _ _ n, where index = index] by simp
  then show "consistent T (addedToPolicy p index d)"
    "set (i_ServicePolicies (addedToPolicy p index d)) = insert ?i (set (i_ServicePolicies d))"
    "i_tracking (addedToPolicy p index d) = i_tracking d" "i_Data (addedToPolicy p index d) = i_Data d"
    using c by (auto simp: addedToPolicy_change)
qed

lemma counted_policy:
  assumes c: "consistent T d" and T: "T i = Some P" "i \<in> set (i_ServicePolicies d)"
  shows "(\<forall>s \<in> set (p_Services P). i_tracking d \<longrightarrow>
        (IsDial P \<longrightarrow> 0 < access_count DialPoliciesCount d s) \<and> (IsBind P \<longrightarrow> 0 < access_count BindPoliciesCount d s)) \<and>
      (p_Services P \<noteq> [] \<longrightarrow> (\<forall>k \<in> set (p_PostureChecks P). 0 < count_of (i_PostureChecks d) k))"
  using pol_count_pos [where T = T, OF T(2) T(1)] consistentD [OF c] by (simp add: dials_def binds_def requires_def)

lemma removedFromPolicy_consistent:
  assumes c: "consistent T d" and T: "T (pol_Id (p_Data p)) = Some P" "same_grants p P"
    and d: "distinct (p_Services p)" "distinct (p_PostureChecks p)"
  shows "consistent T (removedFromPolicy p index d)"
    "set (i_ServicePolicies (removedFromPolicy p index d)) = set (i_ServicePolicies d) - {pol_Id (p_Data p)}"
    "i_tracking (removedFromPolicy p index d) = i_tracking d" "i_Data (removedFromPolicy p index d) = i_Data d"
proof -
  let ?i = "pol_Id (p_Data p)" and ?ps = "cset_remove (pol_Id (p_Data p)) (i_ServicePolicies d)"
  have n: "pol_count T f ?ps = pol_count T f (i_ServicePolicies d) + shift False (f P)" if "?i \<in> set (i_ServicePolicies d)" for f
    using pol_count_remove [OF consistentD(1) [OF c] that, of T f] T(1) by (simp add: shift_def)
  have "change_policy False p index ?ps d = change_policy False P index ?ps d"
    using T(2) by (rule change_policy_same_grants)
  moreover have "distinct (p_Services P)" "distinct (p_PostureChecks P)" "distinct ?ps"
    using d same_grantsD [OF T(2)] consistentD(1) [OF c] by simp_all
  ultimately have "?i \<in> set (i_ServicePolicies d) \<Longrightarrow> consistent T (change_policy False p index ?ps d) \<and>
      i_ServicePolicies (change_policy False p index ?ps d) = ?ps \<and> i_tracking (change_policy False p index ?ps d) = i_tracking d \<and>
      i_Data (change_policy False p index ?ps d) = i_Data d"
    using change_policy_consistent [OF c _ _ _ n, where index = index] counted_policy [OF c T(1)] by simp
  then show "consistent T (removedFromPolicy p index d)"
    "set (i_ServicePolicies (removedFromPolicy p index d)) = set (i_ServicePolicies d) - {?i}"
    "i_tracking (removedFromPolicy p index d) = i_tracking d" "i_Data (removedFromPolicy p index d) = i_Data d"
    using c by (auto simp: removedFromPolicy_change)
qed

text \<open>A policy that an identity is not in does not matter for it.\<close>

lemma consistent_other:
  assumes "consistent T d" and "i \<notin> set (i_ServicePolicies d)"
  shows "consistent (T(i := P)) d"
  by (rule consistentI)
    (use assms consistentD [OF assms(1)] consistent_checks_positive [OF assms(1)] in \<open>simp_all add: pol_count_update\<close>)

lemma consistent_same_grants:
  assumes "consistent T d" and "T i = Some P" and "same_grants P' P"
  shows "consistent (T(i \<mapsto> P')) d"
  by (rule consistentI)
    (use assms consistentD [OF assms(1)] consistent_checks_positive [OF assms(1)] same_grantsD [OF assms(3)] in \<open>simp_all add: pol_count_update\<close>)


section \<open>Changes of a policy\<close>

lemma updatePostureChecksIndex_counts [simp]:
  "DialPoliciesCount (updatePostureChecksIndex p index a) = DialPoliciesCount a"
  "BindPoliciesCount (updatePostureChecksIndex p index a) = BindPoliciesCount a"
  "HasAccess (updatePostureChecksIndex p index a) = HasAccess a"
  by (simp_all add: updatePostureChecksIndex_def HasAccess_def IsDialAllowed_def IsBindAllowed_def)

text \<open>Entries that differ in their indexes only.\<close>

definition same_counts :: "identity \<Rightarrow> identity \<Rightarrow> bool" where
  "same_counts d d' \<longleftrightarrow> d' = d\<lparr>i_ServiceAccess := i_ServiceAccess d'\<rparr> \<and> access_entries d' = access_entries d \<and>
     (\<forall>s. access_count DialPoliciesCount d' s = access_count DialPoliciesCount d s \<and>
          access_count BindPoliciesCount d' s = access_count BindPoliciesCount d s \<and>
          (map_of (i_ServiceAccess d') s = None \<longleftrightarrow> map_of (i_ServiceAccess d) s = None))"

lemma same_counts_refl: "same_counts d d"
  by (simp add: same_counts_def)

lemma same_counts_trans: "same_counts d d1 \<Longrightarrow> same_counts d1 d2 \<Longrightarrow> same_counts d d2"
  unfolding same_counts_def by (metis identity.select_convs(3) identity.surjective identity.update_convs(3))

lemma touch_access_same:
  assumes "IsDial p \<or> IsBind p \<Longrightarrow> map_of (i_ServiceAccess d) s \<noteq> None"
  shows "\<exists>d'. touch_access p index s d = Some d' \<and> same_counts d d'"
proof (cases "map_of (i_ServiceAccess d) s")
  case None
  then show ?thesis using assms same_counts_refl by (auto simp: touch_access_def)
next
  case (Some a)
  then have "map fst (AList.update s b (i_ServiceAccess d)) = map fst (i_ServiceAccess d)" for b
    by (force simp: update_keys dest: map_of_SomeD)
  with Some show ?thesis
    by (auto simp: touch_access_def same_counts_def access_entries_def access_valid_def access_count_def update_conv' simp del: map_of_eq_Some_iff)
qed

lemma ofold_touch_access:
  assumes "IsDial p \<or> IsBind p \<Longrightarrow> \<forall>s \<in> set ss. map_of (i_ServiceAccess d) s \<noteq> None"
  shows "\<exists>d'. ofold (touch_access p index) ss d = Some d' \<and> same_counts d d'"
proof (rule ofold_invariant)
  show "same_counts d d" by (rule same_counts_refl)
  fix s d1
  assume s: "s \<in> set ss" and d1: "same_counts d d1"
  have "map_of (i_ServiceAccess d1) s \<noteq> None" if "IsDial p \<or> IsBind p"
    using assms [OF that] s d1 by (auto simp: same_counts_def)
  then obtain d2 where "touch_access p index s d1 = Some d2" "same_counts d1 d2" using touch_access_same by blast
  then show "\<exists>d2. touch_access p index s d1 = Some d2 \<and> same_counts d d2" using d1 same_counts_trans by blast
qed

lemma same_counts_consistent:
  assumes "same_counts d d'" and "consistent T d"
  shows "consistent T d'"
proof -
  have f: "i_ServicePolicies d' = i_ServicePolicies d" "i_PostureChecks d' = i_PostureChecks d" "i_tracking d' = i_tracking d"
    using assms(1) unfolding same_counts_def by (metis identity.select_convs identity.surjective identity.update_convs(3))+
  show ?thesis
    by (rule consistentI) (use assms(1) consistentD [OF assms(2)] consistent_checks_positive [OF assms(2)] f in \<open>simp_all add: same_counts_def\<close>)
qed

text \<open>Access to a service that is counted is present.\<close>

lemma access_present:
  assumes "consistent T d" and "i_tracking d" and "T i = Some P" and "i \<in> set (i_ServicePolicies d)"
    and "s \<in> set (p_Services P)" and "IsDial P \<or> IsBind P"
  shows "map_of (i_ServiceAccess d) s \<noteq> None"
  using counted_policy [OF assms(1,3,4)] assms(2,5,6) by (auto simp: access_count_def split: option.splits)


lemma policy_change_consistent:
  assumes c: "consistent T d" and T: "T i = Some p" "i \<in> set (i_ServicePolicies d)"
    and f: "i_ServicePolicies d' = i_ServicePolicies d" "i_tracking d' = i_tracking d"
    and a: "i_tracking d \<Longrightarrow> access_entries d' \<and>
      (\<forall>s. access_count DialPoliciesCount d' s = access_count DialPoliciesCount d s + (of_bool (dials s p1) - of_bool (dials s p)) \<and>
           access_count BindPoliciesCount d' s = access_count BindPoliciesCount d s + (of_bool (binds s p1) - of_bool (binds s p)))"
    and k: "checks_positive (i_PostureChecks d')"
      "\<And>x. count_of (i_PostureChecks d') x = count_of (i_PostureChecks d) x + (of_bool (requires x p1) - of_bool (requires x p))"
  shows "consistent (T(i \<mapsto> p1)) d'"
  by (rule consistentI) (use a k consistentD [OF c] T f in \<open>simp_all add: pol_count_update\<close>)

lemma servicesChangedInPolicy_counts:
  assumes c: "consistent T d" and T: "T (pol_Id (p_Data p)) = Some p" "pol_Id (p_Data p) \<in> set (i_ServicePolicies d)"
    and ids: "distinct ids" "if add then set ids \<inter> set (p_Services p) = {} else set ids \<subseteq> set (p_Services p)"
    and p1: "p1 = p\<lparr>p_Services := ss\<rparr>" "set ss = (if add then set (p_Services p) \<union> set ids else set (p_Services p) - set ids)"
  shows "\<exists>sa. servicesChangedInPolicy add p ids index d = d\<lparr>i_ServiceAccess := sa\<rparr> \<and> (i_tracking d \<longrightarrow> access_entries (d\<lparr>i_ServiceAccess := sa\<rparr>) \<and>
    (\<forall>s. access_count DialPoliciesCount (d\<lparr>i_ServiceAccess := sa\<rparr>) s = access_count DialPoliciesCount d s + (of_bool (dials s p1) - of_bool (dials s p)) \<and>
         access_count BindPoliciesCount (d\<lparr>i_ServiceAccess := sa\<rparr>) s = access_count BindPoliciesCount d s + (of_bool (binds s p1) - of_bool (binds s p))))"
proof (cases "i_tracking d")
  case True
  have "\<forall>s \<in> set ids. (IsDial p \<longrightarrow> 0 < access_count DialPoliciesCount d s) \<and> (IsBind p \<longrightarrow> 0 < access_count BindPoliciesCount d s)"
    if "\<not> add" using counted_policy [OF c T] True ids(2) that by auto
  from fold_updateServiceCount [where index = index, OF consistentD(3) [OF c True] ids(1) this]
  obtain sa where sa: "foldl (\<lambda>d s. updateServiceCount p index add s d) d ids = d\<lparr>i_ServiceAccess := sa\<rparr>" "access_entries (d\<lparr>i_ServiceAccess := sa\<rparr>)"
    "\<And>t. access_count DialPoliciesCount (d\<lparr>i_ServiceAccess := sa\<rparr>) t = access_count DialPoliciesCount d t + shift add (t \<in> set ids \<and> IsDial p)"
    "\<And>t. access_count BindPoliciesCount (d\<lparr>i_ServiceAccess := sa\<rparr>) t = access_count BindPoliciesCount d t + shift add (t \<in> set ids \<and> IsBind p)"
    by blast
  have t: "IsDial p1 = IsDial p" "IsBind p1 = IsBind p" "p_Services p1 = ss" by (simp_all add: p1(1) IsDial_def IsBind_def)
  have s: "shift add (t \<in> set ids \<and> IsDial p) = of_bool (dials t p1) - of_bool (dials t p)"
    "shift add (t \<in> set ids \<and> IsBind p) = of_bool (binds t p1) - of_bool (binds t p)" for t
    using ids(2) p1(2) t by (auto simp: shift_def dials_def binds_def split: if_splits)
  show ?thesis using sa True T(2) unfolding s by (auto simp: servicesChangedInPolicy_def)
next
  case False
  then show ?thesis by (auto simp: servicesChangedInPolicy_def intro: exI [of _ "i_ServiceAccess d"])
qed

text \<open>Whether the posture checks of a policy count changes when it gets its first or loses its last service.\<close>

definition checks_flip :: "bool \<Rightarrow> service_policy \<Rightarrow> service_policy \<Rightarrow> bool" where
  "checks_flip add p p1 \<longleftrightarrow> (if add then p_Services p = [] \<and> p_Services p1 \<noteq> [] else p_Services p \<noteq> [] \<and> p_Services p1 = [])"

lemma change_services_consistent:
  assumes c: "consistent T d" and T: "T (pol_Id (p_Data p)) = Some p" "pol_Id (p_Data p) \<in> set (i_ServicePolicies d)"
    and ids: "distinct ids" "if add then set ids \<inter> set (p_Services p) = {} else set ids \<subseteq> set (p_Services p)"
    and p1: "p1 = p\<lparr>p_Services := ss\<rparr>" "set ss = (if add then set (p_Services p) \<union> set ids else set (p_Services p) - set ids)"
    and dist: "distinct (p_PostureChecks p)"
  shows "\<exists>d'. (if checks_flip add p p1
      then postureChecksChangedInPolicy add p1 (p_PostureChecks p1) index (servicesChangedInPolicy add p ids index d)
      else Some (servicesChangedInPolicy add p ids index d)) = Some d' \<and>
    consistent (T(pol_Id (p_Data p) \<mapsto> p1)) d' \<and> i_ServicePolicies d' = i_ServicePolicies d \<and> i_Data d' = i_Data d"
proof -
  let ?i = "pol_Id (p_Data p)"
  obtain sa where sa: "servicesChangedInPolicy add p ids index d = d\<lparr>i_ServiceAccess := sa\<rparr>"
    and acc: "i_tracking d \<Longrightarrow> access_entries (d\<lparr>i_ServiceAccess := sa\<rparr>) \<and>
    (\<forall>s. access_count DialPoliciesCount (d\<lparr>i_ServiceAccess := sa\<rparr>) s = access_count DialPoliciesCount d s + (of_bool (dials s p1) - of_bool (dials s p)) \<and>
         access_count BindPoliciesCount (d\<lparr>i_ServiceAccess := sa\<rparr>) s = access_count BindPoliciesCount d s + (of_bool (binds s p1) - of_bool (binds s p)))"
    using servicesChangedInPolicy_counts [OF c T ids p1, of index] by blast
  define cs where "cs = (if checks_flip add p p1
    then foldl (\<lambda>m k. if add then incrementUseCount k m else decrementUseCount k m) (i_PostureChecks d) (p_PostureChecks p) else i_PostureChecks d)"
  have ss: "ss = [] \<longleftrightarrow> set ss = {}" "p_Services p = [] \<longleftrightarrow> set (p_Services p) = {}" by simp_all
  have S: "shift add (checks_flip add p p1 \<and> k \<in> set (p_PostureChecks p)) = of_bool (requires k p1) - of_bool (requires k p)" for k
    using ids(2) p1 ss by (auto simp: shift_def requires_def checks_flip_def split: if_splits)
  have "\<forall>k \<in> set (p_PostureChecks p). 0 < count_of (i_PostureChecks d) k" if "checks_flip add p p1" "\<not> add"
    using counted_policy [OF c T] that by (auto simp: checks_flip_def)
  note F = fold_use_count [OF consistent_checks_positive [OF c] dist, of add, OF this]
  have "checks_positive cs \<and> (\<forall>k. count_of cs k = count_of (i_PostureChecks d) k + shift add (checks_flip add p p1 \<and> k \<in> set (p_PostureChecks p)))"
  proof (cases "checks_flip add p p1")
    case True
    then show ?thesis unfolding cs_def using F [OF True] by simp
  next
    case False
    then show ?thesis unfolding cs_def using consistent_checks_positive [OF c] by (simp add: shift_def)
  qed
  then have cs: "checks_positive cs" "count_of cs k = count_of (i_PostureChecks d) k + (of_bool (requires k p1) - of_bool (requires k p))" for k
    unfolding S by blast+
  let ?d = "d\<lparr>i_ServiceAccess := sa, i_PostureChecks := cs\<rparr>"
  have con: "consistent (T(?i \<mapsto> p1)) ?d"
    by (rule policy_change_consistent [OF c T]) (use acc cs in \<open>simp_all add: access_count_def access_entries_def access_valid_def\<close>)
  show ?thesis
  proof (cases "checks_flip add p p1")
    case False
    then show ?thesis using con by (simp add: sa cs_def)
  next
    case True
    have pp: "pol_Id (p_Data p1) = ?i" "p_PostureChecks p1 = p_PostureChecks p" by (simp_all add: p1(1))
    have "\<exists>d'. (if i_tracking ?d then ofold (touch_access p1 index) (p_Services p1) ?d else Some ?d) = Some d' \<and> same_counts ?d d'"
      using ofold_touch_access [of p1 "p_Services p1" ?d index] access_present [OF con _ _ _ , of ?i p1] T(2) same_counts_refl [of ?d]
      by auto
    then obtain d' where d': "(if i_tracking ?d then ofold (touch_access p1 index) (p_Services p1) ?d else Some ?d) = Some d'" "same_counts ?d d'"
      by blast
    have "postureChecksChangedInPolicy add p1 (p_PostureChecks p1) index (d\<lparr>i_ServiceAccess := sa\<rparr>) = Some d'"
      using d'(1) T(2) True pp unfolding cs_def by (simp add: postureChecksChangedInPolicy_def Let_def split: if_splits)
    moreover have "i_ServicePolicies d' = i_ServicePolicies d" "i_Data d' = i_Data d"
      using d'(2) unfolding same_counts_def by (metis identity.select_convs(1,2) identity.surjective identity.update_convs(3,4))+
    ultimately show ?thesis using same_counts_consistent [OF d'(2) con] True by (simp add: sa)
  qed
qed


lemma change_posture_checks_consistent:
  assumes c: "consistent T d" and T: "T (pol_Id (p_Data p)) = Some p" "pol_Id (p_Data p) \<in> set (i_ServicePolicies d)"
    and ids: "distinct ids" "if add then set ids \<inter> set (p_PostureChecks p) = {} else set ids \<subseteq> set (p_PostureChecks p)"
    and p1: "p1 = p\<lparr>p_PostureChecks := ks\<rparr>" "set ks = (if add then set (p_PostureChecks p) \<union> set ids else set (p_PostureChecks p) - set ids)"
  shows "\<exists>d'. (if p_Services p \<noteq> [] then postureChecksChangedInPolicy add p ids index d else Some d) = Some d' \<and>
    consistent (T(pol_Id (p_Data p) \<mapsto> p1)) d' \<and> i_ServicePolicies d' = i_ServicePolicies d \<and> i_Data d' = i_Data d"
proof -
  let ?i = "pol_Id (p_Data p)"
  have g: "dials s p1 = dials s p" "binds s p1 = binds s p" for s by (simp_all add: p1(1) dials_def binds_def IsDial_def IsBind_def)
  have S: "shift add (p_Services p \<noteq> [] \<and> k \<in> set ids) = of_bool (requires k p1) - of_bool (requires k p)" for k
    using ids(2) p1 by (auto simp: shift_def requires_def split: if_splits)
  show ?thesis
  proof (cases "p_Services p = []")
    case True
    then have "consistent (T(?i \<mapsto> p1)) d"
      by (intro policy_change_consistent [OF c T]) (use g S consistentD [OF c] consistent_checks_positive [OF c] in \<open>simp_all add: shift_def\<close>)
    then show ?thesis using True by simp
  next
    case False
    define cs where "cs = foldl (\<lambda>m k. if add then incrementUseCount k m else decrementUseCount k m) (i_PostureChecks d) ids"
    have "\<forall>k \<in> set ids. 0 < count_of (i_PostureChecks d) k" if "\<not> add"
      using counted_policy [OF c T] that False ids(2) by auto
    from fold_use_count [OF consistent_checks_positive [OF c] ids(1), of add, OF this]
    have cs: "checks_positive cs" "\<And>k. count_of cs k = count_of (i_PostureChecks d) k + (of_bool (requires k p1) - of_bool (requires k p))"
      unfolding S [symmetric] cs_def using False by simp_all
    let ?d = "d\<lparr>i_PostureChecks := cs\<rparr>"
    have con: "consistent (T(?i \<mapsto> p1)) ?d"
      by (rule policy_change_consistent [OF c T]) (use g cs consistentD [OF c] in simp_all)
    have "\<exists>d'. (if i_tracking ?d then ofold (touch_access p index) (p_Services p) ?d else Some ?d) = Some d' \<and> same_counts ?d d'"
      using ofold_touch_access [of p "p_Services p" ?d index] access_present [OF c _ T] same_counts_refl [of ?d]
      by auto
    then obtain d' where d': "(if i_tracking ?d then ofold (touch_access p index) (p_Services p) ?d else Some ?d) = Some d'" "same_counts ?d d'"
      by blast
    have "postureChecksChangedInPolicy add p ids index d = Some d'"
      using d'(1) T(2) unfolding cs_def by (simp add: postureChecksChangedInPolicy_def Let_def split: if_splits)
    moreover have "i_ServicePolicies d' = i_ServicePolicies d" "i_Data d' = i_Data d"
      using d'(2) unfolding same_counts_def by (metis identity.select_convs(1,2) identity.surjective identity.update_convs(3,4))+
    ultimately show ?thesis using same_counts_consistent [OF d'(2) con] False by simp
  qed
qed

section \<open>Recomputed access\<close>

text \<open>The access that is computed from the policies when tracking begins is consistent.\<close>

definition list_count :: "(service_access \<Rightarrow> int) \<Rightarrow> service_access cmap \<Rightarrow> string \<Rightarrow> int" where
  "list_count f m s = (case map_of m s of Some a \<Rightarrow> f a | None \<Rightarrow> 0)"

definition list_add :: "service_policy \<Rightarrow> u64 \<Rightarrow> service_access cmap \<Rightarrow> string \<Rightarrow> service_access cmap" where
  "list_add p index m s = AList.update s (updateServicePolicies p index True (case map_of m s of Some a \<Rightarrow> a | None \<Rightarrow> no_access)) m"

lemma list_add_count:
  "list_count DialPoliciesCount (list_add p index m s) t = list_count DialPoliciesCount m t + of_bool (t = s \<and> IsDial p)"
  "list_count BindPoliciesCount (list_add p index m s) t = list_count BindPoliciesCount m t + of_bool (t = s \<and> IsBind p)"
  by (auto simp: list_add_def list_count_def update_conv' updateServicePolicies_counts shift_def split: option.splits)

lemma fold_list_add_count:
  assumes "distinct ss"
  shows "list_count DialPoliciesCount (foldl (list_add p index) m ss) t = list_count DialPoliciesCount m t + of_bool (t \<in> set ss \<and> IsDial p) \<and>
    list_count BindPoliciesCount (foldl (list_add p index) m ss) t = list_count BindPoliciesCount m t + of_bool (t \<in> set ss \<and> IsBind p) \<and>
    (map_of (foldl (list_add p index) m ss) t \<noteq> None \<longleftrightarrow> map_of m t \<noteq> None \<or> t \<in> set ss)"
  using assms
proof (induction ss arbitrary: m)
  case (Cons s ss)
  have "map_of (list_add p index m s) t \<noteq> None \<longleftrightarrow> map_of m t \<noteq> None \<or> t = s" by (auto simp: list_add_def update_conv')
  then show ?case using Cons.IH [of "list_add p index m s"] Cons.prems by (auto simp: list_add_count)
qed simp


lemma fold_policies_count:
  assumes T: "\<forall>p P. T p = Some P \<longrightarrow> distinct (p_Services P) \<and> (IsDial P \<or> IsBind P)"
  defines "step \<equiv> (\<lambda>m p. case T p of None \<Rightarrow> m
    | Some P \<Rightarrow> foldl (list_add P (max (p_postureChecksIndex P) (p_servicesIndex P))) m (p_Services P))"
  assumes m: "\<And>t. 0 \<le> list_count DialPoliciesCount m t \<and> 0 \<le> list_count BindPoliciesCount m t"
    "\<And>t. map_of m t \<noteq> None \<Longrightarrow> 0 < list_count DialPoliciesCount m t \<or> 0 < list_count BindPoliciesCount m t"
  shows "list_count DialPoliciesCount (foldl step m ps) t = list_count DialPoliciesCount m t + pol_count T (dials t) ps \<and>
    list_count BindPoliciesCount (foldl step m ps) t = list_count BindPoliciesCount m t + pol_count T (binds t) ps \<and>
    (map_of (foldl step m ps) t \<noteq> None \<longrightarrow>
      0 < list_count DialPoliciesCount (foldl step m ps) t \<or> 0 < list_count BindPoliciesCount (foldl step m ps) t)"
  using m
proof (induction ps arbitrary: m)
  case (Cons p ps)
  show ?case
  proof (cases "T p")
    case None
    then have "step m p = m" by (simp add: step_def)
    then show ?thesis using Cons.IH [OF Cons.prems] None by (auto simp: pol_count_Cons)
  next
    case (Some P)
    have eq: "step m p = foldl (list_add P (max (p_postureChecksIndex P) (p_servicesIndex P))) m (p_Services P)"
      using Some by (simp add: step_def)
    have P: "distinct (p_Services P)" "IsDial P \<or> IsBind P" using T Some by blast+
    note S = fold_list_add_count [OF P(1), of P "max (p_postureChecksIndex P) (p_servicesIndex P)" m, folded eq]
    have "0 \<le> list_count DialPoliciesCount (step m p) t \<and> 0 \<le> list_count BindPoliciesCount (step m p) t" for t
      using S [of t] Cons.prems(1) [of t] by simp
    moreover have "0 < list_count DialPoliciesCount (step m p) t \<or> 0 < list_count BindPoliciesCount (step m p) t"
      if "map_of (step m p) t \<noteq> None" for t
      using S [of t] that Cons.prems(1) [of t] Cons.prems(2) [of t] P(2) by auto
    ultimately have IH: "list_count DialPoliciesCount (foldl step (step m p) ps) t = list_count DialPoliciesCount (step m p) t + pol_count T (dials t) ps \<and>
      list_count BindPoliciesCount (foldl step (step m p) ps) t = list_count BindPoliciesCount (step m p) t + pol_count T (binds t) ps \<and>
      (map_of (foldl step (step m p) ps) t \<noteq> None \<longrightarrow>
        0 < list_count DialPoliciesCount (foldl step (step m p) ps) t \<or> 0 < list_count BindPoliciesCount (foldl step (step m p) ps) t)"
      using Cons.IH [of "step m p"] by blast
    have "list_count DialPoliciesCount (step m p) t = list_count DialPoliciesCount m t + of_bool (dials t P)"
      "list_count BindPoliciesCount (step m p) t = list_count BindPoliciesCount m t + of_bool (binds t P)"
      using S [of t] by (simp_all add: dials_def binds_def conj_commute)
    then show ?thesis using IH Some by (auto simp: pol_count_Cons)
  qed
qed simp

lemma distinct_buildServiceAccessList: "distinct (map fst (buildServiceAccessList m d))"
proof -
  have "distinct (map fst (foldl (\<lambda>services s. AList.update s (f s services) services) xs ss))" if "distinct (map fst xs)" for f ss and xs :: "service_access cmap"
    using that by (induction ss arbitrary: xs) (simp_all add: distinct_update)
  then have "distinct (map fst (foldl (\<lambda>services pid. case T pid of None \<Rightarrow> services
      | Some p \<Rightarrow> foldl (\<lambda>services s. AList.update s (f p s services) services) services (g p)) xs ps))"
    if "distinct (map fst xs)" for f ps and xs :: "service_access cmap" and T :: "string \<rightharpoonup> service_policy" and g
    using that by (induction ps arbitrary: xs) (simp_all split: option.split)
  then show ?thesis unfolding buildServiceAccessList_def by simp
qed

lemma buildServiceAccessList_consistent:
  assumes c: "consistent (map_of (m_ServicePolicies m)) d"
    and T: "\<forall>p P. map_of (m_ServicePolicies m) p = Some P \<longrightarrow> distinct (p_Services P) \<and> (IsDial P \<or> IsBind P)"
  shows "consistent (map_of (m_ServicePolicies m)) (d\<lparr>i_tracking := True, i_ServiceAccess := buildServiceAccessList m d\<rparr>)"
proof -
  let ?T = "map_of (m_ServicePolicies m)" and ?d = "d\<lparr>i_tracking := True, i_ServiceAccess := buildServiceAccessList m d\<rparr>"
  have b: "buildServiceAccessList m d = foldl (\<lambda>m p. case ?T p of None \<Rightarrow> m
      | Some P \<Rightarrow> foldl (list_add P (max (p_postureChecksIndex P) (p_servicesIndex P))) m (p_Services P)) [] (i_ServicePolicies d)"
    unfolding buildServiceAccessList_def list_add_def by simp
  note F = fold_policies_count [where T = ?T and m = "[]" and ps = "i_ServicePolicies d", folded b, OF T]
  have n: "list_count f [] t = 0" for f t by (simp add: list_count_def)
  have l: "access_count f ?d t = list_count f (buildServiceAccessList m d) t" for f t by (simp add: access_count_def list_count_def)
  have F': "access_count DialPoliciesCount ?d t = pol_count ?T (dials t) (i_ServicePolicies d)"
    "access_count BindPoliciesCount ?d t = pol_count ?T (binds t) (i_ServicePolicies d)"
    "map_of (i_ServiceAccess ?d) t \<noteq> None \<Longrightarrow> 0 < access_count DialPoliciesCount ?d t \<or> 0 < access_count BindPoliciesCount ?d t" for t
    using F [where t = t] unfolding l n by auto
  have "access_entries ?d" unfolding access_entries_def access_valid_def
  proof (intro conjI allI impI)
    show "distinct (map fst (i_ServiceAccess ?d))" by (simp add: distinct_buildServiceAccessList)
  next
    fix s a assume a: "map_of (i_ServiceAccess ?d) s = Some a"
    then have "access_count DialPoliciesCount ?d s = DialPoliciesCount a" "access_count BindPoliciesCount ?d s = BindPoliciesCount a"
      by (simp_all add: access_count_def)
    then show "HasAccess a" "0 \<le> DialPoliciesCount a" "0 \<le> BindPoliciesCount a"
      using F' [of s] a pol_count_nonneg [of ?T "dials s" "i_ServicePolicies d"] pol_count_nonneg [of ?T "binds s" "i_ServicePolicies d"]
      by (simp_all add: HasAccess_def IsDialAllowed_def IsBindAllowed_def)
  qed
  with F'(1,2) show ?thesis
    by (intro consistentI) (use consistentD [OF c] consistent_checks_positive [OF c] in simp_all)
qed

end
