(* ===== verification/Data_Model_Changes.thy ===== *)
theory Data_Model_Changes
  imports Data_Model_Access
begin

text \<open>
  The invariant of the router's model: its indexes and counters are exactly what the policies say. Changes
  of the identities, services and posture checks of a policy keep it, do not panic, and change nothing
  else.
\<close>

section \<open>Views of the model\<close>

text \<open>
  Indexes of entries count for notifications only. The view of a model leaves them out, and everything
  that belongs to configs and subscriptions.
\<close>

definition pcore :: "service_policy \<Rightarrow> service_policy" where
  "pcore P = P\<lparr>p_servicesIndex := 0, p_postureChecksIndex := 0\<rparr>"

definition ids :: "('k, 's) rdm \<Rightarrow> string \<rightharpoonup> identity" where
  "ids m = map_of (m_Identities m)"

definition pols :: "('k, 's) rdm \<Rightarrow> string \<rightharpoonup> service_policy" where
  "pols m = (\<lambda>p. map_option pcore (map_of (m_ServicePolicies m) p))"

definition svcs :: "('k, 's) rdm \<Rightarrow> string \<rightharpoonup> service" where
  "svcs m = (\<lambda>s. map_option (\<lambda>v. v\<lparr>s_index := 0\<rparr>) (map_of (m_Services m) s))"

definition chks :: "('k, 's) rdm \<Rightarrow> string \<rightharpoonup> posture_check" where
  "chks m = (\<lambda>c. map_option (\<lambda>v. v\<lparr>k_index := 0\<rparr>) (map_of (m_PostureChecks m) c))"

definition rest :: "('k, 's) rdm \<Rightarrow>
  (string \<rightharpoonup> ds_config_type) \<times> (string \<rightharpoonup> ds_router) \<times> ds_public_key cmap \<times> (string \<rightharpoonup> ds_revocation) \<times> 'k cmap" where
  "rest m = (\<lambda>t. map_option t_Data (map_of (m_ConfigTypes m) t), map_of (m_Routers m), m_PublicKeys m, map_of (m_Revocations m), m_cachedPublicKeys m)"

definition view where
  "view m = (ids m, pols m, svcs m, chks m, rest m)"

lemma view_iff: "view m' = view m \<longleftrightarrow> ids m' = ids m \<and> pols m' = pols m \<and> svcs m' = svcs m \<and> chks m' = chks m \<and> rest m' = rest m"
  by (simp add: view_def)

lemmas view_defs = view_def ids_def pols_def svcs_def chks_def rest_def

lemma view_other [simp]:
  "view (m\<lparr>m_Configs := b\<rparr>) = view m" "view (m\<lparr>m_serviceNameIndex := c\<rparr>) = view m"
  "view (m\<lparr>m_updatedIdentities := d\<rparr>) = view m" "view (m\<lparr>m_events := e\<rparr>) = view m" "view (m\<lparr>m_scanSubs := f\<rparr>) = view m"
  "view (m\<lparr>m_dispatched := g\<rparr>) = view m" "view (m\<lparr>m_rdmIndex := h\<rparr>) = view m" "view (m\<lparr>m_timelineId := x\<rparr>) = view m"
  "view (m\<lparr>m_terminatorIdCache := y\<rparr>) = view m" "view (m\<lparr>m_subscriptions := z\<rparr>) = view m"
  by (simp_all add: view_defs)

lemma view_foldl:
  assumes "\<And>m x. view (f m x) = view m"
  shows "view (foldl f m xs) = view m"
  by (induction xs arbitrary: m) (simp_all add: assms)

lemma view_queue_check [simp]: "view (queue_check t e i m) = view m"
  by (simp add: queue_check_def markIdentityForCheck_def Let_def)

lemma view_queues [simp]:
  "view (queueSyncCheck i m) = view m" "view (queueNewIdentitySubCheck i m) = view m" "view (queueIdentityDeletedSubCheck i m) = view m"
  by (simp_all add: queueSyncCheck_def queueNewIdentitySubCheck_def queueIdentityDeletedSubCheck_def)

lemma view_NotifyIdentityChange [simp]: "view (NotifyIdentityChange i m) = view m"
  by (simp add: NotifyIdentityChange_def)

lemma view_notify_identities [simp]: "view (foldl (\<lambda>m i. NotifyIdentityChange i m) m xs) = view m"
  by (rule view_foldl) simp

lemma pcore_simps [simp]:
  "pcore (P\<lparr>p_servicesIndex := x\<rparr>) = pcore P" "pcore (P\<lparr>p_postureChecksIndex := y\<rparr>) = pcore P" "pcore (pcore P) = pcore P"
  "p_Data (pcore P) = p_Data P" "p_Services (pcore P) = p_Services P" "p_PostureChecks (pcore P) = p_PostureChecks P"
  "p_Identities (pcore P) = p_Identities P"
  by (simp_all add: pcore_def)

lemma view_policy_index:
  assumes "map_of (m_ServicePolicies m) p = Some P" and "pcore P' = pcore P"
  shows "view (m\<lparr>m_ServicePolicies := AList.update p P' (m_ServicePolicies m)\<rparr>) = view m"
  using assms by (auto simp: view_defs update_conv')

lemma view_NotifyServicePolicyServiceChange [simp]: "view (NotifyServicePolicyServiceChange index p m) = view m"
  by (auto simp: NotifyServicePolicyServiceChange_def Let_def view_policy_index split: option.split)

lemma view_NotifyServicePolicyPostureChecksChange [simp]: "view (NotifyServicePolicyPostureChecksChange index p m) = view m"
  by (auto simp: NotifyServicePolicyPostureChecksChange_def Let_def view_policy_index split: option.split)

lemma view_NotifyServiceOfConfigChange [simp]: "view (NotifyServiceOfConfigChange index s m) = view m"
proof (cases "map_of (m_Services m) s")
  case (Some v)
  then have "view (m\<lparr>m_Services := AList.update s (v\<lparr>s_index := index\<rparr>) (m_Services m)\<rparr>) = view m"
    by (auto simp: view_defs update_conv')
  then show ?thesis
    using Some by (auto simp: NotifyServiceOfConfigChange_def Let_def intro: trans [OF view_foldl])
qed (simp add: NotifyServiceOfConfigChange_def)

lemma view_with_config [simp]: "view (with_config i f m) = view m"
  by (simp add: with_config_def split: option.split)

lemma view_config_references [simp]:
  "view (removeConfigReferences d m) = view m" "view (addConfigReferences d m) = view m"
  "view (removeFromConfigs s cs m) = view m" "view (addToConfigs s cs m) = view m"
  unfolding removeConfigReferences_def addConfigReferences_def removeFromConfigs_def addToConfigs_def
  by (rule view_foldl, simp)+

lemma view_dispatch [simp]:
  "view (dispatchRouterConfigApply t d m) = view m" "view (dispatchRouterConfigRemove t m) = view m"
  by (simp_all add: dispatchRouterConfigApply_def dispatchRouterConfigRemove_def dispatch_router_config_def split: option.split)

lemma view_drop_name [simp]: "view (drop_name n s m) = view m"
  by (simp add: drop_name_def)


section \<open>The invariant\<close>

definition policy_ok :: "string \<Rightarrow> service_policy \<Rightarrow> bool" where
  "policy_ok p P \<longleftrightarrow> pol_Id (p_Data P) = p \<and> distinct (p_Services P) \<and> distinct (p_PostureChecks P) \<and> distinct (p_Identities P) \<and>
     (IsDial P \<or> IsBind P)"

definition identity_ok :: "(string \<rightharpoonup> service_policy) \<Rightarrow> string \<Rightarrow> identity \<Rightarrow> bool" where
  "identity_ok T i d \<longleftrightarrow> consistent T d \<and> id_Id (i_Data d) = i \<and>
     (\<forall>p. p \<in> set (i_ServicePolicies d) \<longleftrightarrow> (\<exists>P. T p = Some P \<and> i \<in> set (p_Identities P)))"

text \<open>
  The members of a policy exist. A service and a posture check know the policies they are in, possibly
  along with policies that were deleted.
\<close>

definition members_ok ::
  "(string \<rightharpoonup> identity) \<Rightarrow> (string \<rightharpoonup> service) \<Rightarrow> (string \<rightharpoonup> posture_check) \<Rightarrow> string \<Rightarrow> service_policy \<Rightarrow> bool" where
  "members_ok I S K p P \<longleftrightarrow> (\<forall>i \<in> set (p_Identities P). I i \<noteq> None) \<and>
     (\<forall>s \<in> set (p_Services P). \<exists>v. S s = Some v \<and> p \<in> set (s_servicePolicies v)) \<and>
     (\<forall>c \<in> set (p_PostureChecks P). \<exists>v. K c = Some v \<and> p \<in> set (k_servicePolicies v))"

definition model_ok ::
  "(string \<rightharpoonup> identity) \<Rightarrow> (string \<rightharpoonup> service_policy) \<Rightarrow> (string \<rightharpoonup> service) \<Rightarrow> (string \<rightharpoonup> posture_check) \<Rightarrow> bool" where
  "model_ok I T S K \<longleftrightarrow>
     (\<forall>p P. T p = Some P \<longrightarrow> policy_ok p P \<and> members_ok I S K p P) \<and> (\<forall>i d. I i = Some d \<longrightarrow> identity_ok T i d)"

text \<open>The indexes of services and posture checks have each policy once.\<close>

definition index_ok :: "(string \<rightharpoonup> service) \<Rightarrow> (string \<rightharpoonup> posture_check) \<Rightarrow> bool" where
  "index_ok S K \<longleftrightarrow> (\<forall>s v. S s = Some v \<longrightarrow> distinct (s_servicePolicies v)) \<and> (\<forall>c v. K c = Some v \<longrightarrow> distinct (k_servicePolicies v))"

definition rdm_ok :: "('k, 's) rdm \<Rightarrow> bool" where
  "rdm_ok m \<longleftrightarrow> model_ok (ids m) (pols m) (svcs m) (chks m) \<and> index_ok (svcs m) (chks m)"

lemma rdm_okD:
  assumes "rdm_ok m"
  shows "model_ok (ids m) (pols m) (svcs m) (chks m)" "index_ok (svcs m) (chks m)"
  using assms by (simp_all add: rdm_ok_def)

lemma rdm_ok_view: "view m' = view m \<Longrightarrow> rdm_ok m' = rdm_ok m"
  by (simp add: rdm_ok_def view_iff)

lemma model_okD:
  assumes "model_ok I T S K"
  shows "T p = Some P \<Longrightarrow> policy_ok p P" "T p = Some P \<Longrightarrow> members_ok I S K p P" "I i = Some d \<Longrightarrow> identity_ok T i d"
  using assms by (simp_all add: model_ok_def)

lemma model_okI:
  assumes "\<And>p P. T p = Some P \<Longrightarrow> policy_ok p P" and "\<And>p P. T p = Some P \<Longrightarrow> members_ok I S K p P"
    and "\<And>i d. I i = Some d \<Longrightarrow> identity_ok T i d"
  shows "model_ok I T S K"
  using assms by (simp add: model_ok_def)

text \<open>The data of the entities, as the controller has them too.\<close>

definition idata :: "('k, 's) rdm \<Rightarrow> string \<rightharpoonup> ds_identity" where
  "idata m = (\<lambda>i. map_option i_Data (ids m i))"

definition sdata :: "('k, 's) rdm \<Rightarrow> string \<rightharpoonup> ds_service" where
  "sdata m = (\<lambda>s. map_option s_Data (svcs m s))"

definition kdata :: "('k, 's) rdm \<Rightarrow> string \<rightharpoonup> ds_posture_check" where
  "kdata m = (\<lambda>c. map_option k_Data (chks m c))"

definition same_data :: "('k, 's) rdm \<Rightarrow> ('k, 's) rdm \<Rightarrow> bool" where
  "same_data m m' \<longleftrightarrow> idata m' = idata m \<and> sdata m' = sdata m \<and> kdata m' = kdata m \<and> rest m' = rest m"

lemma same_data_view: "view m' = view m \<Longrightarrow> same_data m m'"
  by (simp add: same_data_def idata_def sdata_def kdata_def view_iff)

lemma same_data_trans: "same_data a b \<Longrightarrow> same_data b c \<Longrightarrow> same_data a c"
  by (simp add: same_data_def)

section \<open>Policy changes\<close>

lemma ofold_withLockedIdentity:
  assumes "distinct xs" and "\<And>i d. i \<in> set xs \<Longrightarrow> ids m i = Some d \<Longrightarrow> \<exists>d'. f d = Some d'"
  shows "\<exists>is'. ofold (\<lambda>i. withLockedIdentity i f) xs m = Some (m\<lparr>m_Identities := is'\<rparr>) \<and>
    map_of is' = (\<lambda>i. if i \<in> set xs then Option.bind (ids m i) f else ids m i)"
  using assms
proof (induction xs arbitrary: m)
  case Nil
  show ?case by (rule exI [of _ "m_Identities m"]) (simp add: ids_def)
next
  case (Cons x xs)
  have "\<exists>is'. withLockedIdentity x f m = Some (m\<lparr>m_Identities := is'\<rparr>) \<and> map_of is' = (ids m)(x := Option.bind (ids m x) f)"
  proof (cases "ids m x")
    case None
    then show ?thesis by (intro exI [of _ "m_Identities m"]) (auto simp: withLockedIdentity_def ids_def)
  next
    case (Some d)
    with Cons.prems(2) [of x d] obtain d' where "f d = Some d'" by auto
    with Some show ?thesis by (auto simp: withLockedIdentity_def ids_def update_conv')
  qed
  then obtain js where js: "withLockedIdentity x f m = Some (m\<lparr>m_Identities := js\<rparr>)" "map_of js = (ids m)(x := Option.bind (ids m x) f)"
    by blast
  let ?m = "m\<lparr>m_Identities := js\<rparr>"
  have ids: "ids ?m = (ids m)(x := Option.bind (ids m x) f)" using js(2) by (simp add: ids_def)
  have "\<exists>d'. f d = Some d'" if "i \<in> set xs" "ids ?m i = Some d" for i d
  proof -
    have "i \<noteq> x" using that(1) Cons.prems(1) by auto
    then show ?thesis using that Cons.prems(2) [of i d] ids by simp
  qed
  from Cons.IH [of ?m] this Cons.prems(1) obtain is' where
    "ofold (\<lambda>i. withLockedIdentity i f) xs ?m = Some (?m\<lparr>m_Identities := is'\<rparr>)"
    "map_of is' = (\<lambda>i. if i \<in> set xs then Option.bind (ids ?m i) f else ids ?m i)" by auto
  then show ?case using js(1) Cons.prems(1) by (intro exI [of _ is']) (auto simp: ids fun_eq_iff)
qed

text \<open>The identities of a policy: what is known of them in a consistent model.\<close>

lemma policy_members:
  assumes ok: "model_ok I T S K" and T: "T p = Some P"
  shows "i \<in> set (p_Identities P) \<Longrightarrow> \<exists>d. I i = Some d \<and> consistent T d \<and> p \<in> set (i_ServicePolicies d)"
    and "I i = Some d \<Longrightarrow> i \<notin> set (p_Identities P) \<Longrightarrow> p \<notin> set (i_ServicePolicies d)"
proof -
  assume i: "i \<in> set (p_Identities P)"
  then obtain d where d: "I i = Some d" using model_okD(2) [OF ok T] by (auto simp: members_ok_def)
  then show "\<exists>d. I i = Some d \<and> consistent T d \<and> p \<in> set (i_ServicePolicies d)"
    using model_okD(3) [OF ok d] T i unfolding identity_ok_def by blast
next
  assume "I i = Some d" "i \<notin> set (p_Identities P)"
  then show "p \<notin> set (i_ServicePolicies d)" using model_okD(3) [OF ok, of i d] T by (auto simp: identity_ok_def)
qed


lemma model_ok_change:
  assumes ok: "model_ok I T S K" and T: "T p = Some P" and P': "policy_ok p P'" "p_Identities P' = p_Identities P"
    and f: "\<And>i d. i \<in> set (p_Identities P) \<Longrightarrow> I i = Some d \<Longrightarrow>
      \<exists>d'. f d = Some d' \<and> consistent (T(p \<mapsto> P')) d' \<and> set (i_ServicePolicies d') = set (i_ServicePolicies d) \<and> i_Data d' = i_Data d"
    and I': "I' = (\<lambda>i. if i \<in> set (p_Identities P) then Option.bind (I i) f else I i)"
    and S': "\<And>s v. S s = Some v \<Longrightarrow> \<exists>v'. S' s = Some v' \<and> set (s_servicePolicies v) - {p} \<subseteq> set (s_servicePolicies v')"
    and K': "\<And>c v. K c = Some v \<Longrightarrow> \<exists>v'. K' c = Some v' \<and> set (k_servicePolicies v) - {p} \<subseteq> set (k_servicePolicies v')"
    and m: "\<And>s. s \<in> set (p_Services P') \<Longrightarrow> \<exists>v. S' s = Some v \<and> p \<in> set (s_servicePolicies v)"
      "\<And>c. c \<in> set (p_PostureChecks P') \<Longrightarrow> \<exists>v. K' c = Some v \<and> p \<in> set (k_servicePolicies v)"
  shows "model_ok I' (T(p \<mapsto> P')) S' K' \<and> (\<forall>i. map_option i_Data (I' i) = map_option i_Data (I i))"
proof -
  have I: "\<exists>d0. I i = Some d0 \<and> consistent (T(p \<mapsto> P')) d \<and> set (i_ServicePolicies d) = set (i_ServicePolicies d0) \<and> i_Data d = i_Data d0"
    if d: "I' i = Some d" for i d
  proof (cases "i \<in> set (p_Identities P)")
    case True
    then obtain d0 where "I i = Some d0" "f d0 = Some d" using d I' by (auto simp: bind_eq_Some_conv)
    then show ?thesis using f [OF True] by fastforce
  next
    case False
    then have "I i = Some d" using d I' by simp
    then show ?thesis
      using consistent_other [of T d p "Some P'"] model_okD(3) [OF ok] policy_members(2) [OF ok T _ False] by (auto simp: identity_ok_def)
  qed
  have dom: "I' i = None \<longleftrightarrow> I i = None" for i
    using f [of i] by (cases "I i") (auto simp: I')
  have "model_ok I' (T(p \<mapsto> P')) S' K'"
  proof (rule model_okI)
    fix q Q assume q: "(T(p \<mapsto> P')) q = Some Q"
    show "policy_ok q Q" using q P' model_okD(1) [OF ok] by (cases "q = p") auto
    show "members_ok I' S' K' q Q"
    proof (cases "q = p")
      case True
      then show ?thesis using q m model_okD(2) [OF ok T] P'(2) by (auto simp: members_ok_def dom)
    next
      case False
      then have Q: "members_ok I S K q Q" using q model_okD(2) [OF ok] by simp
      have "\<exists>v. S' s = Some v \<and> q \<in> set (s_servicePolicies v)" if "s \<in> set (p_Services Q)" for s
      proof -
        obtain v where "S s = Some v" "q \<in> set (s_servicePolicies v)" using Q \<open>s \<in> set (p_Services Q)\<close> by (auto simp: members_ok_def)
        with S' [of s v] False show ?thesis by blast
      qed
      moreover have "\<exists>v. K' c = Some v \<and> q \<in> set (k_servicePolicies v)" if "c \<in> set (p_PostureChecks Q)" for c
      proof -
        obtain v where "K c = Some v" "q \<in> set (k_servicePolicies v)" using Q \<open>c \<in> set (p_PostureChecks Q)\<close> by (auto simp: members_ok_def)
        with K' [of c v] False show ?thesis by blast
      qed
      ultimately show ?thesis using Q by (auto simp: members_ok_def dom)
    qed
  next
    fix i d assume "I' i = Some d"
    from I [OF this] obtain d0 where d0: "I i = Some d0" "consistent (T(p \<mapsto> P')) d" "set (i_ServicePolicies d) = set (i_ServicePolicies d0)" "i_Data d = i_Data d0"
      by blast
    then show "identity_ok (T(p \<mapsto> P')) i d" using model_okD(3) [OF ok d0(1)] T P'(2) by (auto simp: identity_ok_def)
  qed
  moreover have "map_option i_Data (I' i) = map_option i_Data (I i)" for i
    using I [of i] dom [of i] by (cases "I' i") auto
  ultimately show ?thesis by blast
qed

lemma fold_withService:
  assumes "\<And>v. s_Data (f v) = s_Data v" and "\<And>v x. f (v\<lparr>s_index := x\<rparr>) = (f v)\<lparr>s_index := x\<rparr>" and "distinct xs"
  shows "\<exists>ss. foldl (\<lambda>m i. withService i f m) m xs = m\<lparr>m_Services := ss\<rparr> \<and>
    svcs (m\<lparr>m_Services := ss\<rparr>) = (\<lambda>s. if s \<in> set xs then map_option f (svcs m s) else svcs m s)"
  using assms(3)
proof (induction xs arbitrary: m)
  case Nil
  show ?case by (rule exI [of _ "m_Services m"]) (simp add: svcs_def)
next
  case (Cons x xs)
  have "\<exists>ss. withService x f m = m\<lparr>m_Services := ss\<rparr> \<and> svcs (m\<lparr>m_Services := ss\<rparr>) = (svcs m)(x := map_option f (svcs m x))"
  proof (cases "map_of (m_Services m) x")
    case None
    then show ?thesis by (intro exI [of _ "m_Services m"]) (auto simp: withService_def svcs_def)
  next
    case (Some v)
    then show ?thesis by (auto simp: withService_def svcs_def update_conv' assms(2) fun_eq_iff)
  qed
  then obtain ss where ss: "withService x f m = m\<lparr>m_Services := ss\<rparr>" "svcs (m\<lparr>m_Services := ss\<rparr>) = (svcs m)(x := map_option f (svcs m x))"
    by blast
  obtain ss' where "foldl (\<lambda>m i. withService i f m) (m\<lparr>m_Services := ss\<rparr>) xs = m\<lparr>m_Services := ss'\<rparr>"
    "svcs (m\<lparr>m_Services := ss'\<rparr>) = (\<lambda>s. if s \<in> set xs then map_option f (svcs (m\<lparr>m_Services := ss\<rparr>) s) else svcs (m\<lparr>m_Services := ss\<rparr>) s)"
    using Cons.IH [of "m\<lparr>m_Services := ss\<rparr>"] Cons.prems by auto
  then show ?case using ss Cons.prems by (intro exI [of _ ss']) (auto simp: fun_eq_iff)
qed

lemma fold_withPostureCheck:
  assumes "\<And>v x. f (v\<lparr>k_index := x\<rparr>) = (f v)\<lparr>k_index := x\<rparr>" and "distinct xs"
  shows "\<exists>ks. foldl (\<lambda>m i. withPostureCheck i f m) m xs = m\<lparr>m_PostureChecks := ks\<rparr> \<and>
    chks (m\<lparr>m_PostureChecks := ks\<rparr>) = (\<lambda>c. if c \<in> set xs then map_option f (chks m c) else chks m c)"
  using assms(2)
proof (induction xs arbitrary: m)
  case Nil
  show ?case by (rule exI [of _ "m_PostureChecks m"]) (simp add: chks_def)
next
  case (Cons x xs)
  have "\<exists>ks. withPostureCheck x f m = m\<lparr>m_PostureChecks := ks\<rparr> \<and> chks (m\<lparr>m_PostureChecks := ks\<rparr>) = (chks m)(x := map_option f (chks m x))"
  proof (cases "map_of (m_PostureChecks m) x")
    case None
    then show ?thesis by (intro exI [of _ "m_PostureChecks m"]) (auto simp: withPostureCheck_def chks_def)
  next
    case (Some v)
    then show ?thesis by (auto simp: withPostureCheck_def chks_def update_conv' assms(1) fun_eq_iff)
  qed
  then obtain ks where ks: "withPostureCheck x f m = m\<lparr>m_PostureChecks := ks\<rparr>" "chks (m\<lparr>m_PostureChecks := ks\<rparr>) = (chks m)(x := map_option f (chks m x))"
    by blast
  obtain ks' where "foldl (\<lambda>m i. withPostureCheck i f m) (m\<lparr>m_PostureChecks := ks\<rparr>) xs = m\<lparr>m_PostureChecks := ks'\<rparr>"
    "chks (m\<lparr>m_PostureChecks := ks'\<rparr>) = (\<lambda>c. if c \<in> set xs then map_option f (chks (m\<lparr>m_PostureChecks := ks\<rparr>) c) else chks (m\<lparr>m_PostureChecks := ks\<rparr>) c)"
    using Cons.IH [of "m\<lparr>m_PostureChecks := ks\<rparr>"] Cons.prems by auto
  then show ?case using ks Cons.prems by (intro exI [of _ ks']) (auto simp: fun_eq_iff)
qed


lemma fold_change_member:
  "set (foldl (\<lambda>xs x. change_member add x xs) xs ys) = (if add then set xs \<union> set ys else set xs - set ys)"
  "distinct xs \<Longrightarrow> distinct (foldl (\<lambda>xs x. change_member add x xs) xs ys)"
  by (cases add; simp add: change_member_def)+

lemma distinct_change_member: "distinct xs \<Longrightarrow> distinct (change_member add x xs)"
  by (simp add: change_member_def)

lemma set_change_member [simp]: "set (change_member add x xs) = (if add then insert x (set xs) else set xs - {x})"
  by (simp add: change_member_def)

lemma same_grants_pcore: "same_grants (pcore P) P" "same_grants P (pcore P)"
  by (simp_all add: same_grants_def)

lemma consistent_pcore: "consistent (T(i \<mapsto> pcore P)) d \<longleftrightarrow> consistent (T(i \<mapsto> P)) d"
  using consistent_same_grants [of "T(i \<mapsto> P)" d i P "pcore P"] consistent_same_grants [of "T(i \<mapsto> pcore P)" d i "pcore P" P]
  by (auto simp: same_grants_pcore)

lemma policy_ok_pcore [simp]: "policy_ok p (pcore P) = policy_ok p P"
  by (simp add: policy_ok_def IsDial_def IsBind_def)

text \<open>The part of the handler that follows the change of the entities: the policy is stored and identities are notified.\<close>

definition store_policy :: "string \<Rightarrow> service_policy \<Rightarrow> ('k, 's) rdm \<Rightarrow> ('k, 's) rdm" where
  "store_policy pid p m = m\<lparr>m_ServicePolicies := AList.update pid p (m_ServicePolicies m)\<rparr>"

lemma store_policy_views [simp]:
  "ids (store_policy pid p m) = ids m" "pols (store_policy pid p m) = (pols m)(pid \<mapsto> pcore p)" "svcs (store_policy pid p m) = svcs m"
  "chks (store_policy pid p m) = chks m" "rest (store_policy pid p m) = rest m"
  by (auto simp: store_policy_def view_defs update_conv')

text \<open>The result of a handler: the model stays consistent, the data of entities stay, one policy changes.\<close>

definition policy_changed :: "string \<Rightarrow> service_policy \<Rightarrow> ('k, 's) rdm \<Rightarrow> ('k, 's) rdm \<Rightarrow> bool" where
  "policy_changed pid P m m' \<longleftrightarrow> rdm_ok m' \<and> same_data m m' \<and> pols m' = (pols m)(pid \<mapsto> P)"

lemma policy_changed_view:
  assumes "policy_changed pid P m m1" and "view m' = view m1"
  shows "policy_changed pid P m m'"
proof -
  have "rdm_ok m'" using assms rdm_ok_view by (auto simp: policy_changed_def)
  moreover have "same_data m m'" using assms same_data_view [OF assms(2)] same_data_trans by (auto simp: policy_changed_def)
  ultimately show ?thesis using assms by (simp add: policy_changed_def view_iff)
qed

lemma rdm_update_views:
  "ids (m\<lparr>m_Identities := x\<rparr>) = map_of x" "pols (m\<lparr>m_Identities := x\<rparr>) = pols m" "svcs (m\<lparr>m_Identities := x\<rparr>) = svcs m"
  "chks (m\<lparr>m_Identities := x\<rparr>) = chks m" "rest (m\<lparr>m_Identities := x\<rparr>) = rest m"
  "ids (m\<lparr>m_Services := y\<rparr>) = ids m" "pols (m\<lparr>m_Services := y\<rparr>) = pols m" "chks (m\<lparr>m_Services := y\<rparr>) = chks m" "rest (m\<lparr>m_Services := y\<rparr>) = rest m"
  "ids (m\<lparr>m_PostureChecks := z\<rparr>) = ids m" "pols (m\<lparr>m_PostureChecks := z\<rparr>) = pols m" "svcs (m\<lparr>m_PostureChecks := z\<rparr>) = svcs m" "rest (m\<lparr>m_PostureChecks := z\<rparr>) = rest m"
  by (simp_all add: ids_def pols_def svcs_def chks_def rest_def)

definition services_step :: "bool \<Rightarrow> service_policy \<Rightarrow> service_policy \<Rightarrow> string list \<Rightarrow> u64 \<Rightarrow> identity \<Rightarrow> identity option" where
  "services_step add p p1 xs index d =
     (if checks_flip add p p1 then postureChecksChangedInPolicy add p1 (p_PostureChecks p1) index (servicesChangedInPolicy add p xs index d)
      else Some (servicesChangedInPolicy add p xs index d))"

lemma change_services_eval:
  assumes d: "distinct (p_Identities p)" "distinct xs" and p1: "p1 = p\<lparr>p_Services := foldl (\<lambda>xs x. change_member add x xs) (p_Services p) xs\<rparr>"
    and f: "\<And>i d. i \<in> set (p_Identities p) \<Longrightarrow> ids m i = Some d \<Longrightarrow> \<exists>d'. services_step add p p1 xs index d = Some d'"
  shows "\<exists>is' vs. change_services add index xs (p, m) = Some (p1, m\<lparr>m_Identities := is', m_Services := vs\<rparr>) \<and>
    map_of is' = (\<lambda>i. if i \<in> set (p_Identities p) then Option.bind (ids m i) (services_step add p p1 xs index) else ids m i) \<and>
    svcs (m\<lparr>m_Identities := is', m_Services := vs\<rparr>) = (\<lambda>s. if s \<in> set xs
      then map_option (\<lambda>v. v\<lparr>s_servicePolicies := change_member add (pol_Id (p_Data p)) (s_servicePolicies v)\<rparr>) (svcs m s) else svcs m s)"
proof -
  let ?g = "servicesChangedInPolicy add p xs index" and ?h = "postureChecksChangedInPolicy add p1 (p_PostureChecks p1) index"
  let ?v = "\<lambda>v. v\<lparr>s_servicePolicies := change_member add (pol_Id (p_Data p)) (s_servicePolicies v)\<rparr>"
  obtain is1 where is1: "ofold (\<lambda>i. withLockedIdentity i (\<lambda>d. Some (?g d))) (p_Identities p) m = Some (m\<lparr>m_Identities := is1\<rparr>)"
    "map_of is1 = (\<lambda>i. if i \<in> set (p_Identities p) then Option.bind (ids m i) (\<lambda>d. Some (?g d)) else ids m i)"
    using ofold_withLockedIdentity [of "p_Identities p" m "\<lambda>d. Some (?g d)"] d by auto
  obtain vs where vs: "foldl (\<lambda>m i. withService i ?v m) (m\<lparr>m_Identities := is1\<rparr>) xs = m\<lparr>m_Identities := is1, m_Services := vs\<rparr>"
    "svcs (m\<lparr>m_Identities := is1, m_Services := vs\<rparr>) = (\<lambda>s. if s \<in> set xs then map_option ?v (svcs m s) else svcs m s)"
    using fold_withService [of ?v xs "m\<lparr>m_Identities := is1\<rparr>"] d unfolding rdm_update_views(3) by auto
  let ?m2 = "m\<lparr>m_Identities := is1, m_Services := vs\<rparr>"
  have p1i: "p_Identities p1 = p_Identities p" by (simp add: p1)
  have two: "svcs (m\<lparr>m_Identities := x, m_Services := vs\<rparr>) = svcs ?m2" for x by (simp add: svcs_def)
  have ch: "change_services add index xs (p, m) = map_option (Pair p1)
      (if checks_flip add p p1 then ofold (\<lambda>i. withLockedIdentity i ?h) (p_Identities p) ?m2 else Some ?m2)"
    using is1(1) vs(1) by (simp add: change_services_def Let_def checks_flip_def p1i flip: p1)
  show ?thesis
  proof (cases "checks_flip add p p1")
    case False
    then have st: "services_step add p p1 xs index = (\<lambda>d. Some (?g d))" by (simp add: services_step_def fun_eq_iff)
    show ?thesis unfolding st using ch False is1(2) vs(2) by (intro exI [of _ is1] exI [of _ vs]) simp
  next
    case True
    then have st: "services_step add p p1 xs index = (\<lambda>d. ?h (?g d))" by (simp add: services_step_def fun_eq_iff)
    have ids2: "ids ?m2 = map_of is1" by (simp add: ids_def)
    have "\<exists>d'. ?h d1 = Some d'" if "i \<in> set (p_Identities p)" "ids ?m2 i = Some d1" for i d1
      using f [OF that(1)] that True unfolding ids2 is1(2) by (auto simp: services_step_def bind_eq_Some_conv)
    then obtain is2 where is0: "ofold (\<lambda>i. withLockedIdentity i ?h) (p_Identities p) ?m2 = Some (?m2\<lparr>m_Identities := is2\<rparr>)"
      and is2: "map_of is2 = (\<lambda>i. if i \<in> set (p_Identities p) then Option.bind (ids ?m2 i) ?h else ids ?m2 i)"
      using ofold_withLockedIdentity [OF d(1), of ?m2 ?h] by blast
    have is1': "?m2\<lparr>m_Identities := is2\<rparr> = m\<lparr>m_Identities := is2, m_Services := vs\<rparr>" by simp
    have "map_of is2 = (\<lambda>i. if i \<in> set (p_Identities p) then Option.bind (ids m i) (services_step add p p1 xs index) else ids m i)"
      unfolding is2 ids2 is1(2) st by (auto simp: fun_eq_iff)
    then show ?thesis using ch True is0 vs(2) two unfolding is1' by (intro exI [of _ is2] exI [of _ vs]) simp
  qed
qed

lemma change_services_result:
  assumes ok: "rdm_ok m" and p: "map_of (m_ServicePolicies m) pid = Some p" and dist: "distinct xs"
    and wf: "if add then set xs \<inter> set (p_Services p) = {} \<and> (\<forall>s \<in> set xs. svcs m s \<noteq> None) else set xs \<subseteq> set (p_Services p)"
  shows "\<exists>m1 ss. change_services add index xs (p, m) = Some (p\<lparr>p_Services := ss\<rparr>, m1) \<and>
    set ss = (if add then set (p_Services p) \<union> set xs else set (p_Services p) - set xs) \<and>
    policy_changed pid (pcore (p\<lparr>p_Services := ss\<rparr>)) m (store_policy pid (p\<lparr>p_Services := ss\<rparr>) m1)"
proof -
  note ok' = rdm_okD(1) [OF ok]
  have T: "pols m pid = Some (pcore p)" using p by (simp add: pols_def)
  have pok: "policy_ok pid p" using model_okD(1) [OF ok' T] by simp
  then have pid: "pol_Id (p_Data p) = pid" by (simp add: policy_ok_def)
  define ss where "ss = foldl (\<lambda>xs x. change_member add x xs) (p_Services p) xs"
  define p1 where "p1 = p\<lparr>p_Services := ss\<rparr>"
  have ss: "set ss = (if add then set (p_Services p) \<union> set xs else set (p_Services p) - set xs)" "distinct ss"
    using pok by (simp_all add: ss_def fold_change_member policy_ok_def)
  have p1: "policy_ok pid (pcore p1)" using pok ss(2) by (simp add: p1_def policy_ok_def IsDial_def IsBind_def)
  let ?f = "services_step add p p1 xs index"
  have f: "\<exists>d'. ?f d = Some d' \<and> consistent ((pols m)(pid \<mapsto> pcore p1)) d' \<and> set (i_ServicePolicies d') = set (i_ServicePolicies d) \<and> i_Data d' = i_Data d"
    if "i \<in> set (p_Identities p)" "ids m i = Some d" for i d
  proof -
    have d: "consistent (pols m) d" "pid \<in> set (i_ServicePolicies d)" using policy_members(1) [OF ok' T, of i] that by auto
    then have c: "consistent ((pols m)(pid \<mapsto> p)) d" using consistent_pcore [of "pols m" pid p d] T by (simp add: fun_upd_idem)
    have w: "if add then set xs \<inter> set (p_Services p) = {} else set xs \<subseteq> set (p_Services p)" using wf by (simp split: if_splits)
    have pc: "distinct (p_PostureChecks p)" using pok by (simp add: policy_ok_def)
    show ?thesis
      using change_services_consistent [where p = p, unfolded pid, OF c _ d(2) dist w p1_def ss(1) pc, of index]
      by (fastforce simp: consistent_pcore services_step_def)
  qed
  obtain is' vs where ev: "change_services add index xs (p, m) = Some (p1, m\<lparr>m_Identities := is', m_Services := vs\<rparr>)"
    and is': "map_of is' = (\<lambda>i. if i \<in> set (p_Identities p) then Option.bind (ids m i) ?f else ids m i)"
    and vs: "svcs (m\<lparr>m_Identities := is', m_Services := vs\<rparr>) = (\<lambda>s. if s \<in> set xs
      then map_option (\<lambda>v. v\<lparr>s_servicePolicies := change_member add pid (s_servicePolicies v)\<rparr>) (svcs m s) else svcs m s)"
    using change_services_eval [OF _ dist p1_def [unfolded ss_def], of m index] f pok unfolding pid policy_ok_def by blast
  let ?m1 = "m\<lparr>m_Identities := is', m_Services := vs\<rparr>"
  have mem: "\<exists>v. svcs ?m1 s = Some v \<and> pid \<in> set (s_servicePolicies v)" if "s \<in> set (p_Services (pcore p1))" for s
    using model_okD(2) [OF ok' T] that wf ss(1) unfolding vs by (auto simp: members_ok_def p1_def split: if_splits)
  have "model_ok (map_of is') ((pols m)(pid \<mapsto> pcore p1)) (svcs ?m1) (chks m) \<and> (\<forall>i. map_option i_Data (map_of is' i) = map_option i_Data (ids m i))"
  proof (rule model_ok_change [OF ok' T p1, where f = ?f])
    show "p_Identities (pcore p1) = p_Identities (pcore p)" by (simp add: p1_def)
    show "map_of is' = (\<lambda>i. if i \<in> set (p_Identities (pcore p)) then Option.bind (ids m i) ?f else ids m i)" using is' by simp
    show "\<exists>v'. svcs ?m1 s = Some v' \<and> set (s_servicePolicies v) - {pid} \<subseteq> set (s_servicePolicies v')" if "svcs m s = Some v" for s v
      using that by (auto simp: vs)
    show "\<exists>v. chks m c = Some v \<and> pid \<in> set (k_servicePolicies v)" if "c \<in> set (p_PostureChecks (pcore p1))" for c
      using that model_okD(2) [OF ok' T] by (simp add: members_ok_def p1_def)
  qed (use f mem in auto)
  moreover have "index_ok (svcs ?m1) (chks m)" using rdm_okD(2) [OF ok] unfolding vs index_ok_def by (auto simp: distinct_change_member)
  moreover have "map_option s_Data (svcs ?m1 s) = map_option s_Data (svcs m s)" for s by (simp add: vs option.map_comp comp_def)
  ultimately show ?thesis using ev ss(1)
    by (intro exI [of _ ?m1] exI [of _ ss]) (simp add: policy_changed_def rdm_ok_def same_data_def idata_def sdata_def kdata_def rdm_update_views p1_def)
qed


definition checks_step :: "bool \<Rightarrow> service_policy \<Rightarrow> string list \<Rightarrow> u64 \<Rightarrow> identity \<Rightarrow> identity option" where
  "checks_step add p xs index d = (if p_Services p \<noteq> [] then postureChecksChangedInPolicy add p xs index d else Some d)"

lemma change_posture_checks_eval:
  assumes d: "distinct (p_Identities p)" "distinct xs" and p1: "p1 = p\<lparr>p_PostureChecks := foldl (\<lambda>xs x. change_member add x xs) (p_PostureChecks p) xs\<rparr>"
    and f: "\<And>i d. i \<in> set (p_Identities p) \<Longrightarrow> ids m i = Some d \<Longrightarrow> \<exists>d'. checks_step add p xs index d = Some d'"
  shows "\<exists>is' ks. change_posture_checks add index xs (p, m) = Some (p1, m\<lparr>m_Identities := is', m_PostureChecks := ks\<rparr>) \<and>
    map_of is' = (\<lambda>i. if i \<in> set (p_Identities p) then Option.bind (ids m i) (checks_step add p xs index) else ids m i) \<and>
    chks (m\<lparr>m_Identities := is', m_PostureChecks := ks\<rparr>) = (\<lambda>c. if c \<in> set xs
      then map_option (\<lambda>v. v\<lparr>k_servicePolicies := change_member add (pol_Id (p_Data p)) (k_servicePolicies v)\<rparr>) (chks m c) else chks m c)"
proof -
  let ?v = "\<lambda>v. v\<lparr>k_servicePolicies := change_member add (pol_Id (p_Data p)) (k_servicePolicies v)\<rparr>"
  have "\<exists>is'. (if p_Services p \<noteq> []
      then ofold (\<lambda>i. withLockedIdentity i (postureChecksChangedInPolicy add p xs index)) (p_Identities p) m else Some m) = Some (m\<lparr>m_Identities := is'\<rparr>) \<and>
    map_of is' = (\<lambda>i. if i \<in> set (p_Identities p) then Option.bind (ids m i) (checks_step add p xs index) else ids m i)"
  proof (cases "p_Services p = []")
    case True
    then have st: "checks_step add p xs index = Some" by (simp add: checks_step_def fun_eq_iff)
    show ?thesis unfolding st using True by (intro exI [of _ "m_Identities m"]) (auto simp: ids_def fun_eq_iff)
  next
    case False
    then have st: "checks_step add p xs index = postureChecksChangedInPolicy add p xs index" by (simp add: checks_step_def fun_eq_iff)
    show ?thesis unfolding st using False ofold_withLockedIdentity [OF d(1), of m "checks_step add p xs index"] f unfolding st by simp
  qed
  then obtain is' where is': "(if p_Services p \<noteq> []
      then ofold (\<lambda>i. withLockedIdentity i (postureChecksChangedInPolicy add p xs index)) (p_Identities p) m else Some m) = Some (m\<lparr>m_Identities := is'\<rparr>)"
    "map_of is' = (\<lambda>i. if i \<in> set (p_Identities p) then Option.bind (ids m i) (checks_step add p xs index) else ids m i)" by blast
  obtain ks where ks: "foldl (\<lambda>m i. withPostureCheck i ?v m) (m\<lparr>m_Identities := is'\<rparr>) xs = m\<lparr>m_Identities := is', m_PostureChecks := ks\<rparr>"
    "chks (m\<lparr>m_Identities := is', m_PostureChecks := ks\<rparr>) = (\<lambda>c. if c \<in> set xs then map_option ?v (chks m c) else chks m c)"
    using fold_withPostureCheck [of ?v xs "m\<lparr>m_Identities := is'\<rparr>"] d unfolding rdm_update_views(4) by auto
  have "change_posture_checks add index xs (p, m) = Some (p1, m\<lparr>m_Identities := is', m_PostureChecks := ks\<rparr>)"
    unfolding change_posture_checks_def prod.case is'(1) by (simp add: ks(1) p1)
  with is'(2) ks(2) show ?thesis by blast
qed

lemma change_posture_checks_result:
  assumes ok: "rdm_ok m" and p: "map_of (m_ServicePolicies m) pid = Some p" and dist: "distinct xs"
    and wf: "if add then set xs \<inter> set (p_PostureChecks p) = {} \<and> (\<forall>c \<in> set xs. chks m c \<noteq> None) else set xs \<subseteq> set (p_PostureChecks p)"
  shows "\<exists>m1 ks. change_posture_checks add index xs (p, m) = Some (p\<lparr>p_PostureChecks := ks\<rparr>, m1) \<and>
    set ks = (if add then set (p_PostureChecks p) \<union> set xs else set (p_PostureChecks p) - set xs) \<and>
    policy_changed pid (pcore (p\<lparr>p_PostureChecks := ks\<rparr>)) m (store_policy pid (p\<lparr>p_PostureChecks := ks\<rparr>) m1)"
proof -
  note ok' = rdm_okD(1) [OF ok]
  have T: "pols m pid = Some (pcore p)" using p by (simp add: pols_def)
  have pok: "policy_ok pid p" using model_okD(1) [OF ok' T] by simp
  then have pid: "pol_Id (p_Data p) = pid" by (simp add: policy_ok_def)
  define ks where "ks = foldl (\<lambda>xs x. change_member add x xs) (p_PostureChecks p) xs"
  define p1 where "p1 = p\<lparr>p_PostureChecks := ks\<rparr>"
  have ks: "set ks = (if add then set (p_PostureChecks p) \<union> set xs else set (p_PostureChecks p) - set xs)" "distinct ks"
    using pok by (simp_all add: ks_def fold_change_member policy_ok_def)
  have p1: "policy_ok pid (pcore p1)" using pok ks(2) by (simp add: p1_def policy_ok_def IsDial_def IsBind_def)
  let ?f = "checks_step add p xs index"
  have f: "\<exists>d'. ?f d = Some d' \<and> consistent ((pols m)(pid \<mapsto> pcore p1)) d' \<and> set (i_ServicePolicies d') = set (i_ServicePolicies d) \<and> i_Data d' = i_Data d"
    if "i \<in> set (p_Identities p)" "ids m i = Some d" for i d
  proof -
    have d: "consistent (pols m) d" "pid \<in> set (i_ServicePolicies d)" using policy_members(1) [OF ok' T, of i] that by auto
    then have c: "consistent ((pols m)(pid \<mapsto> p)) d" using consistent_pcore [of "pols m" pid p d] T by (simp add: fun_upd_idem)
    have w: "if add then set xs \<inter> set (p_PostureChecks p) = {} else set xs \<subseteq> set (p_PostureChecks p)" using wf by (simp split: if_splits)
    show ?thesis
      using change_posture_checks_consistent [where p = p, unfolded pid, OF c _ d(2) dist w p1_def ks(1), of index]
      by (fastforce simp: consistent_pcore checks_step_def)
  qed
  obtain is' cs where ev: "change_posture_checks add index xs (p, m) = Some (p1, m\<lparr>m_Identities := is', m_PostureChecks := cs\<rparr>)"
    and is': "map_of is' = (\<lambda>i. if i \<in> set (p_Identities p) then Option.bind (ids m i) ?f else ids m i)"
    and cs: "chks (m\<lparr>m_Identities := is', m_PostureChecks := cs\<rparr>) = (\<lambda>c. if c \<in> set xs
      then map_option (\<lambda>v. v\<lparr>k_servicePolicies := change_member add pid (k_servicePolicies v)\<rparr>) (chks m c) else chks m c)"
    using change_posture_checks_eval [OF _ dist p1_def [unfolded ks_def], of m index] f pok unfolding pid policy_ok_def by blast
  let ?m1 = "m\<lparr>m_Identities := is', m_PostureChecks := cs\<rparr>"
  have mem: "\<exists>v. chks ?m1 c = Some v \<and> pid \<in> set (k_servicePolicies v)" if "c \<in> set (p_PostureChecks (pcore p1))" for c
    using model_okD(2) [OF ok' T] that wf ks(1) unfolding cs by (auto simp: members_ok_def p1_def split: if_splits)
  have "model_ok (map_of is') ((pols m)(pid \<mapsto> pcore p1)) (svcs m) (chks ?m1) \<and> (\<forall>i. map_option i_Data (map_of is' i) = map_option i_Data (ids m i))"
  proof (rule model_ok_change [OF ok' T p1, where f = ?f])
    show "p_Identities (pcore p1) = p_Identities (pcore p)" by (simp add: p1_def)
    show "map_of is' = (\<lambda>i. if i \<in> set (p_Identities (pcore p)) then Option.bind (ids m i) ?f else ids m i)" using is' by simp
    show "\<exists>v'. chks ?m1 c = Some v' \<and> set (k_servicePolicies v) - {pid} \<subseteq> set (k_servicePolicies v')" if "chks m c = Some v" for c v
      using that by (auto simp: cs)
    show "\<exists>v. svcs m s = Some v \<and> pid \<in> set (s_servicePolicies v)" if "s \<in> set (p_Services (pcore p1))" for s
      using that model_okD(2) [OF ok' T] by (simp add: members_ok_def p1_def)
  qed (use f mem in auto)
  moreover have "index_ok (svcs m) (chks ?m1)" using rdm_okD(2) [OF ok] unfolding cs index_ok_def by (auto simp: distinct_change_member)
  moreover have "map_option k_Data (chks ?m1 c) = map_option k_Data (chks m c)" for c by (simp add: cs option.map_comp comp_def)
  ultimately show ?thesis using ev ks(1)
    by (intro exI [of _ ?m1] exI [of _ ks]) (simp add: policy_changed_def rdm_ok_def same_data_def idata_def sdata_def kdata_def rdm_update_views p1_def)
qed

lemma fold_updateServiceCount_policies [simp]:
  "i_ServicePolicies (foldl (\<lambda>d s. updateServiceCount p index add s d) d ss) = i_ServicePolicies d"
  by (induction ss arbitrary: d) simp_all

lemma change_policy_policies [simp]: "i_ServicePolicies (change_policy add p index ps d) = ps"
  by (simp add: change_policy_def Let_def)

lemma member_change_idem:
  "addedToPolicy p index (addedToPolicy p index d) = addedToPolicy p index d"
  "removedFromPolicy p index (removedFromPolicy p index d) = removedFromPolicy p index d"
  by (simp_all add: addedToPolicy_change removedFromPolicy_change)

lemma member_change_identities [simp]:
  "addedToPolicy (p\<lparr>p_Identities := q\<rparr>) = addedToPolicy p" "removedFromPolicy (p\<lparr>p_Identities := q\<rparr>) = removedFromPolicy p"
proof -
  have "same_grants (p\<lparr>p_Identities := q\<rparr>) p" by (simp add: same_grants_def)
  then show "addedToPolicy (p\<lparr>p_Identities := q\<rparr>) = addedToPolicy p" "removedFromPolicy (p\<lparr>p_Identities := q\<rparr>) = removedFromPolicy p"
    by (simp_all add: fun_eq_iff addedToPolicy_change removedFromPolicy_change change_policy_same_grants)
qed

definition member_step :: "bool \<Rightarrow> service_policy \<Rightarrow> u64 \<Rightarrow> identity \<Rightarrow> identity" where
  "member_step add p index = (if add then addedToPolicy p index else removedFromPolicy p index)"

lemma member_step_idem: "member_step add p index (member_step add p index d) = member_step add p index d"
  by (simp add: member_step_def member_change_idem)

lemma change_identities_eval:
  "\<exists>is' qs. change_identities add index xs (p, m) = (p\<lparr>p_Identities := qs\<rparr>, m\<lparr>m_Identities := is'\<rparr>) \<and>
    map_of is' = (\<lambda>i. if i \<in> set xs then map_option (member_step add p index) (ids m i) else ids m i) \<and>
    set qs = (if add then set (p_Identities p) \<union> (set xs \<inter> dom (ids m)) else set (p_Identities p) - (set xs \<inter> dom (ids m))) \<and>
    (distinct (p_Identities p) \<longrightarrow> distinct qs)"
proof (induction xs arbitrary: p m)
  case Nil
  show ?case by (rule exI [of _ "m_Identities m"], rule exI [of _ "p_Identities p"]) (simp add: ids_def)
next
  case (Cons x xs)
  show ?case
  proof (cases "ids m x")
    case None
    obtain is' qs where IH: "change_identities add index xs (p, m) = (p\<lparr>p_Identities := qs\<rparr>, m\<lparr>m_Identities := is'\<rparr>)"
      "map_of is' = (\<lambda>i. if i \<in> set xs then map_option (member_step add p index) (ids m i) else ids m i)"
      "set qs = (if add then set (p_Identities p) \<union> (set xs \<inter> dom (ids m)) else set (p_Identities p) - (set xs \<inter> dom (ids m)))"
      "distinct (p_Identities p) \<longrightarrow> distinct qs" using Cons.IH [of p m] by blast
    have "x \<notin> dom (ids m)" using None by blast
    then show ?thesis using IH None by (intro exI [of _ is'] exI [of _ qs]) (auto simp: ids_def [symmetric])
  next
    case (Some d)
    let ?p = "p\<lparr>p_Identities := change_member add x (p_Identities p)\<rparr>"
    let ?m = "m\<lparr>m_Identities := AList.update x (member_step add p index d) (m_Identities m)\<rparr>"
    have ids': "ids ?m = (ids m)(x \<mapsto> member_step add p index d)" by (simp add: ids_def update_conv')
    have ms: "member_step add ?p index = member_step add p index" by (simp add: member_step_def)
    obtain is' qs where IH: "change_identities add index xs (?p, ?m) = (?p\<lparr>p_Identities := qs\<rparr>, ?m\<lparr>m_Identities := is'\<rparr>)"
      "map_of is' = (\<lambda>i. if i \<in> set xs then map_option (member_step add ?p index) (ids ?m i) else ids ?m i)"
      "set qs = (if add then set (p_Identities ?p) \<union> (set xs \<inter> dom (ids ?m)) else set (p_Identities ?p) - (set xs \<inter> dom (ids ?m)))"
      "distinct (p_Identities ?p) \<longrightarrow> distinct qs" using Cons.IH [of ?p ?m] by blast
    have "change_identities add index (x # xs) (p, m) = change_identities add index xs (?p, ?m)"
      using Some by (simp add: ids_def Let_def member_step_def)
    moreover have "map_of is' = (\<lambda>i. if i \<in> set (x # xs) then map_option (member_step add p index) (ids m i) else ids m i)"
      unfolding IH(2) ms ids' using Some by (auto simp: fun_eq_iff member_step_idem)
    moreover have "set qs = (if add then set (p_Identities p) \<union> (set (x # xs) \<inter> dom (ids m)) else set (p_Identities p) - (set (x # xs) \<inter> dom (ids m)))"
      unfolding IH(3) ids' using Some by auto
    moreover have "distinct (p_Identities p) \<longrightarrow> distinct qs" using IH(4) by (auto simp: change_member_def)
    ultimately show ?thesis using IH(1) by (intro exI [of _ is'] exI [of _ qs]) simp
  qed
qed

lemma change_identities_result:
  assumes ok: "rdm_ok m" and p: "map_of (m_ServicePolicies m) pid = Some p"
  shows "\<exists>m1 qs. change_identities add index xs (p, m) = (p\<lparr>p_Identities := qs\<rparr>, m1) \<and>
    set qs = (if add then set (p_Identities p) \<union> (set xs \<inter> dom (ids m)) else set (p_Identities p) - (set xs \<inter> dom (ids m))) \<and>
    policy_changed pid (pcore (p\<lparr>p_Identities := qs\<rparr>)) m (store_policy pid (p\<lparr>p_Identities := qs\<rparr>) m1)"
proof -
  note ok' = rdm_okD(1) [OF ok]
  have T: "pols m pid = Some (pcore p)" using p by (simp add: pols_def)
  have pok: "policy_ok pid p" using model_okD(1) [OF ok' T] by simp
  then have pid: "pol_Id (p_Data p) = pid" by (simp add: policy_ok_def)
  obtain is' qs where ev: "change_identities add index xs (p, m) = (p\<lparr>p_Identities := qs\<rparr>, m\<lparr>m_Identities := is'\<rparr>)"
    and is': "map_of is' = (\<lambda>i. if i \<in> set xs then map_option (member_step add p index) (ids m i) else ids m i)"
    and qs: "set qs = (if add then set (p_Identities p) \<union> (set xs \<inter> dom (ids m)) else set (p_Identities p) - (set xs \<inter> dom (ids m)))" "distinct qs"
    using change_identities_eval [of add index xs p m] pok by (auto simp: policy_ok_def)
  let ?p1 = "pcore (p\<lparr>p_Identities := qs\<rparr>)" let ?T = "(pols m)(pid \<mapsto> ?p1)"
  have step: "consistent (pols m) (member_step add p index d)"
    "set (i_ServicePolicies (member_step add p index d)) = (if add then insert pid (set (i_ServicePolicies d)) else set (i_ServicePolicies d) - {pid})"
    "i_Data (member_step add p index d) = i_Data d" if "ids m i = Some d" for i d
    using addedToPolicy_consistent [of "pols m" d p "pcore p" index] removedFromPolicy_consistent [of "pols m" d p "pcore p" index]
      model_okD(3) [OF ok' that] T pok pid by (simp_all add: member_step_def identity_ok_def same_grants_pcore policy_ok_def)
  have data: "map_option i_Data (map_of is' i) = map_option i_Data (ids m i)" for i
    unfolding is' using step(3) [of i] by (cases "ids m i") simp_all
  have dom: "map_of is' i = None \<longleftrightarrow> ids m i = None" for i using data [of i] by (metis option.map_disc_iff)
  have con: "consistent ?T d" if "consistent (pols m) d" for d
    using consistent_same_grants [OF that T, of ?p1] by (simp add: same_grants_def)
  have "model_ok (map_of is') ?T (svcs m) (chks m)"
  proof (rule model_okI)
    fix q Q assume q: "?T q = Some Q"
    show "policy_ok q Q" using q pok qs(2) model_okD(1) [OF ok'] by (cases "q = pid") (auto simp: policy_ok_def IsDial_def IsBind_def)
    show "members_ok (map_of is') (svcs m) (chks m) q Q"
      using q model_okD(2) [OF ok' T] model_okD(2) [OF ok'] qs(1) by (cases "q = pid") (auto simp: members_ok_def dom split: if_splits)
  next
    fix i d assume d: "map_of is' i = Some d"
    then obtain d0 where d0: "ids m i = Some d0" "d = (if i \<in> set xs then member_step add p index d0 else d0)" unfolding is' by (auto split: if_splits)
    have "\<forall>q. q \<in> set (i_ServicePolicies d) \<longleftrightarrow> (\<exists>Q. ?T q = Some Q \<and> i \<in> set (p_Identities Q))"
      using model_okD(3) [OF ok' d0(1)] step(2) [OF d0(1)] d0 T qs(1) by (auto simp: identity_ok_def)
    then show "identity_ok ?T i d" using con step [OF d0(1)] d0 model_okD(3) [OF ok' d0(1)] by (auto simp: identity_ok_def)
  qed
  then show ?thesis using ev qs(1) data rdm_okD(2) [OF ok]
    by (intro exI [of _ "m\<lparr>m_Identities := is'\<rparr>"] exI [of _ qs])
      (simp add: policy_changed_def rdm_ok_def same_data_def idata_def sdata_def kdata_def rdm_update_views)
qed

section \<open>The handler of policy changes\<close>

lemma change_stored:
  assumes "policy_changed pid (pcore p1) m (store_policy pid p1 m1)" and "pcore p' = pcore p1"
    and "view m' = view (store_policy pid p' m1)"
  shows "policy_changed pid (pcore p1) m m'"
proof (rule policy_changed_view [OF assms(1)])
  have "view (store_policy pid p' m1) = view (store_policy pid p1 m1)" using assms(2) by (simp add: view_iff)
  then show "view m' = view (store_policy pid p1 m1)" using assms(3) by simp
qed

text \<open>What the router knows of a policy, as a policy of the specification.\<close>

definition policy_of :: "service_policy \<Rightarrow> policy_spec" where
  "policy_of P = \<lparr>ps_Policy = p_Data P, ps_Services = set (p_Services P), ps_PostureChecks = set (p_PostureChecks P),
     ps_Identities = set (p_Identities P)\<rparr>"

lemma policy_of_pcore [simp]: "policy_of (pcore P) = policy_of P"
  by (simp add: policy_of_def)

definition change_ok :: "('k, 's) rdm \<Rightarrow> service_policy \<Rightarrow> ds_policy_change \<Rightarrow> bool" where
  "change_ok m P c \<longleftrightarrow> distinct (pc_RelatedEntityIds c) \<and>
     (case pc_RelatedEntityType c of
        RelatedIdentity \<Rightarrow> \<forall>i \<in> set (pc_RelatedEntityIds c). ids m i \<noteq> None
      | RelatedService \<Rightarrow> if pc_Add c then set (pc_RelatedEntityIds c) \<inter> set (p_Services P) = {} \<and> (\<forall>s \<in> set (pc_RelatedEntityIds c). svcs m s \<noteq> None)
          else set (pc_RelatedEntityIds c) \<subseteq> set (p_Services P)
      | RelatedPostureCheck \<Rightarrow> if pc_Add c then set (pc_RelatedEntityIds c) \<inter> set (p_PostureChecks P) = {} \<and> (\<forall>s \<in> set (pc_RelatedEntityIds c). chks m s \<noteq> None)
          else set (pc_RelatedEntityIds c) \<subseteq> set (p_PostureChecks P)
      | InvalidRelatedType \<Rightarrow> True)"

lemma HandleServicePolicyChange_result:
  assumes ok: "rdm_ok m" and T: "pols m (pc_PolicyId c) = Some P" and wf: "change_ok m P c"
  shows "\<exists>m' P'. HandleServicePolicyChange index c m = Some m' \<and> policy_changed (pc_PolicyId c) P' m m' \<and>
    policy_of P' = member_change (pc_RelatedEntityType c) (pc_Add c) (set (pc_RelatedEntityIds c)) (policy_of P)"
proof -
  let ?pid = "pc_PolicyId c" and ?xs = "pc_RelatedEntityIds c" and ?add = "pc_Add c"
  obtain p where p: "map_of (m_ServicePolicies m) ?pid = Some p" "P = pcore p" using T by (auto simp: pols_def)
  note H = HandleServicePolicyChange_def Let_def p(1) option.case
  have fin: "\<exists>m' P'. (let m2 = store_policy ?pid p' m1; m3 = foldl (\<lambda>m i. NotifyIdentityChange i m) m2 (p_Identities p')
        in Some (if b then foldl (\<lambda>m i. NotifyIdentityChange i m) m3 ?xs else m3)) = Some m' \<and> policy_changed ?pid P' m m' \<and> policy_of P' = Q"
    if "policy_changed ?pid (pcore p1) m (store_policy ?pid p1 m1)" "policy_of p1 = Q" "pcore p' = pcore p1" for p1 p' m1 Q b
    using change_stored [OF that(1,3)] that(2) by (cases b) (force simp: Let_def intro!: exI [of _ "pcore p1"])+
  note fin = fin [unfolded Let_def]
  show ?thesis
  proof (cases "pc_RelatedEntityType c")
    case RelatedIdentity
    then obtain m1 qs where r: "change_identities ?add index ?xs (p, m) = (p\<lparr>p_Identities := qs\<rparr>, m1)"
      "set qs = (if ?add then set (p_Identities p) \<union> (set ?xs \<inter> dom (ids m)) else set (p_Identities p) - (set ?xs \<inter> dom (ids m)))"
      "policy_changed ?pid (pcore (p\<lparr>p_Identities := qs\<rparr>)) m (store_policy ?pid (p\<lparr>p_Identities := qs\<rparr>) m1)"
      using change_identities_result [OF ok p(1), of ?add index ?xs] by blast
    have "set ?xs \<inter> dom (ids m) = set ?xs" using wf RelatedIdentity by (auto simp: change_ok_def)
    then have "policy_of (p\<lparr>p_Identities := qs\<rparr>) = member_change RelatedIdentity ?add (set ?xs) (policy_of P)"
      using r(2) p(2) by (simp add: policy_of_def member_change_def change_set_members_def)
    from fin [OF r(3) this refl, of "\<not> ?add"] show ?thesis
      unfolding H RelatedIdentity related_type.case r(1) prod.case store_policy_def by simp
  next
    case RelatedService
    have w: "distinct ?xs" "if ?add then set ?xs \<inter> set (p_Services p) = {} \<and> (\<forall>s \<in> set ?xs. svcs m s \<noteq> None) else set ?xs \<subseteq> set (p_Services p)"
      using wf RelatedService p(2) by (simp_all add: change_ok_def split: if_splits)
    obtain m1 ss where r: "change_services ?add index ?xs (p, m) = Some (p\<lparr>p_Services := ss\<rparr>, m1)"
      "set ss = (if ?add then set (p_Services p) \<union> set ?xs else set (p_Services p) - set ?xs)"
      "policy_changed ?pid (pcore (p\<lparr>p_Services := ss\<rparr>)) m (store_policy ?pid (p\<lparr>p_Services := ss\<rparr>) m1)"
      using change_services_result [OF ok p(1) w, of index] by blast
    have "policy_of (p\<lparr>p_Services := ss\<rparr>) = member_change RelatedService ?add (set ?xs) (policy_of P)"
      using r(2) p(2) by (simp add: policy_of_def member_change_def change_set_members_def)
    from fin [OF r(3) this, of "p\<lparr>p_Services := ss, p_servicesIndex := index\<rparr>" False] show ?thesis
      unfolding H RelatedService related_type.case r(1) store_policy_def by simp
  next
    case RelatedPostureCheck
    have w: "distinct ?xs" "if ?add then set ?xs \<inter> set (p_PostureChecks p) = {} \<and> (\<forall>s \<in> set ?xs. chks m s \<noteq> None) else set ?xs \<subseteq> set (p_PostureChecks p)"
      using wf RelatedPostureCheck p(2) by (simp_all add: change_ok_def split: if_splits)
    obtain m1 ss where r: "change_posture_checks ?add index ?xs (p, m) = Some (p\<lparr>p_PostureChecks := ss\<rparr>, m1)"
      "set ss = (if ?add then set (p_PostureChecks p) \<union> set ?xs else set (p_PostureChecks p) - set ?xs)"
      "policy_changed ?pid (pcore (p\<lparr>p_PostureChecks := ss\<rparr>)) m (store_policy ?pid (p\<lparr>p_PostureChecks := ss\<rparr>) m1)"
      using change_posture_checks_result [OF ok p(1) w, of index] by blast
    have "policy_of (p\<lparr>p_PostureChecks := ss\<rparr>) = member_change RelatedPostureCheck ?add (set ?xs) (policy_of P)"
      using r(2) p(2) by (simp add: policy_of_def member_change_def change_set_members_def)
    from fin [OF r(3) this, of "p\<lparr>p_PostureChecks := ss, p_postureChecksIndex := index\<rparr>" False] show ?thesis
      unfolding H RelatedPostureCheck related_type.case r(1) store_policy_def by simp
  next
    case InvalidRelatedType
    have "policy_changed ?pid (pcore p) m (store_policy ?pid p m)"
      using ok T p(2) by (simp add: policy_changed_def rdm_ok_def same_data_def idata_def sdata_def kdata_def fun_upd_idem)
    from fin [OF this refl refl, of False] p(2) show ?thesis
      unfolding H InvalidRelatedType related_type.case prod.case store_policy_def by (simp add: member_change_def)
  qed
qed

end
