(* ===== verification/Data_Model_Sync.thy ===== *)
theory Data_Model_Sync
  imports Data_Model_Changes
begin

text \<open>
  Controller and router agree. Every well-formed event keeps the invariant of the router's model, no handler
  panics, and the router's tables change as the specification says. The controller refines the same
  specification, so a router that has handled the same events, or that starts from a snapshot, has the
  same data.
\<close>

section \<open>The router's model as data of the specification\<close>

definition router_spec :: "('k, 's) rdm \<Rightarrow> 'k data_model" where
  "router_spec m = \<lparr>dm_ConfigTypes = (\<lambda>t. map_option t_Data (map_of (m_ConfigTypes m) t)),
     dm_Identities = (\<lambda>i. map_option plain_identity (idata m i)), dm_Services = (\<lambda>s. map_option plain_service (sdata m s)),
     dm_Routers = map_of (m_Routers m), dm_Policies = (\<lambda>p. map_option policy_of (pols m p)), dm_PostureChecks = kdata m,
     dm_PublicKeys = m_PublicKeys m, dm_Revocations = map_of (m_Revocations m), dm_Keys = m_cachedPublicKeys m\<rparr>"

lemma router_spec_simps [simp]:
  "dm_Identities (router_spec m) i = map_option plain_identity (idata m i)" "dm_Services (router_spec m) s = map_option plain_service (sdata m s)"
  "dm_Policies (router_spec m) p = map_option policy_of (pols m p)" "dm_PostureChecks (router_spec m) c = kdata m c"
  by (simp_all add: router_spec_def)

lemma router_spec_same_data:
  assumes "same_data m m'"
  shows "router_spec m' = (router_spec m)\<lparr>dm_Policies := (\<lambda>p. map_option policy_of (pols m' p))\<rparr>"
  using assms by (simp add: router_spec_def same_data_def rest_def fun_eq_iff)

lemma router_spec_policies [simp]: "(router_spec m)\<lparr>dm_Policies := (\<lambda>p. map_option policy_of (pols m p))\<rparr> = router_spec m"
  by (simp add: router_spec_def)

lemma router_spec_view:
  fixes m m' :: "('k, 's) rdm"
  assumes "view m' = view m"
  shows "router_spec m' = router_spec m"
  using router_spec_same_data [OF same_data_view [OF assms]] assms by (simp add: view_iff)

lemma handled_view:
  fixes m1 m' :: "('k, 's) rdm"
  assumes "rdm_ok m1" and "router_spec m1 = A" and "view m' = view m1"
  shows "rdm_ok m' \<and> router_spec m' = A"
  using assms rdm_ok_view router_spec_view by metis

section \<open>Policy changes\<close>

lemma policy_change_step:
  assumes ok: "rdm_ok m" and wf: "change_wf (router_spec m) c"
  shows "\<exists>m'. HandleServicePolicyChange index c m = Some m' \<and> rdm_ok m' \<and> same_data m m' \<and>
    router_spec m' = (router_spec m)\<lparr>dm_Policies := change_step c (dm_Policies (router_spec m))\<rparr>"
proof -
  obtain P where P: "pols m (pc_PolicyId c) = Some P" using wf by (auto simp: change_wf_def split: option.splits)
  have "change_ok m P c"
    using wf P by (cases "pc_RelatedEntityType c") (auto simp: change_wf_def change_ok_def idata_def sdata_def kdata_def policy_of_def split: if_splits)
  from HandleServicePolicyChange_result [OF ok P this] obtain m' P' where
    m': "HandleServicePolicyChange index c m = Some m'" "policy_changed (pc_PolicyId c) P' m m'"
    "policy_of P' = member_change (pc_RelatedEntityType c) (pc_Add c) (set (pc_RelatedEntityIds c)) (policy_of P)" by blast
  then have "(\<lambda>p. map_option policy_of (pols m' p)) = change_step c (dm_Policies (router_spec m))"
    using P by (simp add: policy_changed_def change_step_def fun_eq_iff)
  then show ?thesis using m' router_spec_same_data [of m m'] by (simp add: policy_changed_def)
qed

definition members_of :: "related_type \<Rightarrow> policy_spec \<Rightarrow> string set" where
  "members_of ty Q = (case ty of RelatedIdentity \<Rightarrow> ps_Identities Q | RelatedService \<Rightarrow> ps_Services Q
     | RelatedPostureCheck \<Rightarrow> ps_PostureChecks Q | InvalidRelatedType \<Rightarrow> {})"

lemma member_change_absent: "i \<notin> members_of ty Q \<Longrightarrow> member_change ty False {i} Q = Q"
  by (cases ty) (simp_all add: members_of_def member_change_def change_set_members_def)

lemma member_change_members: "i \<notin> members_of ty (member_change ty False {i} Q)"
  by (cases ty) (simp_all add: members_of_def member_change_def change_set_members_def)

lemma cleanup_wf:
  assumes ok: "rdm_ok m" and P: "pols m p = Some P" and i: "i \<in> members_of ty (policy_of P)"
  shows "change_wf (router_spec m) (cleanup_change ty i p)"
proof -
  have "members_ok (ids m) (svcs m) (chks m) p P" using model_okD(2) [OF rdm_okD(1) [OF ok] P] .
  then show ?thesis using P i
    by (cases ty) (auto simp: change_wf_def cleanup_change_def members_of_def policy_of_def idata_def members_ok_def)
qed

lemma change_step_cleanup:
  "change_step (cleanup_change ty i p) m = m(p := map_option (member_change ty False {i}) (m p))"
  by (simp add: change_step_def cleanup_change_def)

lemma cleanup_fold:
  assumes "rdm_ok m" and "distinct ps" and "\<forall>p \<in> set ps. \<exists>P. pols m p = Some P \<and> i \<in> members_of ty (policy_of P)"
  shows "\<exists>m'. ofold (HandleServicePolicyChange index) (map (cleanup_change ty i) ps) m = Some m' \<and> rdm_ok m' \<and> same_data m m' \<and>
    router_spec m' = (router_spec m)\<lparr>dm_Policies := (\<lambda>p. if p \<in> set ps then map_option (member_change ty False {i}) (dm_Policies (router_spec m) p)
      else dm_Policies (router_spec m) p)\<rparr>"
  using assms
proof (induction ps arbitrary: m)
  case Nil
  then show ?case by (simp add: same_data_def)
next
  case (Cons p ps)
  then obtain P where P: "pols m p = Some P" "i \<in> members_of ty (policy_of P)" by auto
  obtain m1 where m1: "HandleServicePolicyChange index (cleanup_change ty i p) m = Some m1" "rdm_ok m1" "same_data m m1"
    "router_spec m1 = (router_spec m)\<lparr>dm_Policies := (dm_Policies (router_spec m))(p := map_option (member_change ty False {i}) (dm_Policies (router_spec m) p))\<rparr>"
    using policy_change_step [OF Cons.prems(1) cleanup_wf [OF Cons.prems(1) P]] unfolding change_step_cleanup by blast
  have q1: "map_option policy_of (pols m1 q) = map_option policy_of (pols m q)" if "q \<in> set ps" for q
  proof -
    have "q \<noteq> p" using that Cons.prems(2) by auto
    then show ?thesis using arg_cong [OF m1(4), of "\<lambda>A. dm_Policies A q"] by simp
  qed
  have "\<exists>P. pols m1 q = Some P \<and> i \<in> members_of ty (policy_of P)" if q: "q \<in> set ps" for q
  proof -
    obtain Q where "pols m q = Some Q" "i \<in> members_of ty (policy_of Q)" using Cons.prems(3) q by auto
    with q1 [OF q] show ?thesis by (cases "pols m1 q") auto
  qed
  then obtain m' where m': "ofold (HandleServicePolicyChange index) (map (cleanup_change ty i) ps) m1 = Some m'" "rdm_ok m'" "same_data m1 m'"
    "router_spec m' = (router_spec m1)\<lparr>dm_Policies := (\<lambda>p. if p \<in> set ps then map_option (member_change ty False {i}) (dm_Policies (router_spec m1) p)
      else dm_Policies (router_spec m1) p)\<rparr>"
    using Cons.IH [OF m1(2)] Cons.prems(2) by auto
  have "router_spec m' = (router_spec m)\<lparr>dm_Policies := (\<lambda>q. if q \<in> set (p # ps) then map_option (member_change ty False {i}) (dm_Policies (router_spec m) q)
      else dm_Policies (router_spec m) q)\<rparr>"
    unfolding m'(4) m1(4) using Cons.prems(2) by (simp add: fun_eq_iff)
  then show ?case using m1(1) m'(1,2) same_data_trans [OF m1(3) m'(3)] by simp
qed


lemma cleanup_policies_step:
  fixes m m0 :: "('k, 's) rdm"
  assumes ok: "rdm_ok m" and v: "view m0 = view m" and d: "distinct policies" and f: "\<And>P. set (f P) = members_of ty (policy_of P)"
    and cover: "\<And>p P. pols m p = Some P \<Longrightarrow> i \<in> members_of ty (policy_of P) \<Longrightarrow> p \<in> set policies"
  shows "\<exists>m'. cleanup_policies index ty f i policies m0 m = Some m' \<and> rdm_ok m' \<and> same_data m m' \<and>
    router_spec m' = (router_spec m)\<lparr>dm_Policies := forget Delete ty i (dm_Policies (router_spec m))\<rparr>"
proof -
  define C where "C = (\<lambda>p. case map_of (m_ServicePolicies m0) p of Some w \<Rightarrow> i \<in> set (f w) | None \<Rightarrow> False)"
  let ?ps = "filter C policies"
  have p0: "pols m0 = pols m" using v by (simp add: view_iff)
  have c: "C p \<longleftrightarrow> (\<exists>P. pols m p = Some P \<and> i \<in> members_of ty (policy_of P))" for p
    unfolding p0 [symmetric] C_def by (auto simp: pols_def f split: option.split)
  obtain m' where m': "ofold (HandleServicePolicyChange index) (map (cleanup_change ty i) ?ps) m = Some m'" "rdm_ok m'" "same_data m m'"
    "router_spec m' = (router_spec m)\<lparr>dm_Policies := (\<lambda>p. if p \<in> set ?ps then map_option (member_change ty False {i}) (dm_Policies (router_spec m) p)
      else dm_Policies (router_spec m) p)\<rparr>"
    using cleanup_fold [OF ok, of ?ps i ty index] d c by (elim meta_impE) (simp, simp, blast)
  have "(if p \<in> set ?ps then map_option (member_change ty False {i}) (dm_Policies (router_spec m) p) else dm_Policies (router_spec m) p) =
      map_option (member_change ty False {i}) (dm_Policies (router_spec m) p)" for p
  proof (cases "p \<in> set ?ps \<or> pols m p = None")
    case False
    then obtain P where P: "pols m p = Some P" by auto
    then have "i \<notin> members_of ty (policy_of P)" using False c [of p] cover [OF P] by auto
    then show ?thesis using P by (simp add: member_change_absent)
  qed auto
  then have "router_spec m' = (router_spec m)\<lparr>dm_Policies := forget Delete ty i (dm_Policies (router_spec m))\<rparr>"
    unfolding m'(4) by (simp add: forget_def)
  moreover have "cleanup_policies index ty f i policies m0 m = Some m'" using m'(1) by (simp add: cleanup_policies_def C_def)
  ultimately show ?thesis using m'(2,3) by blast
qed

lemma forgotten_absent:
  assumes "router_spec m' = A\<lparr>dm_Policies := forget Delete ty i (dm_Policies A)\<rparr>" and "pols m' p = Some P"
  shows "i \<notin> members_of ty (policy_of P)"
  using arg_cong [OF assms(1), of "\<lambda>A. dm_Policies A p"] assms(2)
  by (cases "dm_Policies A p") (simp_all add: forget_def member_change_members)

section \<open>Identities\<close>

lemma rdm_ok_set_identity:
  assumes "rdm_ok m" and "identity_ok (pols m) i d"
  shows "rdm_ok (m\<lparr>m_Identities := AList.update i d (m_Identities m)\<rparr>)"
proof -
  have "ids (m\<lparr>m_Identities := AList.update i d (m_Identities m)\<rparr>) = (ids m)(i \<mapsto> d)" by (simp add: ids_def update_conv')
  moreover have "model_ok ((ids m)(i \<mapsto> d)) (pols m) (svcs m) (chks m)"
    using rdm_okD(1) [OF assms(1)] assms(2) by (fastforce simp: model_ok_def members_ok_def)
  ultimately show ?thesis using rdm_okD(2) [OF assms(1)] by (simp add: rdm_ok_def rdm_update_views)
qed

lemma rdm_ok_delete_identity:
  assumes "rdm_ok m" and "\<And>p P. pols m p = Some P \<Longrightarrow> i \<notin> set (p_Identities P)"
  shows "rdm_ok (m\<lparr>m_Identities := AList.delete i (m_Identities m)\<rparr>)"
proof -
  have "ids (m\<lparr>m_Identities := AList.delete i (m_Identities m)\<rparr>) = (ids m)(i := None)" by (simp add: ids_def delete_conv')
  moreover have "model_ok ((ids m)(i := None)) (pols m) (svcs m) (chks m)"
    using rdm_okD(1) [OF assms(1)] assms(2) by (fastforce simp: model_ok_def members_ok_def)
  ultimately show ?thesis using rdm_okD(2) [OF assms(1)] by (simp add: rdm_ok_def rdm_update_views)
qed

lemma router_spec_set_identity:
  "router_spec (m\<lparr>m_Identities := AList.update i d (m_Identities m)\<rparr>) =
     (router_spec m)\<lparr>dm_Identities := (dm_Identities (router_spec m))(i \<mapsto> plain_identity (i_Data d))\<rparr>"
  "router_spec (m\<lparr>m_Identities := AList.delete i (m_Identities m)\<rparr>) = (router_spec m)\<lparr>dm_Identities := (dm_Identities (router_spec m))(i := None)\<rparr>"
  by (simp_all add: router_spec_def idata_def sdata_def kdata_def rdm_update_views update_conv' delete_conv' ids_def fun_eq_iff)

lemma consistent_fields:
  assumes "i_ServicePolicies d' = i_ServicePolicies d" and "i_ServiceAccess d' = i_ServiceAccess d"
    and "i_PostureChecks d' = i_PostureChecks d" and "i_tracking d' = i_tracking d"
  shows "consistent T d' = consistent T d"
  using assms by (simp add: consistent_def checks_consistent_def access_consistent_def access_entries_def access_valid_def access_count_def use_count_def)

lemma consistent_new: "consistent T \<lparr>i_Data = v, i_ServicePolicies = [], i_ServiceAccess = [], i_PostureChecks = [], i_identityIndex = x, i_tracking = b\<rparr>"
  by (simp add: consistent_def checks_consistent_def access_consistent_def access_entries_def access_valid_def access_count_def use_count_def)

lemma no_policy_of_missing:
  assumes "rdm_ok m"
  shows "ids m i = None \<Longrightarrow> pols m p = Some P \<Longrightarrow> i \<notin> set (p_Identities P)"
    "svcs m s = None \<Longrightarrow> pols m p = Some P \<Longrightarrow> s \<notin> set (p_Services P)"
  using model_okD(2) [OF rdm_okD(1) [OF assms]] by (fastforce simp: members_ok_def)+

lemma identity_delete_step:
  assumes ok: "rdm_ok m"
  shows "\<exists>m'. HandleIdentityEvent index Delete v m = Some m' \<and> rdm_ok m' \<and>
    router_spec m' = (router_spec m)\<lparr>dm_Identities := (dm_Identities (router_spec m))(id_Id v := None),
      dm_Policies := forget Delete RelatedIdentity (id_Id v) (dm_Policies (router_spec m))\<rparr>"
proof -
  let ?i = "id_Id v" let ?F = "forget Delete RelatedIdentity ?i (dm_Policies (router_spec m))"
  have "\<exists>m1. (case map_of (m_Identities m) ?i of None \<Rightarrow> Some m
      | Some d \<Rightarrow> cleanup_policies index RelatedIdentity p_Identities ?i (i_ServicePolicies d) m (removeConfigReferences (i_Data d) m)) = Some m1 \<and>
    rdm_ok m1 \<and> router_spec m1 = (router_spec m)\<lparr>dm_Policies := ?F\<rparr>"
  proof (cases "map_of (m_Identities m) ?i")
    case None
    have "map_option (member_change RelatedIdentity False {?i}) (map_option policy_of (pols m p)) = map_option policy_of (pols m p)" for p
      using no_policy_of_missing(1) [OF ok, of ?i p] None
      by (cases "pols m p") (simp_all add: ids_def policy_of_def member_change_absent members_of_def)
    then have "?F = (\<lambda>p. map_option policy_of (pols m p))" by (simp add: forget_def fun_eq_iff)
    then show ?thesis using None ok by simp
  next
    case (Some d)
    let ?m = "removeConfigReferences (i_Data d) m"
    have v: "view ?m = view m" by simp
    then have pols: "pols ?m = pols m" unfolding view_iff by blast
    have "identity_ok (pols m) ?i d" using model_okD(3) [OF rdm_okD(1) [OF ok]] Some by (simp add: ids_def)
    then have "distinct (i_ServicePolicies d)" "\<And>p P. pols m p = Some P \<Longrightarrow> ?i \<in> set (p_Identities P) \<Longrightarrow> p \<in> set (i_ServicePolicies d)"
      by (auto simp: identity_ok_def consistent_def)
    then have "\<exists>m'. cleanup_policies index RelatedIdentity p_Identities ?i (i_ServicePolicies d) m ?m = Some m' \<and> rdm_ok m' \<and> same_data ?m m' \<and>
        router_spec m' = (router_spec ?m)\<lparr>dm_Policies := forget Delete RelatedIdentity ?i (dm_Policies (router_spec ?m))\<rparr>"
      using v rdm_ok_view [OF v] ok by (intro cleanup_policies_step) (auto simp: members_of_def policy_of_def pols)
    then show ?thesis using Some router_spec_view [OF v] by auto
  qed
  then obtain m1 where m1: "(case map_of (m_Identities m) ?i of None \<Rightarrow> Some m
      | Some d \<Rightarrow> cleanup_policies index RelatedIdentity p_Identities ?i (i_ServicePolicies d) m (removeConfigReferences (i_Data d) m)) = Some m1"
    "rdm_ok m1" "router_spec m1 = (router_spec m)\<lparr>dm_Policies := ?F\<rparr>" by blast
  let ?m = "m1\<lparr>m_Identities := AList.delete ?i (m_Identities m1)\<rparr>"
  have "rdm_ok ?m" using m1(2) forgotten_absent [OF m1(3)] by (intro rdm_ok_delete_identity) (auto simp: members_of_def policy_of_def)
  moreover have "router_spec ?m = (router_spec m)\<lparr>dm_Identities := (dm_Identities (router_spec m))(?i := None), dm_Policies := ?F\<rparr>"
    unfolding router_spec_set_identity m1(3) by simp
  ultimately show ?thesis using m1(1) handled_view [of ?m _ "queueIdentityDeletedSubCheck ?i ?m"] by (simp add: HandleIdentityEvent_def Let_def)
qed


lemma identity_put_step:
  assumes ok: "rdm_ok m" and a: "a \<noteq> Delete"
  shows "\<exists>m'. HandleIdentityEvent index a v m = Some m' \<and> rdm_ok m' \<and>
    router_spec m' = (router_spec m)\<lparr>dm_Identities := (dm_Identities (router_spec m))(id_Id v \<mapsto> plain_identity v)\<rparr>"
proof -
  let ?i = "id_Id v"
  define m1 where "m1 = (case map_of (m_Identities m) ?i of None \<Rightarrow> m | Some d \<Rightarrow> removeConfigReferences (i_Data d) m)"
  let ?m2 = "addConfigReferences v m1"
  define d' where "d' = (case map_of (m_Identities m) ?i of
      None \<Rightarrow> \<lparr>i_Data = v, i_ServicePolicies = [], i_ServiceAccess = [], i_PostureChecks = [], i_identityIndex = index, i_tracking = False\<rparr>
    | Some d \<Rightarrow> d\<lparr>i_Data := v, i_identityIndex := index\<rparr>)"
  let ?m3 = "?m2\<lparr>m_Identities := AList.update ?i d' (m_Identities ?m2)\<rparr>"
  have v1: "view m1 = view m" by (simp add: m1_def split: option.split)
  have v2: "view ?m2 = view m" using v1 by simp
  have pols: "pols ?m2 = pols m" using v2 unfolding view_iff by blast
  have data: "i_Data d' = v" by (simp add: d'_def split: option.split)
  have "identity_ok (pols m) ?i d'"
  proof (cases "map_of (m_Identities m) ?i")
    case None
    then show ?thesis using no_policy_of_missing(1) [OF ok, of ?i] by (auto simp: d'_def identity_ok_def consistent_new ids_def)
  next
    case (Some d)
    then have "identity_ok (pols m) ?i d" using model_okD(3) [OF rdm_okD(1) [OF ok]] by (simp add: ids_def)
    moreover have "consistent (pols m) (d\<lparr>i_Data := v, i_identityIndex := index\<rparr>) = consistent (pols m) d" by (rule consistent_fields) simp_all
    ultimately show ?thesis using Some by (simp add: d'_def identity_ok_def)
  qed
  then have ok3: "rdm_ok ?m3" using rdm_ok_set_identity [of ?m2 ?i d'] rdm_ok_view [OF v2] ok pols by simp
  have sp: "router_spec ?m3 = (router_spec m)\<lparr>dm_Identities := (dm_Identities (router_spec m))(?i \<mapsto> plain_identity v)\<rparr>"
    unfolding router_spec_set_identity router_spec_view [OF v2] data ..
  have "HandleIdentityEvent index a v m = Some (if a = Create then queueNewIdentitySubCheck ?i ?m3 else queueSyncCheck ?i ?m3)"
    using a by (simp add: HandleIdentityEvent_def Let_def m1_def d'_def)
  then show ?thesis using handled_view [OF ok3 sp] by simp
qed

section \<open>Services and posture checks\<close>

definition drop_service :: "string \<Rightarrow> ('k, 's) rdm \<Rightarrow> ('k, 's) rdm" where
  "drop_service s m = m\<lparr>m_Services := AList.delete s (m_Services m)\<rparr>"

lemma ofold_commute:
  assumes "\<And>x m. x \<in> set xs \<Longrightarrow> f x (g m) = map_option g (f x m)"
  shows "ofold f xs (g m) = map_option g (ofold f xs m)"
  using assms by (induction xs arbitrary: m) (auto split: option.split)

lemma foldl_commute:
  assumes "\<And>x m. f (g m) x = g (f m x)"
  shows "foldl f (g m) xs = g (foldl f m xs)"
  by (induction xs arbitrary: m) (simp_all add: assms)

text \<open>A deleted service leaves the table before it leaves its policies. The order does not matter.\<close>

lemma drop_service_commutes:
  "NotifyIdentityChange i (drop_service s m) = drop_service s (NotifyIdentityChange i m)"
  "withLockedIdentity i f (drop_service s m) = map_option (drop_service s) (withLockedIdentity i f m)"
  "withService s g (drop_service s m) = drop_service s (withService s g m)"
  "drop_name n i (drop_service s m) = drop_service s (drop_name n i m)"
  "store_policy pid p (drop_service s m) = drop_service s (store_policy pid p m)"
  by (auto simp: drop_service_def NotifyIdentityChange_def queueSyncCheck_def queue_check_def markIdentityForCheck_def Let_def
      withLockedIdentity_def withService_def drop_name_def store_policy_def delete_conv' delete_update_same option.map_comp comp_def
      split: option.split intro!: option.map_cong0)

lemma change_services_drop:
  "change_services False index [s] (p, drop_service s m) = map_option (map_prod id (drop_service s)) (change_services False index [s] (p, m))"
proof -
  have o: "ofold (\<lambda>i. withLockedIdentity i f) xs (drop_service s m) = map_option (drop_service s) (ofold (\<lambda>i. withLockedIdentity i f) xs m)" for f xs and m :: "('a, 'b) rdm"
    by (rule ofold_commute) (simp add: drop_service_commutes)
  show ?thesis
    by (auto simp: change_services_def o Let_def drop_service_commutes option.map_comp comp_def split: option.split)
qed

lemma cleanup_service_drop:
  "HandleServicePolicyChange index (cleanup_change RelatedService s pid) (drop_service s m) =
     map_option (drop_service s) (HandleServicePolicyChange index (cleanup_change RelatedService s pid) m)"
proof -
  have n: "foldl (\<lambda>m i. NotifyIdentityChange i m) (drop_service s m) xs = drop_service s (foldl (\<lambda>m i. NotifyIdentityChange i m) m xs)"
    for xs and m :: "('a, 'b) rdm"
    by (rule foldl_commute) (simp add: drop_service_commutes)
  have p: "m_ServicePolicies (drop_service s m) = m_ServicePolicies m" for m :: "('a, 'b) rdm" by (simp add: drop_service_def)
  have u: "(drop_service s m)\<lparr>m_ServicePolicies := x\<rparr> = drop_service s (m\<lparr>m_ServicePolicies := x\<rparr>)" for x and m :: "('a, 'b) rdm"
    by (simp add: drop_service_def)
  show ?thesis
    by (simp add: HandleServicePolicyChange_def cleanup_change_def p u Let_def change_services_drop n
        split: option.split prod.split)
qed


lemma rdm_ok_tables:
  assumes ok: "rdm_ok m" and same: "ids m' = ids m" "pols m' = pols m" and ix: "index_ok (svcs m') (chks m')"
    and S: "\<And>p P s v. pols m p = Some P \<Longrightarrow> s \<in> set (p_Services P) \<Longrightarrow> svcs m s = Some v \<Longrightarrow>
      \<exists>v'. svcs m' s = Some v' \<and> set (s_servicePolicies v) \<subseteq> set (s_servicePolicies v')"
    and K: "\<And>p P c v. pols m p = Some P \<Longrightarrow> c \<in> set (p_PostureChecks P) \<Longrightarrow> chks m c = Some v \<Longrightarrow>
      \<exists>v'. chks m' c = Some v' \<and> set (k_servicePolicies v) \<subseteq> set (k_servicePolicies v')"
  shows "rdm_ok m'"
proof -
  note ok' = rdm_okD(1) [OF ok]
  have "members_ok (ids m) (svcs m') (chks m') p P" if P: "pols m p = Some P" for p P
    using model_okD(2) [OF ok' P] S [OF P] K [OF P] unfolding members_ok_def by blast
  then have "model_ok (ids m) (pols m) (svcs m') (chks m')" using model_okD(1,3) [OF ok'] by (intro model_okI) auto
  then show ?thesis using ix by (simp add: rdm_ok_def same)
qed

lemma drop_service_views:
  "ids (drop_service s m) = ids m" "pols (drop_service s m) = pols m" "chks (drop_service s m) = chks m" "rest (drop_service s m) = rest m"
  "svcs (drop_service s m) = (svcs m)(s := None)"
  by (simp_all add: drop_service_def rdm_update_views svcs_def delete_conv' fun_eq_iff)

lemma router_spec_drop_service:
  "router_spec (drop_service s m) = (router_spec m)\<lparr>dm_Services := (dm_Services (router_spec m))(s := None)\<rparr>"
  by (simp add: router_spec_def idata_def sdata_def kdata_def drop_service_views fun_eq_iff) (simp add: drop_service_def)

lemma rdm_ok_drop_service:
  assumes ok: "rdm_ok m" and s: "\<And>p P. pols m p = Some P \<Longrightarrow> s \<notin> set (p_Services P)"
  shows "rdm_ok (drop_service s m)"
proof (rule rdm_ok_tables [OF ok])
  show "index_ok (svcs (drop_service s m)) (chks (drop_service s m))" using rdm_okD(2) [OF ok] by (simp add: drop_service_views index_ok_def)
  show "\<exists>v'. svcs (drop_service s m) t = Some v' \<and> set (s_servicePolicies v) \<subseteq> set (s_servicePolicies v')"
    if "pols m p = Some P" "t \<in> set (p_Services P)" "svcs m t = Some v" for p P t v
    using s [OF that(1)] that by (auto simp: drop_service_views)
qed (simp_all add: drop_service_views)

lemma service_delete_step:
  assumes ok: "rdm_ok m"
  shows "\<exists>m'. HandleServiceEvent index Delete v m = Some m' \<and> rdm_ok m' \<and>
    router_spec m' = (router_spec m)\<lparr>dm_Services := (dm_Services (router_spec m))(svc_Id v := None),
      dm_Policies := forget Delete RelatedService (svc_Id v) (dm_Policies (router_spec m))\<rparr>"
proof (cases "map_of (m_Services m) (svc_Id v)")
  case None
  let ?i = "svc_Id v" let ?F = "forget Delete RelatedService ?i (dm_Policies (router_spec m))"
  have n: "svcs m ?i = None" using None by (simp add: svcs_def)
  have "map_option (member_change RelatedService False {?i}) (map_option policy_of (pols m p)) = map_option policy_of (pols m p)" for p
    using no_policy_of_missing(2) [OF ok n, of p] by (cases "pols m p") (simp_all add: policy_of_def member_change_absent members_of_def)
  then have "?F = (\<lambda>p. map_option policy_of (pols m p))" by (simp add: forget_def fun_eq_iff)
  moreover have "(router_spec m)\<lparr>dm_Services := (dm_Services (router_spec m))(?i := None)\<rparr> = router_spec m"
    using n by (simp add: router_spec_def sdata_def fun_upd_idem)
  then have "(router_spec m)\<lparr>dm_Services := (dm_Services (router_spec m))(?i := None), dm_Policies := (\<lambda>p. map_option policy_of (pols m p))\<rparr> = router_spec m"
    by simp
  ultimately show ?thesis using None ok by (simp add: HandleServiceEvent_def Let_def)
next
  case (Some w)
  let ?i = "svc_Id v" let ?m = "drop_name (svc_Name (s_Data w)) ?i (removeFromConfigs ?i (svc_Configs (s_Data w)) m)"
  have v: "view ?m = view m" by simp
  then have pols: "pols ?m = pols m" unfolding view_iff by blast
  have sv: "svcs m ?i = Some (w\<lparr>s_index := 0\<rparr>)" using Some by (simp add: svcs_def)
  have d: "distinct (s_servicePolicies w)" using rdm_okD(2) [OF ok] sv by (fastforce simp: index_ok_def)
  have "p \<in> set (s_servicePolicies w)" if "pols m p = Some P" "?i \<in> set (p_Services P)" for p P
    using model_okD(2) [OF rdm_okD(1) [OF ok] that(1)] that(2) sv by (auto simp: members_ok_def)
  then have "\<exists>m1. cleanup_policies index RelatedService p_Services ?i (s_servicePolicies w) m ?m = Some m1 \<and> rdm_ok m1 \<and> same_data ?m m1 \<and>
      router_spec m1 = (router_spec ?m)\<lparr>dm_Policies := forget Delete RelatedService ?i (dm_Policies (router_spec ?m))\<rparr>"
    using d v rdm_ok_view [OF v] ok by (intro cleanup_policies_step) (auto simp: members_of_def policy_of_def pols)
  then obtain m1 where m1: "cleanup_policies index RelatedService p_Services ?i (s_servicePolicies w) m ?m = Some m1" "rdm_ok m1"
    "router_spec m1 = (router_spec ?m)\<lparr>dm_Policies := forget Delete RelatedService ?i (dm_Policies (router_spec ?m))\<rparr>" by blast
  have "HandleServiceEvent index Delete v m = cleanup_policies index RelatedService p_Services ?i (s_servicePolicies w) m (drop_service ?i ?m)"
    using Some by (simp add: HandleServiceEvent_def Let_def drop_service_commutes(4) [symmetric] drop_service_def [symmetric])
  also have "\<dots> = map_option (drop_service ?i) (cleanup_policies index RelatedService p_Services ?i (s_servicePolicies w) m ?m)"
    unfolding cleanup_policies_def by (rule ofold_commute) (auto simp: cleanup_service_drop)
  finally have "HandleServiceEvent index Delete v m = Some (drop_service ?i m1)" using m1(1) by simp
  moreover have "rdm_ok (drop_service ?i m1)"
    using m1(2) forgotten_absent [OF m1(3)] by (intro rdm_ok_drop_service) (auto simp: members_of_def policy_of_def)
  moreover have "router_spec (drop_service ?i m1) = (router_spec m)\<lparr>dm_Services := (dm_Services (router_spec m))(?i := None),
      dm_Policies := forget Delete RelatedService ?i (dm_Policies (router_spec m))\<rparr>"
    unfolding router_spec_drop_service m1(3) router_spec_view [OF v] by simp
  ultimately show ?thesis by blast
qed

lemma service_put_step:
  assumes ok: "rdm_ok m" and a: "a \<noteq> Delete"
  shows "\<exists>m'. HandleServiceEvent index a v m = Some m' \<and> rdm_ok m' \<and>
    router_spec m' = (router_spec m)\<lparr>dm_Services := (dm_Services (router_spec m))(svc_Id v \<mapsto> plain_service v)\<rparr>"
proof -
  let ?i = "svc_Id v" let ?old = "map_of (m_Services m) ?i"
  define v' where "v' = \<lparr>s_Data = (case ?old of None \<Rightarrow> v | Some _ \<Rightarrow> v\<lparr>svc_Configs := sort (svc_Configs v)\<rparr>),
    s_servicePolicies = (case ?old of None \<Rightarrow> [] | Some w \<Rightarrow> s_servicePolicies w), s_index = index\<rparr>"
  obtain rm ad where diff: "(case ?old of None \<Rightarrow> ([], svc_Configs v) | Some w \<Rightarrow> diffStringSlices (svc_Configs (s_Data w)) (svc_Configs v)) = (rm, ad)"
    by fastforce
  define m1 where "m1 = addToConfigs ?i ad (removeFromConfigs ?i rm m)"
  let ?m2 = "m1\<lparr>m_Services := AList.update ?i v' (m_Services m1)\<rparr>"
  have v1: "view m1 = view m" by (simp add: m1_def)
  have same: "ids m1 = ids m" "pols m1 = pols m" "svcs m1 = svcs m" "chks m1 = chks m" using v1 unfolding view_iff by blast+
  have sv: "svcs ?m2 = (svcs m)(?i \<mapsto> v'\<lparr>s_index := 0\<rparr>)" unfolding same(3) [symmetric] by (simp add: svcs_def update_conv' fun_eq_iff)
  have ok2: "rdm_ok ?m2"
  proof (rule rdm_ok_tables [OF ok])
    have "distinct (s_servicePolicies v')"
      using rdm_okD(2) [OF ok] unfolding v'_def index_ok_def svcs_def by (fastforce split: option.split)
    then show "index_ok (svcs ?m2) (chks ?m2)" using rdm_okD(2) [OF ok] unfolding sv by (simp add: rdm_update_views same index_ok_def)
    show "\<exists>v'. svcs ?m2 s = Some v' \<and> set (s_servicePolicies w) \<subseteq> set (s_servicePolicies v')" if "svcs m s = Some w" for s w
      unfolding sv using that by (auto simp: v'_def svcs_def)
  qed (simp_all add: rdm_update_views same)
  have pl: "plain_service (s_Data v') = plain_service v" by (simp add: v'_def plain_service_def sorted_sort_id split: option.split)
  have sp: "router_spec ?m2 = (router_spec m)\<lparr>dm_Services := (dm_Services (router_spec m))(?i \<mapsto> plain_service v)\<rparr>"
    unfolding router_spec_view [OF v1, symmetric]
    by (simp add: router_spec_def idata_def sdata_def kdata_def rdm_update_views sv same(3) pl fun_eq_iff)
  have "\<exists>m'. HandleServiceEvent index a v m = Some m' \<and> view m' = view ?m2"
    using a diff by (auto simp: HandleServiceEvent_def Let_def v'_def m1_def [symmetric] intro!: view_foldl [THEN trans] split: option.split)
  then show ?thesis using handled_view [OF ok2 sp] by blast
qed


lemma check_delete_step:
  assumes ok: "rdm_ok m" and free: "\<And>p P. pols m p = Some P \<Longrightarrow> chk_Id v \<notin> set (p_PostureChecks P)"
  shows "\<exists>m'. HandlePostureCheckEvent index Delete v m = Some m' \<and> rdm_ok m' \<and>
    router_spec m' = (router_spec m)\<lparr>dm_PostureChecks := (dm_PostureChecks (router_spec m))(chk_Id v := None)\<rparr>"
proof -
  let ?c = "chk_Id v" let ?m = "m\<lparr>m_PostureChecks := AList.delete ?c (m_PostureChecks m)\<rparr>"
  have "\<not> (case map_of (m_ServicePolicies m) p of Some w \<Rightarrow> ?c \<in> set (p_PostureChecks w) | None \<Rightarrow> False)" for p
    using free [of p] by (auto simp: pols_def split: option.split)
  then have "cleanup_policies index RelatedPostureCheck p_PostureChecks ?c ps m m = Some m" for ps
    unfolding cleanup_policies_def by simp
  then have h: "HandlePostureCheckEvent index Delete v m = Some ?m" by (simp add: HandlePostureCheckEvent_def Let_def split: option.split)
  have ck: "chks ?m = (chks m)(?c := None)" by (simp add: chks_def delete_conv' fun_eq_iff)
  have "rdm_ok ?m"
  proof (rule rdm_ok_tables [OF ok])
    show "index_ok (svcs ?m) (chks ?m)" using rdm_okD(2) [OF ok] unfolding ck by (simp add: rdm_update_views index_ok_def)
    show "\<exists>w'. chks ?m c = Some w' \<and> set (k_servicePolicies w) \<subseteq> set (k_servicePolicies w')"
      if "pols m p = Some P" "c \<in> set (p_PostureChecks P)" "chks m c = Some w" for p P c w
      unfolding ck using free [OF that(1)] that by auto
  qed (simp_all add: rdm_update_views)
  moreover have "router_spec ?m = (router_spec m)\<lparr>dm_PostureChecks := (dm_PostureChecks (router_spec m))(?c := None)\<rparr>"
    by (simp add: router_spec_def idata_def sdata_def kdata_def ck rdm_update_views fun_eq_iff)
  ultimately show ?thesis using h by blast
qed

lemma check_put_step:
  assumes ok: "rdm_ok m" and a: "a \<noteq> Delete"
  shows "\<exists>m'. HandlePostureCheckEvent index a v m = Some m' \<and> rdm_ok m' \<and>
    router_spec m' = (router_spec m)\<lparr>dm_PostureChecks := (dm_PostureChecks (router_spec m))(chk_Id v \<mapsto> v)\<rparr>"
proof -
  let ?c = "chk_Id v"
  define v' where "v' = \<lparr>k_Data = v, k_servicePolicies = (case map_of (m_PostureChecks m) ?c of Some w \<Rightarrow> k_servicePolicies w | None \<Rightarrow> []), k_index = index\<rparr>"
  let ?m = "m\<lparr>m_PostureChecks := AList.update ?c v' (m_PostureChecks m)\<rparr>"
  have kd: "k_Data v' = v" by (simp add: v'_def)
  have ck: "chks ?m = (chks m)(?c \<mapsto> v'\<lparr>k_index := 0\<rparr>)" by (simp add: chks_def update_conv' fun_eq_iff)
  have ok2: "rdm_ok ?m"
  proof (rule rdm_ok_tables [OF ok])
    have "distinct (k_servicePolicies v')"
      using rdm_okD(2) [OF ok] unfolding v'_def index_ok_def chks_def by (fastforce split: option.split)
    then show "index_ok (svcs ?m) (chks ?m)" using rdm_okD(2) [OF ok] unfolding ck by (simp add: rdm_update_views index_ok_def)
    show "\<exists>w'. chks ?m c = Some w' \<and> set (k_servicePolicies w) \<subseteq> set (k_servicePolicies w')" if "chks m c = Some w" for c w
      unfolding ck using that by (auto simp: v'_def chks_def)
  qed (simp_all add: rdm_update_views)
  have sp: "router_spec ?m = (router_spec m)\<lparr>dm_PostureChecks := (dm_PostureChecks (router_spec m))(?c \<mapsto> v)\<rparr>"
    using kd by (simp add: router_spec_def idata_def sdata_def kdata_def ck rdm_update_views fun_eq_iff)
  have "\<exists>m'. HandlePostureCheckEvent index a v m = Some m' \<and> view m' = view ?m"
    using a by (auto simp: HandlePostureCheckEvent_def Let_def v'_def intro!: view_foldl)
  then show ?thesis using handled_view [OF ok2 sp] by blast
qed

section \<open>Configs and the other tables\<close>

lemma config_type_step:
  assumes ok: "rdm_ok m"
  shows "rdm_ok (HandleConfigTypeEvent index a v m) \<and>
    router_spec (HandleConfigTypeEvent index a v m) = (router_spec m)\<lparr>dm_ConfigTypes := put a (ct_Id v) v (dm_ConfigTypes (router_spec m))\<rparr>"
proof -
  define m1 where "m1 = m\<lparr>m_ConfigTypes := if a = Delete then AList.delete (ct_Id v) (m_ConfigTypes m)
    else AList.update (ct_Id v) \<lparr>t_Data = v, t_index = index\<rparr> (m_ConfigTypes m)\<rparr>"
  have s: "ids m1 = ids m" "pols m1 = pols m" "svcs m1 = svcs m" "chks m1 = chks m" by (simp_all add: m1_def view_defs)
  then have ok1: "rdm_ok m1" using ok by (simp add: rdm_ok_def)
  have sp: "router_spec m1 = (router_spec m)\<lparr>dm_ConfigTypes := put a (ct_Id v) v (dm_ConfigTypes (router_spec m))\<rparr>"
    by (simp add: router_spec_def idata_def sdata_def kdata_def s put_def fun_eq_iff) (simp add: m1_def delete_conv' update_conv')
  have notify: "view (foldl (\<lambda>m s. NotifyServiceOfConfigChange index s m) m xs) = view m" for xs and m :: "('a, 'b) rdm"
    by (rule view_foldl) simp
  have "view (HandleConfigTypeEvent index a v m) = view m1"
    by (auto simp: HandleConfigTypeEvent_def Let_def m1_def notify intro!: view_foldl)
  then show ?thesis using handled_view [OF ok1 sp] by blast
qed

lemma prune_step:
  assumes ok: "rdm_ok m"
  shows "\<exists>m'. withLockedIdentity k (\<lambda>d. Some (prune_configs c d)) m = Some m' \<and> rdm_ok m' \<and> router_spec m' = router_spec m"
proof (cases "map_of (m_Identities m) k")
  case None
  then show ?thesis using ok by (simp add: withLockedIdentity_def)
next
  case (Some d)
  let ?d = "prune_configs c d"
  have d: "identity_ok (pols m) k d" using model_okD(3) [OF rdm_okD(1) [OF ok]] Some by (simp add: ids_def)
  have "consistent (pols m) ?d = consistent (pols m) d" by (rule consistent_fields) (simp_all add: prune_configs_def)
  then have "identity_ok (pols m) k ?d" using d by (simp add: identity_ok_def prune_configs_def)
  moreover have "plain_identity (i_Data ?d) = plain_identity (i_Data d)" by (simp add: plain_identity_def prune_configs_def)
  then have "router_spec (m\<lparr>m_Identities := AList.update k ?d (m_Identities m)\<rparr>) = router_spec m"
    using Some unfolding router_spec_set_identity by (simp add: router_spec_def idata_def ids_def fun_upd_idem)
  ultimately show ?thesis using Some rdm_ok_set_identity [OF ok] by (simp add: withLockedIdentity_def)
qed

lemma config_step:
  assumes ok: "rdm_ok m"
  shows "\<exists>m'. HandleConfigEvent index a v m = Some m' \<and> rdm_ok m' \<and> router_spec m' = router_spec m"
proof -
  have notify: "view (foldl (\<lambda>m s. NotifyServiceOfConfigChange index s m) m xs) = view m" for xs and m :: "('a, 'b) rdm"
    by (rule view_foldl) simp
  show ?thesis
  proof (cases "a = Delete \<and> map_of (m_Configs m) (cfg_Id v) \<noteq> None")
    case False
    then have "\<exists>m'. HandleConfigEvent index a v m = Some m' \<and> view m' = view m"
      by (auto simp: HandleConfigEvent_def Let_def notify)
    then show ?thesis using handled_view [OF ok refl] by blast
  next
    case True
    then obtain w where w: "map_of (m_Configs m) (cfg_Id v) = Some w" "a = Delete" by auto
    let ?m = "foldl (\<lambda>m s. NotifyServiceOfConfigChange index s m) m (c_services w)"
    let ?f = "\<lambda>k m. map_option (NotifyIdentityChange k) (withLockedIdentity k (\<lambda>d. Some (prune_configs (cfg_Id (c_Data w)) d)) m)"
    have "\<exists>m'. ?f k m1 = Some m' \<and> rdm_ok m' \<and> router_spec m' = router_spec m" if inv: "rdm_ok m1 \<and> router_spec m1 = router_spec m" for k m1
    proof -
      obtain m2 where "withLockedIdentity k (\<lambda>d. Some (prune_configs (cfg_Id (c_Data w)) d)) m1 = Some m2" "rdm_ok m2" "router_spec m2 = router_spec m"
        using prune_step [of m1 k "cfg_Id (c_Data w)"] inv by auto
      then show ?thesis using handled_view [of m2 "router_spec m" "NotifyIdentityChange k m2"] by simp
    qed
    then obtain m2 where m2: "ofold ?f (c_identities w) ?m = Some m2" "rdm_ok m2 \<and> router_spec m2 = router_spec m"
      using ofold_invariant [of "\<lambda>m'. rdm_ok m' \<and> router_spec m' = router_spec m" ?m "c_identities w" ?f] handled_view [OF ok refl notify] by blast
    have "\<exists>m'. HandleConfigEvent index a v m = Some m' \<and> view m' = view m2"
      using w m2(1) by (simp add: HandleConfigEvent_def Let_def)
    then show ?thesis using handled_view [of m2 "router_spec m"] m2(2) by blast
  qed
qed

lemma other_tables_step:
  assumes ok: "rdm_ok m"
  shows "rdm_ok (HandlePublicKeyEvent parsers a k m)" "rdm_ok (HandleRevocationEvent a x m)"
    "router_spec (HandlePublicKeyEvent parsers a k m) =
       (let keys = (if a = Delete then AList.delete (pk_Kid k) (dm_PublicKeys (router_spec m)) else AList.update (pk_Kid k) k (dm_PublicKeys (router_spec m)))
        in (router_spec m)\<lparr>dm_PublicKeys := keys, dm_Keys := parsed_keys parsers keys\<rparr>)"
    "router_spec (HandleRevocationEvent a x m) = (router_spec m)\<lparr>dm_Revocations := put a (rev_Id x) x (dm_Revocations (router_spec m))\<rparr>"
proof -
  have "ids (HandlePublicKeyEvent parsers a k m) = ids m" "pols (HandlePublicKeyEvent parsers a k m) = pols m"
    "svcs (HandlePublicKeyEvent parsers a k m) = svcs m" "chks (HandlePublicKeyEvent parsers a k m) = chks m"
    "ids (HandleRevocationEvent a x m) = ids m" "pols (HandleRevocationEvent a x m) = pols m"
    "svcs (HandleRevocationEvent a x m) = svcs m" "chks (HandleRevocationEvent a x m) = chks m"
    by (simp_all add: HandlePublicKeyEvent_def HandleRevocationEvent_def Let_def view_defs)
  note same = this
  show "rdm_ok (HandlePublicKeyEvent parsers a k m)" "rdm_ok (HandleRevocationEvent a x m)" using ok by (simp_all add: rdm_ok_def same)
  show "router_spec (HandlePublicKeyEvent parsers a k m) =
       (let keys = (if a = Delete then AList.delete (pk_Kid k) (dm_PublicKeys (router_spec m)) else AList.update (pk_Kid k) k (dm_PublicKeys (router_spec m)))
        in (router_spec m)\<lparr>dm_PublicKeys := keys, dm_Keys := parsed_keys parsers keys\<rparr>)"
    by (simp add: router_spec_def idata_def sdata_def kdata_def same) (simp add: HandlePublicKeyEvent_def Let_def)
  show "router_spec (HandleRevocationEvent a x m) = (router_spec m)\<lparr>dm_Revocations := put a (rev_Id x) x (dm_Revocations (router_spec m))\<rparr>"
    by (simp add: router_spec_def idata_def sdata_def kdata_def same) (simp add: HandleRevocationEvent_def put_def delete_conv' update_conv')
qed

lemma router_step:
  assumes ok: "rdm_ok m"
  shows "rdm_ok (HandleRouterEvent a r m) \<and>
    router_spec (HandleRouterEvent a r m) = (router_spec m)\<lparr>dm_Routers := put a (rtr_Id r) r (dm_Routers (router_spec m))\<rparr>"
proof -
  define m1 where "m1 = m\<lparr>m_Routers := if a = Delete then AList.delete (rtr_Id r) (m_Routers m) else AList.update (rtr_Id r) r (m_Routers m)\<rparr>"
  have s: "ids m1 = ids m" "pols m1 = pols m" "svcs m1 = svcs m" "chks m1 = chks m" by (simp_all add: m1_def view_defs)
  then have ok1: "rdm_ok m1" using ok by (simp add: rdm_ok_def)
  have sp: "router_spec m1 = (router_spec m)\<lparr>dm_Routers := put a (rtr_Id r) r (dm_Routers (router_spec m))\<rparr>"
    by (simp add: router_spec_def idata_def sdata_def kdata_def s) (simp add: m1_def put_def delete_conv' update_conv')
  have "view (drop_router_config c m) = view m" for c and m :: "('a, 'b) rdm" by (simp add: drop_router_config_def split: option.split)
  then have "view (HandleRouterEvent a r m) = view m1"
    by (auto simp: HandleRouterEvent_def Let_def m1_def split: option.split intro!: view_foldl)
  then show ?thesis using handled_view [OF ok1 sp] by blast
qed


section \<open>Policies\<close>

lemma locked_fold:
  fixes m :: "('k, 's) rdm"
  assumes h: "\<And>i m. view (h i m :: ('k, 's) rdm) = view m" and "distinct xs"
  shows "\<exists>m'. ofold (\<lambda>i m. map_option (h i) (withLockedIdentity i (\<lambda>d. Some (f d)) m)) xs m = Some m' \<and>
    ids m' = (\<lambda>i. if i \<in> set xs then map_option f (ids m i) else ids m i) \<and>
    pols m' = pols m \<and> svcs m' = svcs m \<and> chks m' = chks m \<and> rest m' = rest m"
  using assms(2)
proof (induction xs arbitrary: m)
  case (Cons x xs)
  define js where "js = (case ids m x of None \<Rightarrow> m_Identities m | Some d \<Rightarrow> AList.update x (f d) (m_Identities m))"
  let ?m1 = "m\<lparr>m_Identities := js\<rparr>" let ?m2 = "h x ?m1"
  have step: "withLockedIdentity x (\<lambda>d. Some (f d)) m = Some ?m1"
    by (simp add: withLockedIdentity_def js_def ids_def split: option.split)
  have js: "map_of js = (ids m)(x := map_option f (ids m x))"
    by (auto simp: js_def ids_def update_conv' fun_eq_iff split: option.split)
  have v: "ids ?m2 = ids ?m1 \<and> pols ?m2 = pols ?m1 \<and> svcs ?m2 = svcs ?m1 \<and> chks ?m2 = chks ?m1 \<and> rest ?m2 = rest ?m1"
    using h [of x ?m1] unfolding view_iff .
  obtain m' where m': "ofold (\<lambda>i m. map_option (h i) (withLockedIdentity i (\<lambda>d. Some (f d)) m)) xs ?m2 = Some m'"
    "ids m' = (\<lambda>i. if i \<in> set xs then map_option f (ids ?m2 i) else ids ?m2 i)"
    "pols m' = pols ?m2" "svcs m' = svcs ?m2" "chks m' = chks ?m2" "rest m' = rest ?m2"
    using Cons.IH [of ?m2] Cons.prems by auto
  have "ids m' = (\<lambda>i. if i \<in> set (x # xs) then map_option f (ids m i) else ids m i)"
    using m'(2) v js Cons.prems by (auto simp: rdm_update_views fun_eq_iff)
  then show ?case using step m' v by (simp add: rdm_update_views)
qed (simp add: fun_eq_iff)

lemma rdm_ok_new_policy:
  assumes ok: "rdm_ok m" and T: "pols m pid = None" and P: "policy_ok pid P" "p_Identities P = []" "p_Services P = []" "p_PostureChecks P = []"
  shows "rdm_ok (store_policy pid P m)"
proof -
  note ok' = rdm_okD(1) [OF ok]
  have "identity_ok ((pols m)(pid \<mapsto> pcore P)) i d" if "ids m i = Some d" for i d
  proof -
    have d: "identity_ok (pols m) i d" using model_okD(3) [OF ok' that] .
    then have "pid \<notin> set (i_ServicePolicies d)" using T by (simp add: identity_ok_def)
    then show ?thesis using d consistent_other [of "pols m" d pid "Some (pcore P)"] P(2) by (auto simp: identity_ok_def)
  qed
  then have "model_ok (ids m) ((pols m)(pid \<mapsto> pcore P)) (svcs m) (chks m)"
    using model_okD(1,2) [OF ok'] P by (intro model_okI) (auto simp: members_ok_def split: if_splits)
  then show ?thesis using rdm_okD(2) [OF ok] by (simp add: rdm_ok_def)
qed

definition retyped :: "service_policy \<Rightarrow> service_policy \<Rightarrow> u64 \<Rightarrow> identity \<Rightarrow> identity" where
  "retyped p p' index d = (if pol_PolicyType (p_Data p) \<noteq> pol_PolicyType (p_Data p')
     then addedToPolicy p' index (removedFromPolicy p index d) else d)"

lemma retyped_consistent:
  assumes d: "consistent T d" "pid \<in> set (i_ServicePolicies d)" and T: "T pid = Some (pcore p)" and ok: "policy_ok pid p"
    and p': "pol_Id (p_Data p') = pid" "p_Services p' = p_Services p" "p_PostureChecks p' = p_PostureChecks p"
  shows "consistent (T(pid \<mapsto> pcore p')) (retyped p p' index d) \<and>
    set (i_ServicePolicies (retyped p p' index d)) = set (i_ServicePolicies d) \<and> i_Data (retyped p p' index d) = i_Data d"
proof (cases "pol_PolicyType (p_Data p) = pol_PolicyType (p_Data p')")
  case True
  then have "consistent (T(pid \<mapsto> pcore p')) d" using consistent_same_grants [OF d(1) T, of "pcore p'"] p' by (simp add: same_grants_def)
  then show ?thesis using True by (simp add: retyped_def)
next
  case False
  have pid: "pol_Id (p_Data p) = pid" "distinct (p_Services p)" "distinct (p_PostureChecks p)" using ok by (simp_all add: policy_ok_def)
  let ?d = "removedFromPolicy p index d" let ?T = "T(pid \<mapsto> pcore p')"
  note r = removedFromPolicy_consistent [where p = p, unfolded pid(1), OF d(1) T same_grants_pcore(2) pid(2,3), of index]
  have c: "consistent ?T ?d" using consistent_other [OF r(1), of pid "Some (pcore p')"] r(2) by simp
  have T': "?T pid = Some (pcore p')" by simp
  note a = addedToPolicy_consistent [where p = p' and T = ?T, unfolded p'(1), OF c T' same_grants_pcore(2), of index, unfolded p', OF pid(2,3)]
  show ?thesis using False a r d(2) by (auto simp: retyped_def)
qed

lemma policy_put_step:
  assumes ok: "rdm_ok m" and ty: "pol_PolicyType v = DialPolicy \<or> pol_PolicyType v = BindPolicy"
  shows "\<exists>m'. applyUpdateServicePolicyEvent index v m = Some m' \<and> rdm_ok m' \<and>
    router_spec m' = (router_spec m)\<lparr>dm_Policies := policy_step Update v (dm_Policies (router_spec m))\<rparr>"
proof (cases "map_of (m_ServicePolicies m) (pol_Id v)")
  case None
  let ?pid = "pol_Id v" let ?P = "\<lparr>p_Data = v, p_Services = [], p_PostureChecks = [], p_Identities = [], p_servicesIndex = index, p_postureChecksIndex = 0\<rparr>"
  have T: "pols m ?pid = None" using None by (simp add: pols_def)
  have ok1: "rdm_ok (store_policy ?pid ?P m)" using ty by (intro rdm_ok_new_policy [OF ok T]) (simp_all add: policy_ok_def IsDial_def IsBind_def)
  have "same_data m (store_policy ?pid ?P m)" by (simp add: same_data_def idata_def sdata_def kdata_def)
  moreover have "(\<lambda>p. map_option policy_of (pols (store_policy ?pid ?P m) p)) = policy_step Update v (dm_Policies (router_spec m))"
    using T by (simp add: policy_step_def put_def fun_eq_iff policy_of_def)
  ultimately show ?thesis using None ok1 router_spec_same_data [of m "store_policy ?pid ?P m"]
    by (simp add: applyUpdateServicePolicyEvent_def store_policy_def)
next
  case (Some p)
  note ok' = rdm_okD(1) [OF ok]
  let ?pid = "pol_Id v"
  define p' where "p' = \<lparr>p_Data = v, p_Services = p_Services p, p_PostureChecks = p_PostureChecks p, p_Identities = p_Identities p,
    p_servicesIndex = index, p_postureChecksIndex = 0\<rparr>"
  have T: "pols m ?pid = Some (pcore p)" using Some by (simp add: pols_def)
  have pok: "policy_ok ?pid p" using model_okD(1) [OF ok' T] by simp
  have pok': "policy_ok ?pid (pcore p')" using pok ty by (simp add: policy_ok_def p'_def IsDial_def IsBind_def)
  have "\<exists>m1. (if pol_PolicyType (p_Data p) \<noteq> pol_PolicyType v
        then ofold (\<lambda>i. withLockedIdentity i (\<lambda>d. Some (addedToPolicy p' index (removedFromPolicy p index d)))) (p_Identities p) m else Some m) = Some m1 \<and>
      ids m1 = (\<lambda>i. if i \<in> set (p_Identities p) then map_option (retyped p p' index) (ids m i) else ids m i) \<and>
      pols m1 = pols m \<and> svcs m1 = svcs m \<and> chks m1 = chks m \<and> rest m1 = rest m"
  proof (cases "pol_PolicyType (p_Data p) = pol_PolicyType v")
    case True
    then have r: "retyped p p' index = (\<lambda>d. d)" by (simp add: retyped_def p'_def fun_eq_iff)
    show ?thesis unfolding r using True by (simp add: option.map_ident fun_eq_iff)
  next
    case False
    then have r: "retyped p p' index = (\<lambda>d. addedToPolicy p' index (removedFromPolicy p index d))" by (simp add: retyped_def p'_def fun_eq_iff)
    show ?thesis unfolding r using False locked_fold [of "\<lambda>_ m. m" "p_Identities p" "\<lambda>d. addedToPolicy p' index (removedFromPolicy p index d)" m] pok
      by (simp add: option.map_ident policy_ok_def)
  qed
  then obtain m1 where m1: "(if pol_PolicyType (p_Data p) \<noteq> pol_PolicyType v
        then ofold (\<lambda>i. withLockedIdentity i (\<lambda>d. Some (addedToPolicy p' index (removedFromPolicy p index d)))) (p_Identities p) m else Some m) = Some m1"
      "ids m1 = (\<lambda>i. if i \<in> set (p_Identities p) then map_option (retyped p p' index) (ids m i) else ids m i)"
      "pols m1 = pols m" "svcs m1 = svcs m" "chks m1 = chks m" "rest m1 = rest m" by blast
  have f: "consistent ((pols m)(?pid \<mapsto> pcore p')) (retyped p p' index d) \<and>
      set (i_ServicePolicies (retyped p p' index d)) = set (i_ServicePolicies d) \<and> i_Data (retyped p p' index d) = i_Data d"
    if "i \<in> set (p_Identities p)" "ids m i = Some d" for i d
    using policy_members(1) [OF ok' T, of i] that T pok by (intro retyped_consistent [where T = "pols m"]) (auto simp: p'_def)
  have M: "model_ok (ids m1) ((pols m)(?pid \<mapsto> pcore p')) (svcs m) (chks m) \<and> (\<forall>i. map_option i_Data (ids m1 i) = map_option i_Data (ids m i))"
  proof (rule model_ok_change [OF ok' T pok', where f = "\<lambda>d. Some (retyped p p' index d)"])
    show "p_Identities (pcore p') = p_Identities (pcore p)" by (simp add: p'_def)
    show "ids m1 = (\<lambda>i. if i \<in> set (p_Identities (pcore p)) then Option.bind (ids m i) (\<lambda>d. Some (retyped p p' index d)) else ids m i)"
      using m1(2) by (simp add: fun_eq_iff map_conv_bind_option comp_def)
    show "\<exists>v. svcs m s = Some v \<and> ?pid \<in> set (s_servicePolicies v)" if "s \<in> set (p_Services (pcore p'))" for s
      using model_okD(2) [OF ok' T] that by (simp add: members_ok_def p'_def)
    show "\<exists>v. chks m c = Some v \<and> ?pid \<in> set (k_servicePolicies v)" if "c \<in> set (p_PostureChecks (pcore p'))" for c
      using model_okD(2) [OF ok' T] that by (simp add: members_ok_def p'_def)
  qed (use f in auto)
  let ?m = "store_policy ?pid p' m1"
  have "rdm_ok ?m" using M rdm_okD(2) [OF ok] by (simp add: rdm_ok_def m1)
  moreover have "same_data m ?m" using M by (simp add: same_data_def idata_def sdata_def kdata_def m1)
  moreover have "(\<lambda>q. map_option policy_of (pols ?m q)) = policy_step Update v (dm_Policies (router_spec m))"
    using T by (simp add: policy_step_def put_def fun_eq_iff policy_of_def p'_def m1)
  moreover have "applyUpdateServicePolicyEvent index v m = Some ?m"
    using Some m1(1) by (simp add: applyUpdateServicePolicyEvent_def Let_def p'_def [symmetric] store_policy_def)
  ultimately show ?thesis using router_spec_same_data [of m ?m] by simp
qed


lemma policy_delete_step:
  assumes ok: "rdm_ok m"
  shows "\<exists>m'. applyDeleteServicePolicyEvent index v m = Some m' \<and> rdm_ok m' \<and>
    router_spec m' = (router_spec m)\<lparr>dm_Policies := policy_step Delete v (dm_Policies (router_spec m))\<rparr>"
proof (cases "map_of (m_ServicePolicies m) (pol_Id v)")
  case None
  then have "policy_step Delete v (dm_Policies (router_spec m)) = (\<lambda>p. map_option policy_of (pols m p))"
    by (simp add: policy_step_def put_def fun_eq_iff pols_def)
  then show ?thesis using None ok by (simp add: applyDeleteServicePolicyEvent_def)
next
  case (Some p)
  note ok' = rdm_okD(1) [OF ok]
  let ?pid = "pol_Id v" let ?T = "(pols m)(?pid := None)"
  have T: "pols m ?pid = Some (pcore p)" using Some by (simp add: pols_def)
  have pok: "policy_ok ?pid p" using model_okD(1) [OF ok' T] by simp
  then have pid: "pol_Id (p_Data p) = ?pid" "distinct (p_Services p)" "distinct (p_PostureChecks p)" "distinct (p_Identities p)" by (simp_all add: policy_ok_def)
  obtain m1 where m1: "ofold (\<lambda>i m. map_option (queueSyncCheck i) (withLockedIdentity i (\<lambda>d. Some (removedFromPolicy p index d)) m)) (p_Identities p) m = Some m1"
      "ids m1 = (\<lambda>i. if i \<in> set (p_Identities p) then map_option (removedFromPolicy p index) (ids m i) else ids m i)"
      "pols m1 = pols m" "svcs m1 = svcs m" "chks m1 = chks m" "rest m1 = rest m"
    using locked_fold [of queueSyncCheck "p_Identities p" "removedFromPolicy p index" m] pid(4) by auto
  have r: "consistent ?T (removedFromPolicy p index d) \<and> set (i_ServicePolicies (removedFromPolicy p index d)) = set (i_ServicePolicies d) - {?pid} \<and>
      i_Data (removedFromPolicy p index d) = i_Data d" if "ids m i = Some d" for i d
  proof -
    have "consistent (pols m) d" using model_okD(3) [OF ok' that] by (simp add: identity_ok_def)
    note r = removedFromPolicy_consistent [where p = p, unfolded pid(1), OF this T same_grants_pcore(2) pid(2,3), of index]
    then show ?thesis using consistent_other [OF r(1), of ?pid None] by simp
  qed
  have data: "map_option i_Data (ids m1 i) = map_option i_Data (ids m i)" for i
    unfolding m1(2) using r [of i] by (cases "ids m i") simp_all
  have dom: "ids m1 i = None \<longleftrightarrow> ids m i = None" for i unfolding m1(2) by simp
  have "model_ok (ids m1) ?T (svcs m) (chks m)"
  proof (rule model_okI)
    fix i d assume "ids m1 i = Some d"
    then obtain d0 where d0: "ids m i = Some d0" "d = (if i \<in> set (p_Identities p) then removedFromPolicy p index d0 else d0)"
      unfolding m1(2) by (auto split: if_splits)
    note ok0 = model_okD(3) [OF ok' d0(1)]
    have "consistent ?T d \<and> set (i_ServicePolicies d) = set (i_ServicePolicies d0) - {?pid} \<and> i_Data d = i_Data d0"
    proof (cases "i \<in> set (p_Identities p)")
      case True
      then show ?thesis using r [OF d0(1)] d0(2) by simp
    next
      case False
      then have "?pid \<notin> set (i_ServicePolicies d0)" using ok0 T by (auto simp: identity_ok_def)
      then show ?thesis using consistent_other [of "pols m" d0 ?pid None] ok0 d0(2) False by (simp add: identity_ok_def)
    qed
    then show "identity_ok ?T i d" using ok0 by (auto simp: identity_ok_def)
  qed (use model_okD(1,2) [OF ok'] in \<open>auto simp: members_ok_def dom split: if_splits\<close>)
  moreover let ?m = "m1\<lparr>m_ServicePolicies := AList.delete ?pid (m_ServicePolicies m1)\<rparr>"
  have views: "ids ?m = ids m1" "pols ?m = (pols m1)(?pid := None)" "svcs ?m = svcs m1" "chks ?m = chks m1" "rest ?m = rest m1"
    by (simp_all add: view_defs delete_conv' fun_eq_iff)
  ultimately have "rdm_ok ?m" using rdm_okD(2) [OF ok] by (simp add: rdm_ok_def views m1)
  moreover have "same_data m ?m" using data by (simp add: same_data_def idata_def sdata_def kdata_def views m1)
  moreover have "(\<lambda>q. map_option policy_of (pols ?m q)) = policy_step Delete v (dm_Policies (router_spec m))"
    by (simp add: policy_step_def put_def fun_eq_iff views m1)
  moreover have "applyDeleteServicePolicyEvent index v m = Some ?m" using Some m1(1) by (simp add: applyDeleteServicePolicyEvent_def)
  ultimately show ?thesis using router_spec_same_data [of m ?m] by simp
qed

section \<open>The router as a replica\<close>

lemma forget_put [simp]: "a \<noteq> Delete \<Longrightarrow> forget a ty i = (\<lambda>m. m)"
  by (simp add: forget_def fun_eq_iff)

lemma Handle_step:
  fixes m :: "('k, 's) rdm"
  assumes ok: "rdm_ok m" and wf: "event_wf (router_spec m) e"
  shows "\<exists>m'. Handle parsers index e m = Some m' \<and> rdm_ok m' \<and> router_spec m' = data_step parsers e (router_spec m)"
proof -
  note H = Handle_def data_step_def Let_def
  show ?thesis
  proof (cases "ev_Model e")
    case (IdentityModel v)
    show ?thesis unfolding H IdentityModel ds_model.case put_def
      by (cases "ev_Action e = Delete") (use identity_delete_step [OF ok] identity_put_step [OF ok] in simp_all)
  next
    case (ServiceModel v)
    show ?thesis unfolding H ServiceModel ds_model.case put_def
      by (cases "ev_Action e = Delete") (use service_delete_step [OF ok] service_put_step [OF ok] in simp_all)
  next
    case (ServicePolicyModel v)
    have "policy_step Create v = policy_step Update v" by (simp add: policy_step_def put_def fun_eq_iff)
    then show ?thesis unfolding H ServicePolicyModel ds_model.case HandleServicePolicyEvent_def
      using policy_delete_step [OF ok, of index v] policy_put_step [OF ok, of v index] wf ServicePolicyModel
      by (cases "ev_Action e") (simp_all add: event_wf_def)
  next
    case (PostureCheckModel v)
    show ?thesis
    proof (cases "ev_Action e = Delete")
      case True
      then have "chk_Id v \<notin> set (p_PostureChecks P)" if "pols m p = Some P" for p P
        using wf PostureCheckModel that by (fastforce simp: event_wf_def policy_of_def)
      then show ?thesis unfolding H PostureCheckModel ds_model.case put_def True using check_delete_step [OF ok, of v index] by simp
    next
      case False
      then show ?thesis unfolding H PostureCheckModel ds_model.case put_def using check_put_step [OF ok False, of index v] by simp
    qed
  next
    case (PolicyChangeModel c)
    then have "change_wf (router_spec m) c" using wf by (simp add: event_wf_def)
    from policy_change_step [OF ok this, of index] show ?thesis unfolding H PolicyChangeModel ds_model.case by blast
  next
    case (PublicKeyModel k)
    show ?thesis unfolding H PublicKeyModel ds_model.case using other_tables_step(1,3) [OF ok, of parsers "ev_Action e" k] by (simp add: Let_def)
  next
    case (RevocationModel x)
    show ?thesis unfolding H RevocationModel ds_model.case using other_tables_step(2,4) [OF ok, of "ev_Action e" x] by simp
  next
    case (ConfigTypeModel v)
    show ?thesis unfolding H ConfigTypeModel ds_model.case using config_type_step [OF ok, of index "ev_Action e" v] by simp
  next
    case (ConfigModel v)
    show ?thesis unfolding H ConfigModel ds_model.case by (rule config_step [OF ok])
  next
    case (RouterModel r)
    show ?thesis unfolding H RouterModel ds_model.case using router_step [OF ok, of "ev_Action e" r] by simp
  next
    case NoModel
    show ?thesis unfolding H NoModel ds_model.case using ok by simp
  qed
qed

interpretation router: replica parsers "Handle parsers index" "\<lambda>_ _. True" rdm_ok router_spec
  for parsers :: "'k key_parsers" and index :: u64
  by unfold_locales (rule Handle_step)

end
