(* ===== verification/Data_Model_Services.thy ===== *)
theory Data_Model_Services
  imports Data_Model_Sync
begin

text \<open>
  What a router decides from its model: the services of an identity, from the counters that are kept with
  the identity or from its policies, and the policies that grant access to a service. Both ways agree, in
  every state the model can reach.
\<close>

section \<open>Tracking of service access\<close>

lemma pol_count_pols:
  assumes "\<And>P. f (pcore P) = f P"
  shows "pol_count (pols m) f ps = pol_count (map_of (m_ServicePolicies m)) f ps"
proof -
  have "(case pols m p of Some P \<Rightarrow> f P | None \<Rightarrow> False) = (case map_of (m_ServicePolicies m) p of Some P \<Rightarrow> f P | None \<Rightarrow> False)" for p
    using assms by (simp add: pols_def split: option.split)
  then show ?thesis by (simp add: pol_count_def)
qed

lemma grants_pcore [simp]:
  "dials s (pcore P) = dials s P" "binds s (pcore P) = binds s P" "requires c (pcore P) = requires c P"
  "IsDial (pcore P) = IsDial P" "IsBind (pcore P) = IsBind P"
  by (simp_all add: dials_def binds_def requires_def IsDial_def IsBind_def)

lemma consistent_pols: "consistent (pols m) d = consistent (map_of (m_ServicePolicies m)) d"
  by (simp add: consistent_def checks_consistent_def access_consistent_def pol_count_pols)

lemma policy_ok_stored:
  assumes "rdm_ok m" and "map_of (m_ServicePolicies m) p = Some P"
  shows "policy_ok p P"
  using model_okD(1) [OF rdm_okD(1) [OF assms(1)], of p "pcore P"] assms(2) by (simp add: pols_def)

lemma tracking_step:
  assumes ok: "rdm_ok m"
  shows "rdm_ok (EnableServiceAccessTracking i m)" "router_spec (EnableServiceAccessTracking i m) = router_spec m"
    "rdm_ok (DisableServiceAccessTracking i m)" "router_spec (DisableServiceAccessTracking i m) = router_spec m"
proof -
  have set: "rdm_ok (m\<lparr>m_Identities := AList.update i d' (m_Identities m)\<rparr>) \<and> router_spec (m\<lparr>m_Identities := AList.update i d' (m_Identities m)\<rparr>) = router_spec m"
    if d: "map_of (m_Identities m) i = Some d" and d': "consistent (pols m) d'" "i_Data d' = i_Data d" "i_ServicePolicies d' = i_ServicePolicies d" for d d'
  proof -
    have "identity_ok (pols m) i d" using model_okD(3) [OF rdm_okD(1) [OF ok]] d by (simp add: ids_def)
    then have "identity_ok (pols m) i d'" using d' by (simp add: identity_ok_def)
    moreover have "router_spec (m\<lparr>m_Identities := AList.update i d' (m_Identities m)\<rparr>) = router_spec m"
      unfolding router_spec_set_identity using d d'(2) by (simp add: router_spec_def idata_def ids_def fun_upd_idem)
    ultimately show ?thesis using rdm_ok_set_identity [OF ok] by blast
  qed
  have c: "consistent (pols m) d" if "map_of (m_Identities m) i = Some d" for d
    using model_okD(3) [OF rdm_okD(1) [OF ok], of i d] that by (simp add: ids_def identity_ok_def)
  have "consistent (pols m) (d\<lparr>i_tracking := True, i_ServiceAccess := buildServiceAccessList m d\<rparr>)" if "map_of (m_Identities m) i = Some d" for d
    unfolding consistent_pols using c [OF that, unfolded consistent_pols] policy_ok_stored [OF ok]
    by (intro buildServiceAccessList_consistent) (auto simp: policy_ok_def)
  then show "rdm_ok (EnableServiceAccessTracking i m)" "router_spec (EnableServiceAccessTracking i m) = router_spec m"
    using ok set by (auto simp: EnableServiceAccessTracking_def split: option.split)
  have "consistent (pols m) (d\<lparr>i_tracking := False, i_ServiceAccess := []\<rparr>)" if "map_of (m_Identities m) i = Some d" for d
    using c [OF that] by (simp add: consistent_def checks_consistent_def use_count_def)
  then show "rdm_ok (DisableServiceAccessTracking i m)" "router_spec (DisableServiceAccessTracking i m) = router_spec m"
    using ok set by (auto simp: DisableServiceAccessTracking_def split: option.split)
qed

section \<open>Reachable models\<close>

text \<open>
  The model of a router starts empty. It handles events, tracking of an identity is switched on and off by
  subscriptions, the subscriber goroutine takes its events, the index of a change set is stored, and the
  caches and the config subscriber of the router are attached.
\<close>

inductive rdm_reachable :: "'k key_parsers \<Rightarrow> ('k, 's) rdm \<Rightarrow> bool" for parsers where
  start: "rdm_reachable parsers (NewReceiverRouterDataModel routerId)"
| event: "rdm_reachable parsers m \<Longrightarrow> event_wf (router_spec m) e \<Longrightarrow> Handle parsers index e m = Some m' \<Longrightarrow> rdm_reachable parsers m'"
| track: "rdm_reachable parsers m \<Longrightarrow> rdm_reachable parsers (EnableServiceAccessTracking i m)"
| untrack: "rdm_reachable parsers m \<Longrightarrow> rdm_reachable parsers (DisableServiceAccessTracking i m)"
| subscribers: "rdm_reachable parsers m \<Longrightarrow>
    rdm_reachable parsers (m\<lparr>m_subscriptions := subs, m_updatedIdentities := flags, m_events := events, m_scanSubs := scan\<rparr>)"
| stored: "rdm_reachable parsers m \<Longrightarrow> rdm_reachable parsers (m\<lparr>m_rdmIndex := index, m_timelineId := timeline\<rparr>)"
| attached: "rdm_reachable parsers m \<Longrightarrow>
    rdm_reachable parsers (m\<lparr>m_terminatorIdCache := terminators, m_configSubscriber := sub, m_dispatched := trace\<rparr>)"

lemma new_model:
  "rdm_ok (NewReceiverRouterDataModel r)" "router_spec (NewReceiverRouterDataModel r) = empty_data_model"
  by (simp_all add: rdm_ok_def model_ok_def index_ok_def router_spec_def empty_data_model_def idata_def sdata_def kdata_def
      view_defs NewReceiverRouterDataModel_def)

lemma reachable_ok: "rdm_reachable parsers m \<Longrightarrow> rdm_ok m"
proof (induction rule: rdm_reachable.induct)
  case (event m e index m')
  then show ?case using Handle_step [of m e parsers index] by auto
next
  case (subscribers m scan events flags subs)
  have "view (m\<lparr>m_subscriptions := subs, m_updatedIdentities := flags, m_events := events, m_scanSubs := scan\<rparr>) = view m" by simp
  then show ?case using rdm_ok_view subscribers.IH by blast
next
  case (stored m timeline index)
  have "view (m\<lparr>m_rdmIndex := index, m_timelineId := timeline\<rparr>) = view m" by simp
  then show ?case using rdm_ok_view stored.IH by blast
next
  case (attached m trace sub terminators)
  have "view (m\<lparr>m_terminatorIdCache := terminators, m_configSubscriber := sub, m_dispatched := trace\<rparr>) = view m" by (simp add: view_defs)
  then show ?case using rdm_ok_view attached.IH by blast
qed (simp_all add: new_model tracking_step)

section \<open>An example\<close>

definition demo_parsers :: "string key_parsers" where
  "demo_parsers = \<lparr>ParseCertificate = Some, ParsePKIXPublicKey = (\<lambda>_. None)\<rparr>"

definition demo_identity :: ds_identity where
  "demo_identity = \<lparr>id_Id = ''i'', id_Name = ''alice'', id_DefaultHostingPrecedence = HostDefault, id_DefaultHostingCost = 0,
     id_ServiceHostingPrecedences = [], id_ServiceHostingCosts = [], id_AppDataJson = '''', id_ServiceConfigs = [], id_Disabled = False\<rparr>"

definition demo_service :: ds_service where
  "demo_service = \<lparr>svc_Id = ''s'', svc_Name = ''web'', svc_EncryptionRequired = True, svc_Configs = []\<rparr>"

definition demo_check :: ds_posture_check where
  "demo_check = \<lparr>chk_Id = ''c'', chk_Name = ''mfa'', chk_TypeId = ''MFA'', chk_Subtype = None\<rparr>"

definition demo_policy :: ds_policy where
  "demo_policy = \<lparr>pol_Id = ''p'', pol_Name = ''dial'', pol_PolicyType = DialPolicy\<rparr>"

definition demo_events :: "ds_event list" where
  "demo_events = [create_event (IdentityModel demo_identity), create_event (ServiceModel demo_service),
     create_event (PostureCheckModel demo_check), create_event (ServicePolicyModel demo_policy),
     change_event ''p'' RelatedService True [''s''], change_event ''p'' RelatedPostureCheck True [''c''],
     change_event ''p'' RelatedIdentity True [''i'']]"

definition demo_model :: "(string, unit) rdm" where
  "demo_model = EnableServiceAccessTracking ''i'' (the (ofold (Handle demo_parsers 1) demo_events (NewReceiverRouterDataModel ''r'')))"

lemmas demo_defs = demo_parsers_def demo_identity_def demo_service_def demo_check_def demo_policy_def demo_events_def create_event_def change_event_def

lemma demo_wf: "events_wf demo_parsers empty_data_model demo_events"
  by (simp add: demo_defs empty_data_model_def event_wf_def change_wf_def data_step_def Let_def put_def forget_def policy_step_def
      change_step_def member_change_def change_set_members_def)

lemma reachable_events:
  assumes "rdm_reachable parsers m" and "events_wf parsers (router_spec m) es"
  shows "\<exists>m'. ofold (Handle parsers index) es m = Some m' \<and> rdm_reachable parsers m'"
  using assms
proof (induction es arbitrary: m)
  case (Cons e es)
  obtain m1 where m1: "Handle parsers index e m = Some m1" "router_spec m1 = data_step parsers e (router_spec m)"
    using Handle_step [OF reachable_ok [OF Cons.prems(1)], of e parsers index] Cons.prems(2) by auto
  then have "rdm_reachable parsers m1" using rdm_reachable.event Cons.prems by auto
  then show ?case using Cons.IH [of m1] Cons.prems(2) m1 by simp
qed auto

lemma demo_reachable: "rdm_reachable demo_parsers demo_model"
proof -
  have "events_wf demo_parsers (router_spec (NewReceiverRouterDataModel ''r'' :: (string, unit) rdm)) demo_events" by (simp add: new_model demo_wf)
  from reachable_events [OF rdm_reachable.start this, of 1] obtain m where
    "ofold (Handle demo_parsers 1) demo_events (NewReceiverRouterDataModel ''r'' :: (string, unit) rdm) = Some m" "rdm_reachable demo_parsers m" by blast
  then show ?thesis by (simp add: demo_model_def rdm_reachable.track)
qed

lemma demo_tracked: "map_option i_tracking (map_of (m_Identities demo_model) ''i'') = Some True"
  by code_simp

lemma demo_has_service: "map_of (m_Services demo_model) ''s'' \<noteq> None"
  by code_simp

lemma demo_policy_stored:
  "map_option (\<lambda>P. IsDial P \<and> ''i'' \<in> set (p_Identities P) \<and> ''s'' \<in> set (p_Services P) \<and> ''c'' \<in> set (p_PostureChecks P))
     (map_of (m_ServicePolicies demo_model) ''p'') = Some True"
  by code_simp

section \<open>Safety of the model\<close>

text \<open>
  The events of the controller never make the router panic. In every state that a router's model can
  reach, every well-formed event is handled and leads to a state that is reachable again; and all references are good: policies, identities,
  services and posture checks that name each other exist, and an identity is in a policy exactly if the policy lists it.
\<close>

lemma reachable_model_safe:
  assumes "rdm_reachable parsers m"
  shows "rdm_ok m \<and> (\<forall>e index. event_wf (router_spec m) e \<longrightarrow> (\<exists>m'. Handle parsers index e m = Some m' \<and> rdm_reachable parsers m'))"
proof (intro conjI allI impI)
  fix e index assume e: "event_wf (router_spec m) e"
  obtain m' where "Handle parsers index e m = Some m'" using Handle_step [OF reachable_ok [OF assms] e] by blast
  then show "\<exists>m'. Handle parsers index e m = Some m' \<and> rdm_reachable parsers m'" using rdm_reachable.event [OF assms e] by blast
qed (rule reachable_ok [OF assms])

lemma reachable_model_safe_example:
  "rdm_reachable demo_parsers demo_model \<and> rdm_ok demo_model \<and>
    (\<exists>m'. Handle demo_parsers 2 (create_event (ServiceModel demo_service)) demo_model = Some m' \<and> rdm_reachable demo_parsers m')"
proof -
  have "event_wf (router_spec demo_model) (create_event (ServiceModel demo_service))" by (simp add: event_wf_def create_event_def)
  then show ?thesis using reachable_model_safe [OF demo_reachable] demo_reachable by blast
qed

section \<open>Access\<close>

lemma pol_count_pos_iff: "0 < pol_count T f ps \<longleftrightarrow> (\<exists>p \<in> set ps. \<exists>P. T p = Some P \<and> f P)"
  by (induction ps) (auto simp: pol_count_def split: option.split)

lemma identity_policies:
  assumes ok: "rdm_ok m" and d: "map_of (m_Identities m) i = Some d" and f: "\<And>P. f (pcore P) = f P"
  shows "0 < pol_count (pols m) f (i_ServicePolicies d) \<longleftrightarrow>
    (\<exists>p P. map_of (m_ServicePolicies m) p = Some P \<and> i \<in> set (p_Identities P) \<and> f P)"
proof -
  have "identity_ok (pols m) i d" using model_okD(3) [OF rdm_okD(1) [OF ok]] d by (simp add: ids_def)
  then have "p \<in> set (i_ServicePolicies d) \<longleftrightarrow> (\<exists>P. map_of (m_ServicePolicies m) p = Some P \<and> i \<in> set (p_Identities P))" for p
    by (auto simp: identity_ok_def pols_def)
  then show ?thesis unfolding pol_count_pols [of f, OF f] pol_count_pos_iff by (metis option.inject)
qed

lemma access_allowed:
  assumes ok: "rdm_ok m" and d: "map_of (m_Identities m) i = Some d" and t: "i_tracking d"
  shows "(\<exists>a. map_of (i_ServiceAccess d) s = Some a \<and> IsDialAllowed a) \<longleftrightarrow>
      (\<exists>p P. map_of (m_ServicePolicies m) p = Some P \<and> i \<in> set (p_Identities P) \<and> dials s P)"
    "(\<exists>a. map_of (i_ServiceAccess d) s = Some a \<and> IsBindAllowed a) \<longleftrightarrow>
      (\<exists>p P. map_of (m_ServicePolicies m) p = Some P \<and> i \<in> set (p_Identities P) \<and> binds s P)"
proof -
  have "consistent (pols m) d" using model_okD(3) [OF rdm_okD(1) [OF ok], of i d] d by (simp add: ids_def identity_ok_def)
  then have c: "access_count DialPoliciesCount d s = pol_count (pols m) (dials s) (i_ServicePolicies d)"
    "access_count BindPoliciesCount d s = pol_count (pols m) (binds s) (i_ServicePolicies d)"
    using t by (simp_all add: consistent_def access_consistent_def)
  have "(\<exists>a. map_of (i_ServiceAccess d) s = Some a \<and> IsDialAllowed a) \<longleftrightarrow> 0 < access_count DialPoliciesCount d s"
    "(\<exists>a. map_of (i_ServiceAccess d) s = Some a \<and> IsBindAllowed a) \<longleftrightarrow> 0 < access_count BindPoliciesCount d s"
    by (auto simp: access_count_def IsDialAllowed_def IsBindAllowed_def split: option.split)
  then show "(\<exists>a. map_of (i_ServiceAccess d) s = Some a \<and> IsDialAllowed a) \<longleftrightarrow>
      (\<exists>p P. map_of (m_ServicePolicies m) p = Some P \<and> i \<in> set (p_Identities P) \<and> dials s P)"
    "(\<exists>a. map_of (i_ServiceAccess d) s = Some a \<and> IsBindAllowed a) \<longleftrightarrow>
      (\<exists>p P. map_of (m_ServicePolicies m) p = Some P \<and> i \<in> set (p_Identities P) \<and> binds s P)"
    unfolding c using identity_policies [OF ok d, of "dials s"] identity_policies [OF ok d, of "binds s"] by simp_all
qed

lemma checks_needed:
  assumes ok: "rdm_ok m" and d: "map_of (m_Identities m) i = Some d"
  shows "c \<in> fst ` set (i_PostureChecks d) \<longleftrightarrow>
    (\<exists>p P. map_of (m_ServicePolicies m) p = Some P \<and> i \<in> set (p_Identities P) \<and> requires c P)"
proof -
  have "consistent (pols m) d" using model_okD(3) [OF rdm_okD(1) [OF ok], of i d] d by (simp add: ids_def identity_ok_def)
  then have u: "use_count d c = pol_count (pols m) (requires c) (i_ServicePolicies d)" "\<And>v. map_of (i_PostureChecks d) c = Some v \<Longrightarrow> 0 < v"
    by (simp_all add: consistent_def checks_consistent_def)
  have "c \<in> fst ` set (i_PostureChecks d) \<longleftrightarrow> map_of (i_PostureChecks d) c \<noteq> None" by (simp add: map_of_eq_None_iff)
  also have "\<dots> \<longleftrightarrow> 0 < use_count d c" using u(2) by (auto simp: use_count_def split: option.split)
  also have "\<dots> \<longleftrightarrow> (\<exists>p P. map_of (m_ServicePolicies m) p = Some P \<and> i \<in> set (p_Identities P) \<and> requires c P)"
    unfolding u(1) using identity_policies [OF ok d, of "requires c"] by simp
  finally show ?thesis .
qed



section \<open>Lists of services\<close>

text \<open>The entry of a service in a list, without the indexes that say when it last changed.\<close>

definition is_core :: "identity_service \<Rightarrow> identity_service" where
  "is_core x = x\<lparr>is_dialPoliciesIndex := 0, is_bindPoliciesIndex := 0\<rparr>"

definition service_entry :: "('k, 's) rdm \<Rightarrow> identity \<Rightarrow> service \<Rightarrow> bool \<Rightarrow> bool \<Rightarrow> identity_service" where
  "service_entry m d v dial bind = \<lparr>is_Service = v,
     is_Configs = (case GetIdentityServiceConfigs m (i_Data d) (svc_Id (s_Data v)) of Some c \<Rightarrow> c | None \<Rightarrow> []),
     is_DialAllowed = dial, is_BindAllowed = bind, is_dialPoliciesIndex = 0, is_bindPoliciesIndex = 0\<rparr>"

text \<open>The list of services from pairs of a policy and one of its services.\<close>

definition listed :: "('k, 's) rdm \<Rightarrow> identity \<Rightarrow> (service_policy \<times> string) set \<Rightarrow> string \<Rightarrow> identity_service option" where
  "listed m d G s = (if \<exists>P. (P, s) \<in> G
     then map_option (\<lambda>v. service_entry m d v (\<exists>P. (P, s) \<in> G \<and> IsDial P) (\<exists>P. (P, s) \<in> G \<and> IsBind P)) (map_of (m_Services m) s)
     else None)"

lemma is_core_grant:
  "is_core (grant P x) = (if IsDial P then (is_core x)\<lparr>is_DialAllowed := True\<rparr> else if IsBind P then (is_core x)\<lparr>is_BindAllowed := True\<rparr> else is_core x)"
  by (simp add: is_core_def grant_def Let_def)

lemma add_service_listed:
  assumes "\<And>s. map_option is_core (map_of acc s) = listed m d G s"
  shows "map_option is_core (map_of (add_service m d P t acc) s) = listed m d (insert (P, t) G) s"
proof (cases "s = t")
  case False
  then have "listed m d (insert (P, t) G) s = listed m d G s" by (simp add: listed_def)
  then show ?thesis using False assms [of s] by (simp add: add_service_def update_conv' split: option.split)
next
  case True
  show ?thesis
  proof (cases "map_of (m_Services m) t")
    case None
    then show ?thesis using True assms [of t] by (simp add: add_service_def listed_def)
  next
    case (Some v)
    define x where "x = (case map_of acc t of Some x \<Rightarrow> x | None \<Rightarrow> service_entry m d v False False)"
    have x: "is_core x = service_entry m d v (\<exists>P. (P, t) \<in> G \<and> IsDial P) (\<exists>P. (P, t) \<in> G \<and> IsBind P)"
      using assms [of t] Some by (auto simp: x_def listed_def is_core_def service_entry_def split: option.splits if_splits)
    have "map_of (add_service m d P t acc) t = Some (grant P x)"
      using Some by (simp add: add_service_def update_conv' x_def service_entry_def cong: option.case_cong)
    then show ?thesis using True Some x dial_not_bind [of P]
      by (auto simp: is_core_grant listed_def service_entry_def)
  qed
qed

lemma fold_add_service_listed:
  assumes "\<And>s. map_option is_core (map_of acc s) = listed m d G s"
  shows "map_option is_core (map_of (foldl (\<lambda>acc (P, t). add_service m d P t acc) acc xs) s) = listed m d (G \<union> set xs) s"
  using assms
proof (induction xs arbitrary: acc G)
  case (Cons x xs)
  obtain P t where x: "x = (P, t)" by fastforce
  show ?case using Cons.IH [OF add_service_listed [OF Cons.prems, of P t]] by (simp add: x)
qed simp

definition policy_services :: "('k, 's) rdm \<Rightarrow> string list \<Rightarrow> (service_policy \<times> string) list" where
  "policy_services m ps = concat (map (\<lambda>p. case map_of (m_ServicePolicies m) p of None \<Rightarrow> [] | Some P \<Rightarrow> map (Pair P) (p_Services P)) ps)"

lemma foldl_concat: "foldl f a (concat xss) = foldl (foldl f) a xss"
  by (induction xss arbitrary: a) simp_all

lemma foldl_map_pair: "foldl (\<lambda>acc (P, t). f P t acc) a (map (Pair P) xs) = foldl (\<lambda>acc t. f P t acc) a xs"
  by (induction xs arbitrary: a) simp_all

lemma foldl_both:
  "foldl (\<lambda>(a, b) x. case h x of None \<Rightarrow> (a, b) | Some y \<Rightarrow> (f a y, g b y)) (a, b) xs =
     (foldl (\<lambda>a x. case h x of None \<Rightarrow> a | Some y \<Rightarrow> f a y) a xs, foldl (\<lambda>b x. case h x of None \<Rightarrow> b | Some y \<Rightarrow> g b y) b xs)"
  by (induction xs arbitrary: a b) (auto split: option.split)

lemma buildServiceList_parts:
  "fst (buildServiceList m d) = foldl (\<lambda>acc (P, t). add_service m d P t acc) [] (policy_services m (i_ServicePolicies d))"
  "snd (buildServiceList m d) = foldl (\<lambda>cs p. case map_of (m_ServicePolicies m) p of None \<Rightarrow> cs | Some P \<Rightarrow> loadServicePostureChecks m P cs) [] (i_ServicePolicies d)"
proof -
  have "foldl (\<lambda>acc p. case map_of (m_ServicePolicies m) p of None \<Rightarrow> acc | Some P \<Rightarrow> foldl (\<lambda>acc s. add_service m d P s acc) acc (p_Services P)) a ps =
      foldl (\<lambda>acc (P, t). add_service m d P t acc) a (policy_services m ps)" for a ps
    by (induction ps arbitrary: a) (simp_all add: policy_services_def foldl_map_pair split: option.split)
  then show "fst (buildServiceList m d) = foldl (\<lambda>acc (P, t). add_service m d P t acc) [] (policy_services m (i_ServicePolicies d))"
    unfolding buildServiceList_def foldl_both by simp
  show "snd (buildServiceList m d) = foldl (\<lambda>cs p. case map_of (m_ServicePolicies m) p of None \<Rightarrow> cs | Some P \<Rightarrow> loadServicePostureChecks m P cs) [] (i_ServicePolicies d)"
    unfolding buildServiceList_def foldl_both by simp
qed

lemma buildServiceList_services:
  "map_option is_core (map_of (fst (buildServiceList m d)) s) = listed m d (set (policy_services m (i_ServicePolicies d))) s"
  unfolding buildServiceList_parts using fold_add_service_listed [of "[]" m d "{}" "policy_services m (i_ServicePolicies d)" s]
  by (simp add: listed_def)

lemma in_policy_services:
  "(P, s) \<in> set (policy_services m ps) \<longleftrightarrow> (\<exists>p \<in> set ps. map_of (m_ServicePolicies m) p = Some P \<and> s \<in> set (p_Services P))"
  by (induction ps) (auto simp: policy_services_def split: option.split)

lemma denormalized_services_entry:
  assumes "distinct (map fst (i_ServiceAccess d))"
  shows "map_option is_core (map_of (denormalized_services m d) s) =
    (case map_of (i_ServiceAccess d) s of None \<Rightarrow> None
     | Some a \<Rightarrow> map_option (\<lambda>v. service_entry m d v (IsDialAllowed a) (IsBindAllowed a)) (map_of (m_Services m) s))"
proof -
  define g where "g s a = map_option (\<lambda>v. (service_entry m d v (IsDialAllowed a) (IsBindAllowed a))
    \<lparr>is_dialPoliciesIndex := dialPoliciesIndex a, is_bindPoliciesIndex := bindPoliciesIndex a\<rparr>) (map_of (m_Services m) s)" for s a
  have fold: "map_of (foldl (\<lambda>acc (s, a). case g s a of None \<Rightarrow> acc | Some r \<Rightarrow> AList.update s r acc) acc xs) s =
      (case map_of xs s of None \<Rightarrow> map_of acc s | Some a \<Rightarrow> (case g s a of None \<Rightarrow> map_of acc s | Some r \<Rightarrow> Some r))"
    if "distinct (map fst xs)" for xs acc
    using that
  proof (induction xs arbitrary: acc)
    case (Cons x xs)
    obtain t a where x: "x = (t, a)" by fastforce
    have "map_of xs t = None" using Cons.prems x by (simp add: map_of_eq_None_iff)
    then show ?case using Cons by (auto simp: x update_conv' split: option.split)
  qed simp
  have "denormalized_services m d = foldl (\<lambda>acc (s, a). case g s a of None \<Rightarrow> acc | Some r \<Rightarrow> AList.update s r acc) [] (i_ServiceAccess d)"
    unfolding denormalized_services_def
    by (rule foldl_cong [OF refl refl]) (auto simp: g_def service_entry_def split: option.split)
  then have "map_of (denormalized_services m d) s = (case map_of (i_ServiceAccess d) s of None \<Rightarrow> None | Some a \<Rightarrow> g s a)"
    using fold [OF assms, of "[]"] by (simp split: option.split)
  then show ?thesis by (simp add: g_def option.map_comp comp_def is_core_def service_entry_def split: option.split)
qed

lemma found_checks_entry:
  "map_of (found_checks m ks acc) c = (if c \<in> set ks then (case map_of (m_PostureChecks m) c of None \<Rightarrow> map_of acc c | Some v \<Rightarrow> Some v) else map_of acc c)"
  by (induction ks arbitrary: acc) (auto simp: found_checks_def update_conv' split: option.split)

lemma loadServicePostureChecks_entry:
  assumes "\<And>c v. map_of acc c = Some v \<Longrightarrow> map_of (m_PostureChecks m) c = Some v"
  shows "map_of (loadServicePostureChecks m P acc) c = (if requires c P then map_of (m_PostureChecks m) c else map_of acc c)"
proof -
  have "map_of (foldl (\<lambda>acc c. if map_of acc c \<noteq> None then acc
      else case map_of (m_PostureChecks m) c of Some v \<Rightarrow> AList.update c v acc | None \<Rightarrow> acc) acc cs) c =
    (if c \<in> set cs then map_of (m_PostureChecks m) c else map_of acc c)" if "\<And>c v. map_of acc c = Some v \<Longrightarrow> map_of (m_PostureChecks m) c = Some v" for cs acc
    using that
  proof (induction cs arbitrary: acc)
    case (Cons x cs)
    let ?acc = "if map_of acc x \<noteq> None then acc else case map_of (m_PostureChecks m) x of Some v \<Rightarrow> AList.update x v acc | None \<Rightarrow> acc"
    have acc: "map_of ?acc k = (if k = x then map_of (m_PostureChecks m) x else map_of acc k)" for k
      using Cons.prems [of x] by (auto simp: update_conv' split: option.split)
    have "map_of (m_PostureChecks m) k = Some v" if "map_of ?acc k = Some v" for k v
      using that Cons.prems [of k v] unfolding acc by (simp split: if_splits)
    from Cons.IH [of ?acc, OF this] show ?case unfolding foldl.simps acc by auto
  qed simp
  from this [OF assms] show ?thesis by (simp add: loadServicePostureChecks_def requires_def)
qed

lemma buildServiceList_checks:
  "map_of (snd (buildServiceList m d)) c =
    (if \<exists>p \<in> set (i_ServicePolicies d). \<exists>P. map_of (m_ServicePolicies m) p = Some P \<and> requires c P then map_of (m_PostureChecks m) c else None)"
proof -
  let ?load = "\<lambda>cs p. case map_of (m_ServicePolicies m) p of None \<Rightarrow> cs | Some P \<Rightarrow> loadServicePostureChecks m P cs"
  have F: "map_of (foldl ?load acc ps) c =
      (if \<exists>p \<in> set ps. \<exists>P. map_of (m_ServicePolicies m) p = Some P \<and> requires c P then map_of (m_PostureChecks m) c else map_of acc c)"
    if "\<And>c v. map_of acc c = Some v \<Longrightarrow> map_of (m_PostureChecks m) c = Some v" for ps acc
    using that
  proof (induction ps arbitrary: acc)
    case (Cons p ps)
    show ?case
    proof (cases "map_of (m_ServicePolicies m) p")
      case None
      then show ?thesis using Cons by simp
    next
      case (Some P)
      have e: "map_of (loadServicePostureChecks m P acc) k = (if requires k P then map_of (m_PostureChecks m) k else map_of acc k)" for k
        by (rule loadServicePostureChecks_entry) (rule Cons.prems)
      have "map_of (m_PostureChecks m) k = Some v" if "map_of (loadServicePostureChecks m P acc) k = Some v" for k v
        using that Cons.prems [of k v] unfolding e by (simp split: if_splits)
      from Cons.IH [of "loadServicePostureChecks m P acc", OF this] show ?thesis using Some by (auto simp: e)
    qed
  qed simp
  show ?thesis unfolding buildServiceList_parts using F [of "[]" "i_ServicePolicies d"] by auto
qed

lemma identity_policy_iff:
  assumes "rdm_ok m" and "map_of (m_Identities m) i = Some d"
  shows "p \<in> set (i_ServicePolicies d) \<longleftrightarrow> (\<exists>P. map_of (m_ServicePolicies m) p = Some P \<and> i \<in> set (p_Identities P))"
  using model_okD(3) [OF rdm_okD(1) [OF assms(1)], of i d] assms(2) by (auto simp: ids_def identity_ok_def pols_def)

lemma policy_services_iff:
  assumes "rdm_ok m" and "map_of (m_Identities m) i = Some d"
  shows "(P, s) \<in> set (policy_services m (i_ServicePolicies d)) \<longleftrightarrow>
    (\<exists>p. map_of (m_ServicePolicies m) p = Some P \<and> i \<in> set (p_Identities P) \<and> s \<in> set (p_Services P))"
  unfolding in_policy_services Bex_def identity_policy_iff [OF assms] by auto

lemma denormalized_listed:
  assumes ok: "rdm_ok m" and d: "map_of (m_Identities m) i = Some d" and t: "i_tracking d"
  shows "map_option is_core (map_of (denormalized_services m d) s) = listed m d (set (policy_services m (i_ServicePolicies d))) s"
proof -
  have "consistent (pols m) d" using model_okD(3) [OF rdm_okD(1) [OF ok], of i d] d by (simp add: ids_def identity_ok_def)
  then have "access_entries d" using t by (simp add: consistent_def access_consistent_def)
  then have dist: "distinct (map fst (i_ServiceAccess d))" and valid: "\<And>a. map_of (i_ServiceAccess d) s = Some a \<Longrightarrow> HasAccess a"
    by (simp_all add: access_entries_def access_valid_def del: map_of_eq_Some_iff)
  let ?G = "set (policy_services m (i_ServicePolicies d))"
  note A = access_allowed [OF ok d t, of s, unfolded dials_def binds_def]
  note G = policy_services_iff [OF ok d, of _ s]
  have dial: "(\<exists>P. (P, s) \<in> ?G \<and> IsDial P) \<longleftrightarrow> (\<exists>a. map_of (i_ServiceAccess d) s = Some a \<and> IsDialAllowed a)" unfolding A G by auto
  have bind: "(\<exists>P. (P, s) \<in> ?G \<and> IsBind P) \<longleftrightarrow> (\<exists>a. map_of (i_ServiceAccess d) s = Some a \<and> IsBindAllowed a)" unfolding A G by auto
  have "IsDial P \<or> IsBind P" if G: "(P, s) \<in> ?G" for P
  proof -
    obtain p where "map_of (m_ServicePolicies m) p = Some P" using G unfolding in_policy_services by blast
    from policy_ok_stored [OF ok this] show ?thesis by (simp add: policy_ok_def)
  qed
  then have typed: "(\<exists>P. (P, s) \<in> ?G) \<longleftrightarrow> (\<exists>P. (P, s) \<in> ?G \<and> IsDial P) \<or> (\<exists>P. (P, s) \<in> ?G \<and> IsBind P)" by blast
  show ?thesis
  proof (cases "map_of (i_ServiceAccess d) s")
    case None
    then show ?thesis unfolding listed_def typed dial bind by (simp add: denormalized_services_entry [OF dist])
  next
    case (Some a)
    then have "IsDialAllowed a \<or> IsBindAllowed a" using valid by (simp add: HasAccess_def)
    then show ?thesis using Some unfolding listed_def typed dial bind by (simp add: denormalized_services_entry [OF dist])
  qed
qed

text \<open>
  The two ways to list the services of an identity agree. For a tracked identity in a reachable state
  the list from the denormalized counters has the same services, with the same configs and the same permissions to dial and bind,
  and the same posture checks, as the list that is computed from all policies of the identity.
\<close>

lemma denormalized_list_correct:
  assumes "rdm_reachable parsers m" and "map_of (m_Identities m) i = Some d" and "i_tracking d"
  shows "map_option is_core (map_of (fst (buildServiceListUsingDenormalizedData m i)) s) = map_option is_core (map_of (fst (buildServiceList m d)) s) \<and>
    map_of (snd (buildServiceListUsingDenormalizedData m i)) c = map_of (snd (buildServiceList m d)) c"
proof
  note ok = reachable_ok [OF assms(1)]
  show "map_option is_core (map_of (fst (buildServiceListUsingDenormalizedData m i)) s) = map_option is_core (map_of (fst (buildServiceList m d)) s)"
    unfolding buildServiceList_services using denormalized_listed [OF ok assms(2,3), of s] assms(2)
    by (simp add: buildServiceListUsingDenormalizedData_def)
  have "(\<exists>p \<in> set (i_ServicePolicies d). \<exists>P. map_of (m_ServicePolicies m) p = Some P \<and> requires c P) \<longleftrightarrow> c \<in> fst ` set (i_PostureChecks d)"
    unfolding checks_needed [OF ok assms(2)] Bex_def identity_policy_iff [OF ok assms(2)] by (metis option.inject)
  then show "map_of (snd (buildServiceListUsingDenormalizedData m i)) c = map_of (snd (buildServiceList m d)) c"
    using assms(2) by (simp add: buildServiceListUsingDenormalizedData_def buildServiceList_checks found_checks_entry split: option.split)
qed

lemma denormalized_list_correct_example:
  "\<exists>d. map_of (m_Identities demo_model) ''i'' = Some d \<and> i_tracking d \<and>
    map_option is_core (map_of (fst (buildServiceListUsingDenormalizedData demo_model ''i'')) ''s'') = map_option is_core (map_of (fst (buildServiceList demo_model d)) ''s'') \<and>
    map_of (snd (buildServiceListUsingDenormalizedData demo_model ''i'')) ''c'' = map_of (snd (buildServiceList demo_model d)) ''c''"
proof -
  obtain d where d: "map_of (m_Identities demo_model) ''i'' = Some d" "i_tracking d" using demo_tracked by auto
  show ?thesis using denormalized_list_correct [OF demo_reachable d, of "''s''" "''c''"] d by blast
qed

section \<open>Policies that grant access\<close>

definition load_check :: "('k, 's) rdm \<Rightarrow> string \<Rightarrow> ds_posture_check cmap \<Rightarrow> ds_posture_check cmap option" where
  "load_check m c checks = (if map_of checks c \<noteq> None then Some checks
     else map_option (\<lambda>v. AList.update c (k_Data v) checks) (map_of (m_PostureChecks m) c))"

lemma load_checks_fold: "load_checks m p = ofold (load_check m) (p_PostureChecks p)"
  unfolding load_checks_def load_check_def fun_eq_iff by simp

lemma ofold_concat: "ofold (\<lambda>p. ofold f (g p)) ps s = ofold f (concat (map g ps)) s"
  by (induction ps arbitrary: s) (simp_all add: ofold_append split: option.split)

lemma load_checks_policies:
  "ofold (load_checks m) ps checks = ofold (load_check m) (concat (map p_PostureChecks ps)) checks"
proof -
  have "load_checks m = (\<lambda>p. ofold (load_check m) (p_PostureChecks p))" by (simp add: fun_eq_iff load_checks_fold)
  then show ?thesis by (simp add: ofold_concat)
qed

lemma ofold_load_check:
  assumes "\<And>c. c \<in> set cs \<Longrightarrow> map_of (m_PostureChecks m) c \<noteq> None"
    and "\<And>c v. map_of checks c = Some v \<Longrightarrow> map_option k_Data (map_of (m_PostureChecks m) c) = Some v"
  shows "\<exists>r. ofold (load_check m) cs checks = Some r \<and>
    (\<forall>c. map_of r c = (if c \<in> set cs then map_option k_Data (map_of (m_PostureChecks m) c) else map_of checks c))"
  using assms
proof (induction cs arbitrary: checks)
  case (Cons x cs)
  obtain v where v: "map_of (m_PostureChecks m) x = Some v" using Cons.prems(1) [of x] by auto
  define checks' where "checks' = (if map_of checks x \<noteq> None then checks else AList.update x (k_Data v) checks)"
  have step: "load_check m x checks = Some checks'" using v by (simp add: load_check_def checks'_def)
  have get: "map_of checks' c = (if c = x then Some (k_Data v) else map_of checks c)" for c
    using Cons.prems(2) [of x] v by (auto simp: checks'_def update_conv')
  have old: "map_option k_Data (map_of (m_PostureChecks m) c) = Some w" if "map_of checks' c = Some w" for c w
    using that Cons.prems(2) [of c w] v unfolding get by (simp split: if_splits)
  obtain r where r: "ofold (load_check m) cs checks' = Some r"
    "\<And>c. map_of r c = (if c \<in> set cs then map_option k_Data (map_of (m_PostureChecks m) c) else map_of checks' c)"
    using Cons.IH [of checks', OF Cons.prems(1) old] by auto
  then show ?case using step v by (auto simp: get)
qed simp

lemma ofold_load_check_missing:
  assumes "c \<in> set cs" and "map_of (m_PostureChecks m) c = None" and "map_of checks c = None"
  shows "ofold (load_check m) cs checks = None"
  using assms(1,3)
proof (induction cs arbitrary: checks)
  case (Cons x cs)
  show ?case
  proof (cases "load_check m x checks")
    case (Some checks')
    then have "x \<noteq> c" using assms(2) Cons.prems(2) by (auto simp: load_check_def)
    moreover from this have "map_of checks' c = None" using Some Cons.prems(2) by (auto simp: load_check_def update_conv' split: if_splits)
    ultimately show ?thesis using Some Cons by simp
  qed simp
qed simp

definition granting :: "('k, 's) rdm \<Rightarrow> string \<Rightarrow> string \<Rightarrow> policy_type \<Rightarrow> service_policy set" where
  "granting m i s ty = {P. \<exists>p. map_of (m_ServicePolicies m) p = Some P \<and> i \<in> set (p_Identities P) \<and> s \<in> set (p_Services P) \<and> pol_PolicyType (p_Data P) = ty}"

lemma set_grants:
  assumes "rdm_ok m" and "map_of (m_Identities m) i = Some d"
  shows "set (List.map_filter (grants m ty s) (i_ServicePolicies d)) = granting m i s ty"
proof -
  have "P \<in> set (List.map_filter (grants m ty s) (i_ServicePolicies d)) \<longleftrightarrow> (\<exists>p. p \<in> set (i_ServicePolicies d) \<and> grants m ty s p = Some P)" for P
    by (force simp: List.map_filter_def)
  moreover have "grants m ty s p = Some P \<longleftrightarrow> map_of (m_ServicePolicies m) p = Some P \<and> s \<in> set (p_Services P) \<and> pol_PolicyType (p_Data P) = ty" for p P
    by (auto simp: grants_def split: option.split)
  ultimately show ?thesis unfolding granting_def identity_policy_iff [OF assms] by (intro set_eqI) (simp, metis option.inject)
qed

text \<open>
  An access check finds exactly the policies that grant the access, and does not panic. In a reachable
  state, for an identity and a service of the model, the policies returned are those of the requested type that have
  both, and the posture checks returned are all posture checks of these policies, with their data.
\<close>

lemma access_policies_exact:
  assumes "rdm_reachable parsers m" and "map_of (m_Identities m) i = Some d" and "map_of (m_Services m) s = Some v"
  shows "\<exists>r. GetServiceAccessPolicies m i s ty = Some (Inr r) \<and> ap_Identity r = d \<and> ap_Service r = v \<and>
    set (ap_Policies r) = {P. \<exists>p. map_of (m_ServicePolicies m) p = Some P \<and> i \<in> set (p_Identities P) \<and> s \<in> set (p_Services P) \<and> pol_PolicyType (p_Data P) = ty} \<and>
    (\<forall>c. map_of (ap_PostureChecks r) c =
      (if c \<in> (\<Union>P \<in> set (ap_Policies r). set (p_PostureChecks P)) then map_option k_Data (map_of (m_PostureChecks m) c) else None))"
proof -
  note ok = reachable_ok [OF assms(1)]
  define ps where "ps = List.map_filter (grants m ty s) (i_ServicePolicies d)"
  have ps: "set ps = granting m i s ty" unfolding ps_def by (rule set_grants [OF ok assms(2)])
  let ?cs = "concat (map p_PostureChecks ps)"
  have "map_of (m_PostureChecks m) c \<noteq> None" if c: "c \<in> set ?cs" for c
  proof -
    obtain p P where P: "map_of (m_ServicePolicies m) p = Some P" "c \<in> set (p_PostureChecks P)" using c ps by (auto simp: granting_def)
    then have "pols m p = Some (pcore P)" by (simp add: pols_def)
    from model_okD(2) [OF rdm_okD(1) [OF ok] this] P(2) show ?thesis by (auto simp: members_ok_def chks_def)
  qed
  from ofold_load_check [of ?cs m "[]", OF this] obtain r where r: "ofold (load_check m) ?cs [] = Some r"
    "\<And>c. map_of r c = (if c \<in> set ?cs then map_option k_Data (map_of (m_PostureChecks m) c) else None)" by auto
  then have "GetServiceAccessPolicies m i s ty = Some (Inr \<lparr>ap_Identity = d, ap_Service = v, ap_Policies = ps, ap_PostureChecks = r\<rparr>)"
    using assms(2,3) by (simp add: GetServiceAccessPolicies_def ps_def [symmetric] load_checks_policies)
  then show ?thesis using r(2) ps by (simp add: granting_def)
qed

lemma access_policies_exact_example:
  "\<exists>r P. GetServiceAccessPolicies demo_model ''i'' ''s'' DialPolicy = Some (Inr r) \<and> P \<in> set (ap_Policies r) \<and>
    map_of (m_ServicePolicies demo_model) ''p'' = Some P"
proof -
  obtain d where d: "map_of (m_Identities demo_model) ''i'' = Some d" using demo_tracked by auto
  obtain v where v: "map_of (m_Services demo_model) ''s'' = Some v" using demo_has_service by auto
  obtain P where P: "map_of (m_ServicePolicies demo_model) ''p'' = Some P" "IsDial P" "''i'' \<in> set (p_Identities P)" "''s'' \<in> set (p_Services P)"
    using demo_policy_stored by auto
  then show ?thesis using access_policies_exact [OF demo_reachable d v, of DialPolicy] unfolding IsDial_def by blast
qed

text \<open>
  A posture check that is missing panics the access check. If one of the policies that grant the
  access names a posture check that the router does not have, the check is dereferenced, although the missing check
  was meant to be a failed check.
\<close>

lemma missing_check_panics:
  assumes "map_of (m_Identities m) i = Some d" and "map_of (m_Services m) s \<noteq> None" and "p \<in> set (i_ServicePolicies d)"
    and "map_of (m_ServicePolicies m) p = Some P" and "s \<in> set (p_Services P)"
    and "c \<in> set (p_PostureChecks P)" and "map_of (m_PostureChecks m) c = None"
  shows "GetServiceAccessPolicies m i s (pol_PolicyType (p_Data P)) = None"
proof -
  let ?ps = "List.map_filter (grants m (pol_PolicyType (p_Data P)) s) (i_ServicePolicies d)"
  have "grants m (pol_PolicyType (p_Data P)) s p = Some P" using assms(4,5) by (simp add: grants_def)
  then have "P \<in> set ?ps" using assms(3) by (force simp: List.map_filter_def)
  then have "ofold (load_checks m) ?ps [] = None"
    unfolding load_checks_policies using ofold_load_check_missing [OF _ assms(7), of "concat (map p_PostureChecks ?ps)" "[]"] assms(6) by auto
  then show ?thesis using assms(1,2) by (auto simp: GetServiceAccessPolicies_def)
qed

lemma missing_check_panics_example:
  "map_option (\<lambda>m. GetServiceAccessPolicies m ''i'' ''s'' DialPolicy)
     (Handle demo_parsers 2 (change_event ''p'' RelatedPostureCheck True [''gone'']) demo_model) = Some None"
proof -
  let ?h = "Handle demo_parsers 2 (change_event ''p'' RelatedPostureCheck True [''gone'']) demo_model"
  have "map_option (\<lambda>m. map_option (\<lambda>d. ''p'' \<in> set (i_ServicePolicies d)) (map_of (m_Identities m) ''i'') = Some True \<and>
      map_of (m_Services m) ''s'' \<noteq> None \<and> map_of (m_PostureChecks m) ''gone'' = None \<and>
      map_option (\<lambda>P. ''s'' \<in> set (p_Services P) \<and> ''gone'' \<in> set (p_PostureChecks P) \<and> pol_PolicyType (p_Data P) = DialPolicy)
        (map_of (m_ServicePolicies m) ''p'') = Some True) ?h = Some True" by code_simp
  then obtain m where m: "?h = Some m"
    "map_option (\<lambda>d. ''p'' \<in> set (i_ServicePolicies d)) (map_of (m_Identities m) ''i'') = Some True"
    "map_of (m_Services m) ''s'' \<noteq> None" "map_of (m_PostureChecks m) ''gone'' = None"
    "map_option (\<lambda>P. ''s'' \<in> set (p_Services P) \<and> ''gone'' \<in> set (p_PostureChecks P) \<and> pol_PolicyType (p_Data P) = DialPolicy)
        (map_of (m_ServicePolicies m) ''p'') = Some True" by auto
  obtain d P where "map_of (m_Identities m) ''i'' = Some d" "''p'' \<in> set (i_ServicePolicies d)" "map_of (m_ServicePolicies m) ''p'' = Some P"
    "''s'' \<in> set (p_Services P)" "''gone'' \<in> set (p_PostureChecks P)" "pol_PolicyType (p_Data P) = DialPolicy" using m(2,5) by auto
  then show ?thesis using missing_check_panics [of m "''i''" d "''s''" "''p''" P "''gone''"] m(1,3,4) by simp
qed

end
