(* ===== verification/Data_Model_Frame.thy ===== *)
theory Data_Model_Frame
  imports Router_Data_Model
begin

text \<open>
  The handlers of the router data model change its tables and the queues of its subscribers. They leave the
  timeline, the index, the id of the router, the cache of terminator ids and the config subscriber alone.
\<close>

section \<open>What the handlers leave alone\<close>

definition meta :: "('k, 's) rdm \<Rightarrow> string \<times> string \<times> u64 \<times> (string \<times> string) list \<times> bool" where
  "meta m = (m_timelineId m, m_selfRouterId m, m_rdmIndex m, m_terminatorIdCache m, m_configSubscriber m)"

lemma meta_updates [simp]:
  "meta (m\<lparr>m_ConfigTypes := t1\<rparr>) = meta m" "meta (m\<lparr>m_Configs := t2\<rparr>) = meta m" "meta (m\<lparr>m_Identities := t3\<rparr>) = meta m"
  "meta (m\<lparr>m_Services := t4\<rparr>) = meta m" "meta (m\<lparr>m_Routers := t5\<rparr>) = meta m" "meta (m\<lparr>m_ServicePolicies := t6\<rparr>) = meta m"
  "meta (m\<lparr>m_PostureChecks := t7\<rparr>) = meta m" "meta (m\<lparr>m_PublicKeys := t8\<rparr>) = meta m" "meta (m\<lparr>m_Revocations := t9\<rparr>) = meta m"
  "meta (m\<lparr>m_cachedPublicKeys := t10\<rparr>) = meta m" "meta (m\<lparr>m_serviceNameIndex := t11\<rparr>) = meta m" "meta (m\<lparr>m_subscriptions := t12\<rparr>) = meta m"
  "meta (m\<lparr>m_updatedIdentities := t13\<rparr>) = meta m" "meta (m\<lparr>m_events := t14\<rparr>) = meta m" "meta (m\<lparr>m_scanSubs := t15\<rparr>) = meta m"
  "meta (m\<lparr>m_dispatched := t16\<rparr>) = meta m"
  by (simp_all add: meta_def)

lemma meta_foldl [simp]: "(\<And>m x. meta (f m x) = meta m) \<Longrightarrow> meta (foldl f m xs) = meta m"
  by (induction xs arbitrary: m) simp_all

lemma meta_ofold:
  "(\<And>x m m'. f x m = Some m' \<Longrightarrow> meta m' = meta m) \<Longrightarrow> ofold f xs m = Some m' \<Longrightarrow> meta m' = meta m"
  by (induction xs arbitrary: m) (auto split: option.splits bind_splits)

lemma meta_checks [simp]:
  "meta (markIdentityForCheck i t m) = meta m" "meta (queue_check t ev i m) = meta m" "meta (queueSyncCheck i m) = meta m"
  "meta (queueNewIdentitySubCheck i m) = meta m" "meta (queueIdentityDeletedSubCheck i m) = meta m" "meta (NotifyIdentityChange i m) = meta m"
  by (simp_all add: markIdentityForCheck_def queue_check_def queueSyncCheck_def queueNewIdentitySubCheck_def
      queueIdentityDeletedSubCheck_def NotifyIdentityChange_def Let_def split: option.split)

lemma meta_notifications [simp]:
  "meta (NotifyServicePolicyServiceChange index p m) = meta m" "meta (NotifyServicePolicyPostureChecksChange index p m) = meta m"
  by (simp_all add: NotifyServicePolicyServiceChange_def NotifyServicePolicyPostureChecksChange_def Let_def split: option.split)

lemma meta_config_notifications [simp]:
  "meta (NotifyServiceOfConfigChange index x m) = meta m" "meta (dispatch_router_config t ev m) = meta m"
  "meta (dispatchRouterConfigApply t d m) = meta m" "meta (dispatchRouterConfigRemove t m) = meta m"
  by (simp_all add: NotifyServiceOfConfigChange_def dispatchRouterConfigApply_def dispatchRouterConfigRemove_def
      dispatch_router_config_def Let_def split: option.split)

lemma meta_withLockedIdentity: "withLockedIdentity i f m = Some m' \<Longrightarrow> meta m' = meta m"
  by (auto simp: withLockedIdentity_def split: option.splits)

lemma meta_with [simp]:
  "meta (withService i g m) = meta m" "meta (withPostureCheck i h m) = meta m" "meta (with_config i k m) = meta m"
  "meta (drop_name n i m) = meta m" "meta (drop_router_config c m) = meta m"
  by (simp_all add: withService_def withPostureCheck_def with_config_def drop_name_def drop_router_config_def split: option.split)

lemma meta_references [simp]:
  "meta (removeConfigReferences d m) = meta m" "meta (addConfigReferences d m) = meta m" "meta (removeFromConfigs i xs m) = meta m"
  "meta (addToConfigs i xs m) = meta m"
  by (simp_all add: removeConfigReferences_def addConfigReferences_def removeFromConfigs_def addToConfigs_def)

lemma meta_identities: "ofold (\<lambda>i. withLockedIdentity i (f i)) xs m = Some m' \<Longrightarrow> meta m' = meta m"
  by (erule meta_ofold [rotated]) (rule meta_withLockedIdentity)

lemma meta_change_identities: "meta (snd (change_identities add index xs st)) = meta (snd st)"
  by (induction add index xs st rule: change_identities.induct) (simp_all add: Let_def split: option.split)

lemma meta_change_services: "change_services add index xs (p, m) = Some (p', m') \<Longrightarrow> meta m' = meta m"
  by (auto simp: change_services_def Let_def split: option.splits if_splits dest!: meta_identities)

lemma meta_change_posture_checks: "change_posture_checks add index xs (p, m) = Some (p', m') \<Longrightarrow> meta m' = meta m"
  by (auto simp: change_posture_checks_def Let_def split: option.splits if_splits dest!: meta_identities)

lemma meta_HandleServicePolicyChange:
  assumes "HandleServicePolicyChange index model m = Some m'"
  shows "meta m' = meta m"
proof (cases "map_of (m_ServicePolicies m) (pc_PolicyId model)")
  case None
  then show ?thesis using assms by (simp add: HandleServicePolicyChange_def)
next
  case (Some p)
  obtain p1 m1 where r: "(case pc_RelatedEntityType model of
      RelatedIdentity \<Rightarrow> Some (change_identities (pc_Add model) index (pc_RelatedEntityIds model) (p, m))
    | RelatedService \<Rightarrow> map_option (\<lambda>(p, m). (p\<lparr>p_servicesIndex := index\<rparr>, m)) (change_services (pc_Add model) index (pc_RelatedEntityIds model) (p, m))
    | RelatedPostureCheck \<Rightarrow>
        map_option (\<lambda>(p, m). (p\<lparr>p_postureChecksIndex := index\<rparr>, m)) (change_posture_checks (pc_Add model) index (pc_RelatedEntityIds model) (p, m))
    | InvalidRelatedType \<Rightarrow> Some (p, m)) = Some (p1, m1)"
    using assms Some unfolding HandleServicePolicyChange_def by (auto simp: Let_def split: option.splits)
  have "meta m1 = meta m"
    using r meta_change_identities [of "pc_Add model" index "pc_RelatedEntityIds model" "(p, m)"]
    by (auto split: related_type.splits dest: meta_change_services meta_change_posture_checks)
  moreover have "meta m' = meta m1"
    using assms Some r unfolding HandleServicePolicyChange_def by (auto simp: Let_def split: if_splits)
  ultimately show ?thesis by simp
qed

lemma meta_cleanup: "cleanup_policies index ty f i ps m0 m = Some m' \<Longrightarrow> meta m' = meta m"
  unfolding cleanup_policies_def by (erule meta_ofold [rotated]) (rule meta_HandleServicePolicyChange)

lemma meta_HandleIdentityEvent: "HandleIdentityEvent index a v m = Some m' \<Longrightarrow> meta m' = meta m"
  by (auto simp: HandleIdentityEvent_def Let_def split: if_splits option.splits dest: meta_cleanup)

lemma meta_HandleServiceEvent: "HandleServiceEvent index a v m = Some m' \<Longrightarrow> meta m' = meta m"
  by (auto simp: HandleServiceEvent_def Let_def split: if_splits option.splits prod.splits dest: meta_cleanup)

lemma meta_HandleConfigEvent:
  assumes "HandleConfigEvent index a v m = Some m'"
  shows "meta m' = meta m"
proof -
  have "meta m' = meta m" if "ofold (\<lambda>k m. map_option (NotifyIdentityChange k) (withLockedIdentity k f m)) xs m = Some m'"
    for f xs and m m' :: "('a, 'b) rdm"
    using that by (rule meta_ofold [rotated]) (auto dest: meta_withLockedIdentity)
  then show ?thesis using assms
    by (auto simp: HandleConfigEvent_def Let_def split: if_splits option.splits)
qed

lemma meta_HandleServicePolicyEvent: 
  assumes "HandleServicePolicyEvent index a v m = Some m'"
  shows "meta m' = meta m"
proof -
  have "meta m' = meta m" if "ofold (\<lambda>i m. map_option (queueSyncCheck i) (withLockedIdentity i f m)) xs m = Some m'"
    for f xs and m m' :: "('a, 'b) rdm"
    using that by (rule meta_ofold [rotated]) (auto dest: meta_withLockedIdentity)
  then show ?thesis using assms
    by (auto simp: HandleServicePolicyEvent_def applyUpdateServicePolicyEvent_def applyDeleteServicePolicyEvent_def Let_def
        split: if_splits option.splits action.splits dest: meta_identities)
qed

lemma meta_HandlePostureCheckEvent: "HandlePostureCheckEvent index a v m = Some m' \<Longrightarrow> meta m' = meta m"
  by (auto simp: HandlePostureCheckEvent_def Let_def split: if_splits option.splits dest: meta_cleanup)

lemma meta_other_events:
  "meta (HandleConfigTypeEvent index a t m) = meta m" "meta (HandlePublicKeyEvent parsers a k m) = meta m"
  "meta (HandleRevocationEvent a r m) = meta m" "meta (HandleRouterEvent a v m) = meta m"
  by (simp_all add: HandleConfigTypeEvent_def HandlePublicKeyEvent_def HandleRevocationEvent_def HandleRouterEvent_def Let_def
      split: option.split prod.split)

lemma meta_Handle: "Handle parsers index e m = Some m' \<Longrightarrow> meta m' = meta m"
  by (auto simp: Handle_def Let_def meta_other_events split: ds_model.splits
      dest: meta_HandleIdentityEvent meta_HandleServiceEvent meta_HandleConfigEvent meta_HandleServicePolicyEvent
        meta_HandlePostureCheckEvent meta_HandleServicePolicyChange)

lemma meta_events: "ofold (Handle parsers index) es m = Some m' \<Longrightarrow> meta m' = meta m"
  by (erule meta_ofold [rotated]) (rule meta_Handle)

end
