(* ===== verification/Data_Model_Snapshot.thy ===== *)
theory Data_Model_Snapshot
  imports Data_Model_Services Data_Model_Frame
begin

text \<open>
  The snapshot that a controller sends to a router that cannot catch up from the event cache. The
  controller's tables are well formed in every state that well-formed events lead to; the events of the
  snapshot of such a state are well formed, and they rebuild the data of the controller.
\<close>

section \<open>Well-formed tables of the controller\<close>

definition policy_in :: "'k data_model \<Rightarrow> string \<Rightarrow> policy_spec \<Rightarrow> bool" where
  "policy_in A p P \<longleftrightarrow> pol_Id (ps_Policy P) = p \<and>
     (pol_PolicyType (ps_Policy P) = DialPolicy \<or> pol_PolicyType (ps_Policy P) = BindPolicy) \<and>
     ps_Identities P \<subseteq> dom (dm_Identities A) \<and> ps_Services P \<subseteq> dom (dm_Services A) \<and> ps_PostureChecks P \<subseteq> dom (dm_PostureChecks A)"

definition spec_ok :: "'k data_model \<Rightarrow> bool" where
  "spec_ok A \<longleftrightarrow> (\<forall>p P. dm_Policies A p = Some P \<longrightarrow> policy_in A p P)"

lemma spec_okD: "spec_ok A \<Longrightarrow> dm_Policies A p = Some P \<Longrightarrow> policy_in A p P"
  by (simp add: spec_ok_def)

lemma spec_okI: "(\<And>p P. dm_Policies A p = Some P \<Longrightarrow> policy_in A p P) \<Longrightarrow> spec_ok A"
  by (simp add: spec_ok_def)

lemma policy_in_mono:
  assumes "policy_in A p P" and "dom (dm_Identities A) \<subseteq> dom (dm_Identities B)"
    and "dom (dm_Services A) \<subseteq> dom (dm_Services B)" and "dom (dm_PostureChecks A) \<subseteq> dom (dm_PostureChecks B)"
  shows "policy_in B p P"
  using assms unfolding policy_in_def by blast

lemma spec_ok_cong:
  assumes "spec_ok A" and "dm_Policies B = dm_Policies A" and "dom (dm_Identities A) \<subseteq> dom (dm_Identities B)"
    and "dom (dm_Services A) \<subseteq> dom (dm_Services B)" and "dom (dm_PostureChecks A) \<subseteq> dom (dm_PostureChecks B)"
  shows "spec_ok B"
  using spec_okD [OF assms(1)] assms(2) policy_in_mono [OF _ assms(3-5)] by (intro spec_okI) simp

lemma spec_ok_identity:
  assumes "spec_ok A"
  shows "spec_ok (A\<lparr>dm_Identities := put a i v (dm_Identities A), dm_Policies := forget a RelatedIdentity i (dm_Policies A)\<rparr>)"
proof (cases "a = Delete")
  case False
  then show ?thesis by (intro spec_ok_cong [OF assms]) (auto simp: put_def)
next
  case True
  have "policy_in B p (member_change RelatedIdentity False {i} Q)" if "policy_in A p Q" "B = A\<lparr>dm_Identities := put a i v (dm_Identities A), dm_Policies := X\<rparr>" for p Q X B
    using that True by (auto simp: policy_in_def member_change_def change_set_members_def put_def)
  with True show ?thesis using spec_okD [OF assms] by (intro spec_okI) (auto simp: forget_def)
qed

lemma spec_ok_service:
  assumes "spec_ok A"
  shows "spec_ok (A\<lparr>dm_Services := put a i v (dm_Services A), dm_Policies := forget a RelatedService i (dm_Policies A)\<rparr>)"
proof (cases "a = Delete")
  case False
  then show ?thesis by (intro spec_ok_cong [OF assms]) (auto simp: put_def)
next
  case True
  have "policy_in B p (member_change RelatedService False {i} Q)" if "policy_in A p Q" "B = A\<lparr>dm_Services := put a i v (dm_Services A), dm_Policies := X\<rparr>" for p Q X B
    using that True by (auto simp: policy_in_def member_change_def change_set_members_def put_def)
  with True show ?thesis using spec_okD [OF assms] by (intro spec_okI) (auto simp: forget_def)
qed

lemma spec_ok_change:
  assumes ok: "spec_ok A" and wf: "change_wf A c"
  shows "spec_ok (A\<lparr>dm_Policies := change_step c (dm_Policies A)\<rparr>)"
proof (rule spec_okI)
  let ?B = "A\<lparr>dm_Policies := change_step c (dm_Policies A)\<rparr>"
  fix p P assume P: "dm_Policies ?B p = Some P"
  show "policy_in ?B p P"
  proof (cases "p = pc_PolicyId c")
    case False
    then have "policy_in A p P" using P spec_okD [OF ok] by (simp add: change_step_def)
    then show ?thesis by (simp add: policy_in_def)
  next
    case True
    then obtain Q where Q: "dm_Policies A p = Some Q" "P = member_change (pc_RelatedEntityType c) (pc_Add c) (set (pc_RelatedEntityIds c)) Q"
      using P by (auto simp: change_step_def)
    have "policy_in A p Q" using spec_okD [OF ok Q(1)] .
    then show ?thesis using wf Q True
      by (cases "pc_RelatedEntityType c") (auto simp: policy_in_def change_wf_def member_change_def change_set_members_def split: if_splits)
  qed
qed

lemma spec_ok_policy:
  assumes ok: "spec_ok A" and wf: "a = Delete \<or> pol_PolicyType v = DialPolicy \<or> pol_PolicyType v = BindPolicy"
  shows "spec_ok (A\<lparr>dm_Policies := policy_step a v (dm_Policies A)\<rparr>)"
  using ok wf by (auto simp: spec_ok_def policy_in_def policy_step_def put_def split: option.splits if_splits)

lemma spec_ok_check:
  assumes ok: "spec_ok A" and wf: "a = Delete \<longrightarrow> (\<forall>p P. dm_Policies A p = Some P \<longrightarrow> i \<notin> ps_PostureChecks P)"
  shows "spec_ok (A\<lparr>dm_PostureChecks := put a i v (dm_PostureChecks A)\<rparr>)"
proof (rule spec_okI)
  fix p P assume "dm_Policies (A\<lparr>dm_PostureChecks := put a i v (dm_PostureChecks A)\<rparr>) p = Some P"
  then have P: "dm_Policies A p = Some P" by simp
  show "policy_in (A\<lparr>dm_PostureChecks := put a i v (dm_PostureChecks A)\<rparr>) p P"
    using spec_okD [OF ok P] wf P by (auto simp: policy_in_def put_def)
qed

lemma data_step_spec_ok:
  assumes ok: "spec_ok A" and wf: "event_wf A e"
  shows "spec_ok (data_step parsers e A)"
proof (cases "ev_Model e")
  case (ServicePolicyModel v)
  then show ?thesis using spec_ok_policy [OF ok] wf by (simp add: data_step_def event_wf_def Let_def)
next
  case (PostureCheckModel v)
  then show ?thesis using spec_ok_check [OF ok] wf by (simp add: data_step_def event_wf_def Let_def)
next
  case (PolicyChangeModel c)
  then show ?thesis using spec_ok_change [OF ok] wf by (simp add: data_step_def event_wf_def Let_def)
qed (use ok in \<open>auto simp: data_step_def Let_def spec_ok_identity spec_ok_service intro: spec_ok_cong\<close>)


text \<open>A table whose entries are stored under their own id.\<close>

definition keyed :: "('v \<Rightarrow> string) \<Rightarrow> 'v cmap \<Rightarrow> bool" where
  "keyed f t \<longleftrightarrow> distinct (map fst t) \<and> (\<forall>k v. map_of t k = Some v \<longrightarrow> f v = k)"

lemma keyed_Nil [simp]: "keyed f []"
  by (simp add: keyed_def)

lemma keyed_update: "keyed f t \<Longrightarrow> f v = k \<Longrightarrow> keyed f (AList.update k v t)"
  by (auto simp: keyed_def distinct_update update_conv' simp del: map_of_eq_Some_iff split: if_splits)

lemma keyed_delete: "keyed f t \<Longrightarrow> keyed f (AList.delete k t)"
  by (auto simp: keyed_def distinct_delete delete_conv' simp del: map_of_eq_Some_iff split: if_splits)

definition identity_key :: "sender_identity option \<Rightarrow> string" where
  "identity_key v = (case v of Some w \<Rightarrow> id_Id (si_Identity w) | None \<Rightarrow> '''')"

definition sender_wf :: "'k key_parsers \<Rightarrow> 'k sender \<Rightarrow> bool" where
  "sender_wf parsers s \<longleftrightarrow> sender_ok s \<and> spec_ok (sender_spec s) \<and> keyed ct_Id (sn_ConfigTypes s) \<and>
     keyed identity_key (sn_Identities s) \<and> keyed svc_Id (sn_Services s) \<and> keyed rtr_Id (sn_Routers s) \<and>
     keyed (\<lambda>v. pol_Id (sp_Policy v)) (sn_ServicePolicies s) \<and> keyed chk_Id (sn_PostureChecks s) \<and>
     keyed pk_Kid (sn_PublicKeys s) \<and> keyed rev_Id (sn_Revocations s) \<and>
     (\<forall>p v. map_of (sn_ServicePolicies s) p = Some v \<longrightarrow> distinct (sp_Services v) \<and> distinct (sp_PostureChecks v)) \<and>
     sn_cachedPublicKeys s = parsed_keys parsers (sn_PublicKeys s)"

lemma new_sender:
  "sender_wf parsers NewRouterDataModelSender" "sender_spec NewRouterDataModelSender = empty_data_model"
  by (simp_all add: sender_wf_def sender_ok_def spec_ok_def sender_spec_def empty_data_model_def NewRouterDataModelSender_def parsed_keys_def)

lemma keyed_map_values:
  assumes "keyed f t" and "\<And>v. f (g v) = f v"
  shows "keyed f (map (\<lambda>(k, v). (k, g v)) t)"
proof -
  have "map fst (map (\<lambda>(k, v). (k, g v)) t) = map fst t" by (induction t) auto
  then show ?thesis using assms by (auto simp: keyed_def map_of_map_values simp del: map_map map_of_eq_Some_iff)
qed

lemma identity_changes_keyed:
  assumes "keyed identity_key t" and "distinct xs" and "\<And>x. x \<in> set xs \<Longrightarrow> \<exists>v. map_of t x = Some (Some v)"
  shows "keyed identity_key (foldl (\<lambda>idt i. cmap_upsert idt i (\<lambda>old. case old of
      Some (Some v) \<Rightarrow> Some (v\<lparr>si_ServicePolicies := h v\<rparr>) | _ \<Rightarrow> None)) t xs)"
  using assms
proof (induction xs arbitrary: t)
  case (Cons x xs)
  let ?f = "\<lambda>old. case old of Some (Some v) \<Rightarrow> Some (v\<lparr>si_ServicePolicies := h v\<rparr>) | _ \<Rightarrow> None"
  obtain v where v: "map_of t x = Some (Some v)" using Cons.prems(3) by auto
  then have "identity_key (Some v) = x" using Cons.prems(1) by (simp add: keyed_def del: map_of_eq_Some_iff)
  then have "identity_key (Some (v\<lparr>si_ServicePolicies := h v\<rparr>)) = x" by (simp add: identity_key_def)
  then have "keyed identity_key (cmap_upsert t x ?f)" using keyed_update [OF Cons.prems(1), of "Some (v\<lparr>si_ServicePolicies := h v\<rparr>)" x] v by (simp add: cmap_upsert_def)
  moreover have "\<exists>v. map_of (cmap_upsert t x ?f) y = Some (Some v)" if "y \<in> set xs" for y
    using that Cons.prems(2,3) by (auto simp: cmap_upsert_get)
  ultimately show ?case using Cons.IH [of "cmap_upsert t x ?f"] Cons.prems(2) by simp
qed simp

lemma sender_wf_change:
  assumes wf: "sender_wf parsers s" and c: "change_wf (sender_spec s) c"
  shows "let s' = sender_HandleServicePolicyChange c s in keyed identity_key (sn_Identities s') \<and>
    keyed (\<lambda>v. pol_Id (sp_Policy v)) (sn_ServicePolicies s') \<and>
    (\<forall>p v. map_of (sn_ServicePolicies s') p = Some v \<longrightarrow> distinct (sp_Services v) \<and> distinct (sp_PostureChecks v))"
proof -
  note W = wf [unfolded sender_wf_def]
  show ?thesis
  proof (cases "pc_RelatedEntityType c = RelatedIdentity")
    case True
    have "\<exists>v. map_of (sn_Identities s) i = Some (Some v)" if "i \<in> set (pc_RelatedEntityIds c)" for i
      using c True that by (fastforce simp: change_wf_def sender_spec_def split: option.splits)
    moreover have "distinct (pc_RelatedEntityIds c)" using c by (simp add: change_wf_def)
    ultimately show ?thesis using W True
      by (simp add: sender_HandleServicePolicyChange_def Let_def identity_changes_keyed)
  next
    case False
    show ?thesis
    proof (cases "map_of (sn_ServicePolicies s) (pc_PolicyId c)")
      case None
      then show ?thesis using W False by (simp add: sender_HandleServicePolicyChange_def)
    next
      case (Some p)
      define p' where "p' = (case pc_RelatedEntityType c of
          RelatedService \<Rightarrow> p\<lparr>sp_Services := foldl (\<lambda>xs x. change_member (pc_Add c) x xs) (sp_Services p) (pc_RelatedEntityIds c)\<rparr>
        | RelatedPostureCheck \<Rightarrow> p\<lparr>sp_PostureChecks := foldl (\<lambda>xs x. change_member (pc_Add c) x xs) (sp_PostureChecks p) (pc_RelatedEntityIds c)\<rparr> | _ \<Rightarrow> p)"
      have e: "sender_HandleServicePolicyChange c s = s\<lparr>sn_ServicePolicies := AList.update (pc_PolicyId c) p' (sn_ServicePolicies s)\<rparr>"
        using False Some by (simp add: sender_HandleServicePolicyChange_def Let_def p'_def)
      have "pol_Id (sp_Policy p) = pc_PolicyId c" "distinct (sp_Services p)" "distinct (sp_PostureChecks p)"
        using W Some by (simp_all add: keyed_def del: map_of_eq_Some_iff)
      then have "pol_Id (sp_Policy p') = pc_PolicyId c \<and> distinct (sp_Services p') \<and> distinct (sp_PostureChecks p')"
        by (cases "pc_RelatedEntityType c") (simp_all add: p'_def fold_change_member)
      then show ?thesis using W by (auto simp: e keyed_update update_conv' simp del: map_of_eq_Some_iff)
    qed
  qed
qed

lemma sender_wf_policy:
  assumes wf: "sender_wf parsers s"
  shows "let s' = sender_HandleServicePolicyEvent a v s in keyed (\<lambda>v. pol_Id (sp_Policy v)) (sn_ServicePolicies s') \<and>
    (\<forall>p w. map_of (sn_ServicePolicies s') p = Some w \<longrightarrow> distinct (sp_Services w) \<and> distinct (sp_PostureChecks w))"
  using wf unfolding sender_wf_def
  by (cases a) (auto simp: sender_HandleServicePolicyEvent_def sender_applyUpdateServicePolicyEvent_def sender_applyDeleteServicePolicyEvent_def
      cmap_upsert_def update_conv' delete_conv' Let_def simp del: map_of_eq_Some_iff intro!: keyed_update keyed_delete split: option.splits if_splits)

lemma sender_wf_service:
  assumes wf: "sender_wf parsers s"
  shows "let s' = sender_HandleServiceEvent a v s in keyed svc_Id (sn_Services s') \<and> keyed (\<lambda>v. pol_Id (sp_Policy v)) (sn_ServicePolicies s') \<and>
    (\<forall>p w. map_of (sn_ServicePolicies s') p = Some w \<longrightarrow> distinct (sp_Services w) \<and> distinct (sp_PostureChecks w))"
  using wf unfolding sender_wf_def
  by (auto simp: sender_HandleServiceEvent_def map_of_map_values Let_def simp del: map_of_eq_Some_iff intro!: keyed_update keyed_delete keyed_map_values)

lemma sender_wf_identity:
  assumes wf: "sender_wf parsers s"
  shows "keyed identity_key (sn_Identities (sender_HandleIdentityEvent a v s))"
  using wf unfolding sender_wf_def
  by (auto simp: sender_HandleIdentityEvent_def cmap_upsert_def identity_key_def intro!: keyed_update keyed_delete)


lemma sender_wf_step:
  assumes wf: "sender_wf parsers s" and e: "event_wf (sender_spec s) e" and f: "fresh_policy s e"
  shows "sender_wf parsers (sender_Handle parsers e s)"
proof -
  have ok: "sender_ok s" "spec_ok (sender_spec s)" using wf by (simp_all add: sender_wf_def)
  note S = sender_Handle_step [OF ok(1) e f, of parsers]
  have "sender_ok (sender_Handle parsers e s) \<and> spec_ok (sender_spec (sender_Handle parsers e s))"
    using S data_step_spec_ok [OF ok(2) e] by simp
  moreover have "sender_ok s' \<Longrightarrow> spec_ok (sender_spec s') \<Longrightarrow> s' = sender_Handle parsers e s \<Longrightarrow> sender_wf parsers s'" for s'
  proof (cases "ev_Model e")
    case (IdentityModel v)
    assume "sender_ok s'" "spec_ok (sender_spec s')" and s': "s' = sender_Handle parsers e s"
    then show "sender_wf parsers s'" using wf sender_wf_identity [OF wf, of "ev_Action e" v] IdentityModel
      by (simp add: sender_wf_def) (simp add: sender_Handle_def Let_def sender_HandleIdentityEvent_def)
  next
    case (ServiceModel v)
    assume "sender_ok s'" "spec_ok (sender_spec s')" and s': "s' = sender_Handle parsers e s"
    then show "sender_wf parsers s'" using wf sender_wf_service [OF wf, of "ev_Action e" v] ServiceModel
      by (simp add: sender_wf_def sender_Handle_def Let_def) (simp add: sender_HandleServiceEvent_def)
  next
    case (ServicePolicyModel v)
    assume "sender_ok s'" "spec_ok (sender_spec s')" and s': "s' = sender_Handle parsers e s"
    then show "sender_wf parsers s'" using wf sender_wf_policy [OF wf, of "ev_Action e" v] ServicePolicyModel
      by (simp add: sender_wf_def sender_Handle_def Let_def)
        (simp add: sender_HandleServicePolicyEvent_def sender_applyUpdateServicePolicyEvent_def sender_applyDeleteServicePolicyEvent_def split: action.split)
  next
    case (PolicyChangeModel c)
    assume "sender_ok s'" "spec_ok (sender_spec s')" and s': "s' = sender_Handle parsers e s"
    moreover have "change_wf (sender_spec s) c" using e PolicyChangeModel by (simp add: event_wf_def)
    ultimately show "sender_wf parsers s'" using wf sender_wf_change [OF wf, of c] PolicyChangeModel
      by (simp add: sender_wf_def sender_Handle_def Let_def) (simp add: sender_HandleServicePolicyChange_def Let_def split: option.split)
  qed (use wf in \<open>auto simp: sender_wf_def sender_Handle_def Let_def sender_HandleConfigTypeEvent_def sender_HandleConfigEvent_def sender_HandleRouterEvent_def
      sender_HandlePostureCheckEvent_def sender_HandleRevocationEvent_def sender_HandlePublicKeyEvent_def intro!: keyed_update keyed_delete\<close>)
  ultimately show ?thesis by blast
qed

section \<open>The events of a snapshot\<close>

definition overlay :: "'v cmap \<Rightarrow> ('v \<Rightarrow> 'w) \<Rightarrow> (string \<rightharpoonup> 'w) \<Rightarrow> string \<rightharpoonup> 'w" where
  "overlay t g m = (\<lambda>k. case map_of t k of Some v \<Rightarrow> Some (g v) | None \<Rightarrow> m k)"

lemma overlay_Nil [simp]: "overlay [] g m = m"
  by (simp add: overlay_def fun_eq_iff)

lemma overlay_Cons:
  assumes "distinct (map fst ((k, v) # t))"
  shows "overlay t g (m(k \<mapsto> g v)) = overlay ((k, v) # t) g m"
proof -
  have "map_of t k = None" using assms by (simp add: map_of_eq_None_iff)
  then show ?thesis by (auto simp: overlay_def fun_eq_iff split: option.split)
qed

lemma keyed_ConsD:
  assumes "keyed f ((k, v) # t)"
  shows "f v = k" "keyed f t" "distinct (map fst ((k, v) # t))"
proof -
  have n: "map_of t k = None" using assms by (simp add: keyed_def map_of_eq_None_iff)
  show "f v = k" using assms by (simp add: keyed_def del: map_of_eq_Some_iff)
  have "f w = j" if "map_of t j = Some w" for j w
  proof -
    have "j \<noteq> k" using n that by auto
    then have "map_of ((k, v) # t) j = Some w" using that by simp
    then show ?thesis using assms unfolding keyed_def by blast
  qed
  then show "keyed f t" using assms by (simp add: keyed_def del: map_of_eq_Some_iff)
  show "distinct (map fst ((k, v) # t))" using assms by (simp add: keyed_def)
qed

text \<open>Creating all entries of a table, one by one.\<close>

lemma create_table:
  fixes parsers :: "'k key_parsers"
  assumes "keyed f t" and "\<And>v (A :: 'k data_model). event_wf A (ev v)" and "\<And>v A. data_step parsers (ev v) A = upd (\<lambda>m. m(f v \<mapsto> g v)) A"
    and "\<And>F G A. upd F (upd G A) = upd (F \<circ> G) A" and "\<And>A. upd (\<lambda>m. m) A = A"
  shows "events_wf parsers A (map (\<lambda>(_, v). ev v) t) \<and> data_steps parsers (map (\<lambda>(_, v). ev v) t) A = upd (overlay t g) A"
  using assms(1)
proof (induction t arbitrary: A)
  case Nil
  have "overlay [] g = (\<lambda>m. m)" by (simp add: fun_eq_iff)
  then show ?case using assms(5) by simp
next
  case (Cons x t)
  obtain k v where x: "x = (k, v)" by fastforce
  note K = keyed_ConsD [OF Cons.prems [unfolded x]]
  have "overlay t g \<circ> (\<lambda>m. m(f v \<mapsto> g v)) = overlay (x # t) g" using overlay_Cons [OF K(3), of g] by (simp add: fun_eq_iff x K(1))
  then show ?case using Cons.IH [OF K(2), of "upd (\<lambda>m. m(f v \<mapsto> g v)) A"] assms(2,3,4) by (simp add: x)
qed


lemmas create_simps = create_event_def event_wf_def data_step_def put_def Let_def

lemma create_config_types:
  "keyed ct_Id t \<Longrightarrow> events_wf parsers A (map (\<lambda>(_, v). create_event (ConfigTypeModel v)) t) \<and>
     data_steps parsers (map (\<lambda>(_, v). create_event (ConfigTypeModel v)) t) A = A\<lparr>dm_ConfigTypes := overlay t (\<lambda>v. v) (dm_ConfigTypes A)\<rparr>"
  by (rule create_table [where upd = "\<lambda>F A. A\<lparr>dm_ConfigTypes := F (dm_ConfigTypes A)\<rparr>"]) (simp_all add: create_simps comp_def)

lemma create_services:
  "keyed svc_Id t \<Longrightarrow> events_wf parsers A (map (\<lambda>(_, v). create_event (ServiceModel v)) t) \<and>
     data_steps parsers (map (\<lambda>(_, v). create_event (ServiceModel v)) t) A = A\<lparr>dm_Services := overlay t plain_service (dm_Services A)\<rparr>"
  by (rule create_table [where upd = "\<lambda>F A. A\<lparr>dm_Services := F (dm_Services A)\<rparr>"]) (simp_all add: create_simps comp_def)

lemma create_identities:
  "keyed (\<lambda>w. id_Id (si_Identity w)) t \<Longrightarrow> events_wf parsers A (map (\<lambda>(_, w). create_event (IdentityModel (si_Identity w))) t) \<and>
     data_steps parsers (map (\<lambda>(_, w). create_event (IdentityModel (si_Identity w))) t) A = A\<lparr>dm_Identities := overlay t (\<lambda>w. plain_identity (si_Identity w)) (dm_Identities A)\<rparr>"
  by (rule create_table [where upd = "\<lambda>F A. A\<lparr>dm_Identities := F (dm_Identities A)\<rparr>"]) (simp_all add: create_simps comp_def)

lemma create_routers:
  "keyed rtr_Id t \<Longrightarrow> events_wf parsers A (map (\<lambda>(_, v). create_event (RouterModel v)) t) \<and>
     data_steps parsers (map (\<lambda>(_, v). create_event (RouterModel v)) t) A = A\<lparr>dm_Routers := overlay t (\<lambda>v. v) (dm_Routers A)\<rparr>"
  by (rule create_table [where upd = "\<lambda>F A. A\<lparr>dm_Routers := F (dm_Routers A)\<rparr>"]) (simp_all add: create_simps comp_def)

lemma create_checks:
  "keyed chk_Id t \<Longrightarrow> events_wf parsers A (map (\<lambda>(_, v). create_event (PostureCheckModel v)) t) \<and>
     data_steps parsers (map (\<lambda>(_, v). create_event (PostureCheckModel v)) t) A = A\<lparr>dm_PostureChecks := overlay t (\<lambda>v. v) (dm_PostureChecks A)\<rparr>"
  by (rule create_table [where upd = "\<lambda>F A. A\<lparr>dm_PostureChecks := F (dm_PostureChecks A)\<rparr>"]) (simp_all add: create_simps comp_def)

lemma create_revocations:
  "keyed rev_Id t \<Longrightarrow> events_wf parsers A (map (\<lambda>(_, v). create_event (RevocationModel v)) t) \<and>
     data_steps parsers (map (\<lambda>(_, v). create_event (RevocationModel v)) t) A = A\<lparr>dm_Revocations := overlay t (\<lambda>v. v) (dm_Revocations A)\<rparr>"
  by (rule create_table [where upd = "\<lambda>F A. A\<lparr>dm_Revocations := F (dm_Revocations A)\<rparr>"]) (simp_all add: create_simps comp_def)

lemma create_configs:
  "events_wf parsers A (map (\<lambda>(_, v). create_event (ConfigModel v)) t) \<and> data_steps parsers (map (\<lambda>(_, v). create_event (ConfigModel v)) t) A = A"
  by (induction t) (auto simp: create_simps)

lemma AList_update_new: "k \<notin> fst ` set t \<Longrightarrow> AList.update k v t = t @ [(k, v)]"
  by (induction t) auto

lemma create_keys:
  assumes "keyed pk_Kid t" and "distinct (map fst (dm_PublicKeys A @ t))" and "dm_Keys A = parsed_keys parsers (dm_PublicKeys A)"
  shows "events_wf parsers A (map (\<lambda>(_, v). (create_event (PublicKeyModel v))\<lparr>ev_IsSynthetic := True\<rparr>) t) \<and>
    data_steps parsers (map (\<lambda>(_, v). (create_event (PublicKeyModel v))\<lparr>ev_IsSynthetic := True\<rparr>) t) A =
      A\<lparr>dm_PublicKeys := dm_PublicKeys A @ t, dm_Keys := parsed_keys parsers (dm_PublicKeys A @ t)\<rparr>"
  using assms
proof (induction t arbitrary: A)
  case Nil
  then show ?case by simp
next
  case (Cons x t)
  obtain k v where x: "x = (k, v)" by fastforce
  note K = keyed_ConsD [OF Cons.prems(1) [unfolded x]]
  let ?keys = "dm_PublicKeys A @ [(k, v)]" let ?A = "A\<lparr>dm_PublicKeys := ?keys, dm_Keys := parsed_keys parsers ?keys\<rparr>"
  have "k \<notin> fst ` set (dm_PublicKeys A)" using Cons.prems(2) x by auto
  then have "data_step parsers ((create_event (PublicKeyModel v))\<lparr>ev_IsSynthetic := True\<rparr>) A = ?A"
    using K(1) by (simp add: create_simps AList_update_new)
  moreover have "event_wf A ((create_event (PublicKeyModel v))\<lparr>ev_IsSynthetic := True\<rparr>)" by (simp add: create_simps)
  moreover have "distinct (map fst (dm_PublicKeys ?A @ t))" using Cons.prems(2) x by simp
  ultimately show ?case using Cons.IH [OF K(2), of ?A] by (simp add: x)
qed

definition created_policy :: "sender_identity cmap \<Rightarrow> sender_policy \<Rightarrow> policy_spec" where
  "created_policy idt v = \<lparr>ps_Policy = sp_Policy v, ps_Services = set (sp_Services v), ps_PostureChecks = set (sp_PostureChecks v),
     ps_Identities = set (policy_identities idt (pol_Id (sp_Policy v)))\<rparr>"

lemma create_policy:
  assumes ty: "pol_PolicyType (sp_Policy v) = DialPolicy \<or> pol_PolicyType (sp_Policy v) = BindPolicy"
    and s: "distinct (sp_Services v)" "\<forall>x \<in> set (sp_Services v). dm_Services A x \<noteq> None"
    and c: "distinct (sp_PostureChecks v)" "\<forall>x \<in> set (sp_PostureChecks v). dm_PostureChecks A x \<noteq> None"
    and i: "distinct (policy_identities idt (pol_Id (sp_Policy v)))" "\<forall>x \<in> set (policy_identities idt (pol_Id (sp_Policy v))). dm_Identities A x \<noteq> None"
    and new: "dm_Policies A (pol_Id (sp_Policy v)) = None"
  shows "events_wf parsers A (sender_policy_events idt v) \<and>
    data_steps parsers (sender_policy_events idt v) A = A\<lparr>dm_Policies := (dm_Policies A)(pol_Id (sp_Policy v) \<mapsto> created_policy idt v)\<rparr>"
proof -
  let ?p = "pol_Id (sp_Policy v)" and ?ms = "policy_identities idt (pol_Id (sp_Policy v))"
  let ?A = "\<lambda>S C I. A\<lparr>dm_Policies := (dm_Policies A)(?p \<mapsto> \<lparr>ps_Policy = sp_Policy v, ps_Services = S, ps_PostureChecks = C, ps_Identities = I\<rparr>)\<rparr>"
  have 1: "event_wf A (create_event (ServicePolicyModel (sp_Policy v)))" "data_step parsers (create_event (ServicePolicyModel (sp_Policy v))) A = ?A {} {} {}"
    using ty new by (simp_all add: create_simps policy_step_def)
  have 2: "event_wf (?A {} {} {}) (change_event ?p RelatedService True (sp_Services v))"
    "data_step parsers (change_event ?p RelatedService True (sp_Services v)) (?A {} {} {}) = ?A (set (sp_Services v)) {} {}"
    using s by (simp_all add: create_simps change_event_def change_wf_def change_step_def member_change_def change_set_members_def)
  have 3: "event_wf (?A (set (sp_Services v)) {} {}) (change_event ?p RelatedPostureCheck True (sp_PostureChecks v))"
    "data_step parsers (change_event ?p RelatedPostureCheck True (sp_PostureChecks v)) (?A (set (sp_Services v)) {} {}) =
       ?A (set (sp_Services v)) (set (sp_PostureChecks v)) {}"
    using c by (simp_all add: create_simps change_event_def change_wf_def change_step_def member_change_def change_set_members_def)
  have 4: "event_wf (?A (set (sp_Services v)) (set (sp_PostureChecks v)) {}) (change_event ?p RelatedIdentity True ?ms)"
    "data_step parsers (change_event ?p RelatedIdentity True ?ms) (?A (set (sp_Services v)) (set (sp_PostureChecks v)) {}) =
       ?A (set (sp_Services v)) (set (sp_PostureChecks v)) (set ?ms)"
    using i by (simp_all add: create_simps change_event_def change_wf_def change_step_def member_change_def change_set_members_def)
  show ?thesis
    by (simp add: sender_policy_events_def Let_def 1 2 3 4 created_policy_def)
qed

lemma create_policies:
  assumes "keyed (\<lambda>v. pol_Id (sp_Policy v)) t" and "\<And>k v. map_of t k = Some v \<Longrightarrow>
      (pol_PolicyType (sp_Policy v) = DialPolicy \<or> pol_PolicyType (sp_Policy v) = BindPolicy) \<and>
      distinct (sp_Services v) \<and> (\<forall>x \<in> set (sp_Services v). dm_Services A x \<noteq> None) \<and>
      distinct (sp_PostureChecks v) \<and> (\<forall>x \<in> set (sp_PostureChecks v). dm_PostureChecks A x \<noteq> None)"
    and "\<And>p. distinct (policy_identities idt p) \<and> (\<forall>x \<in> set (policy_identities idt p). dm_Identities A x \<noteq> None)"
    and "\<And>k. map_of t k \<noteq> None \<Longrightarrow> dm_Policies A k = None"
  shows "events_wf parsers A (concat (map (\<lambda>(_, v). sender_policy_events idt v) t)) \<and>
    data_steps parsers (concat (map (\<lambda>(_, v). sender_policy_events idt v) t)) A = A\<lparr>dm_Policies := overlay t (created_policy idt) (dm_Policies A)\<rparr>"
  using assms
proof (induction t arbitrary: A)
  case Nil
  have "overlay [] (created_policy idt) = (\<lambda>m. m)" by (simp add: fun_eq_iff)
  then show ?case by simp
next
  case (Cons x t)
  obtain k v where x: "x = (k, v)" by fastforce
  note K = keyed_ConsD [OF Cons.prems(1) [unfolded x]]
  let ?A = "A\<lparr>dm_Policies := (dm_Policies A)(k \<mapsto> created_policy idt v)\<rparr>"
  have n: "map_of t k = None" using K(3) by (simp add: map_of_eq_None_iff)
  have get: "map_of (x # t) j = Some w" if "map_of t j = Some w" for j w using that n x by auto
  have 1: "events_wf parsers A (sender_policy_events idt v) \<and> data_steps parsers (sender_policy_events idt v) A = ?A"
    using create_policy [of v A idt parsers] Cons.prems(2) [of k v] Cons.prems(3) [of k] Cons.prems(4) [of k] K(1) x by simp
  have 2: "events_wf parsers ?A (concat (map (\<lambda>(_, v). sender_policy_events idt v) t)) \<and>
      data_steps parsers (concat (map (\<lambda>(_, v). sender_policy_events idt v) t)) ?A = ?A\<lparr>dm_Policies := overlay t (created_policy idt) (dm_Policies ?A)\<rparr>"
  proof (rule Cons.IH [OF K(2)])
    show "dm_Policies ?A j = None" if "map_of t j \<noteq> None" for j
      using that n Cons.prems(4) [of j] x by (auto split: if_splits)
  qed (use Cons.prems(2) [OF get] Cons.prems(3) in simp_all)
  have "overlay t (created_policy idt) ((dm_Policies A)(k \<mapsto> created_policy idt v)) = overlay (x # t) (created_policy idt) (dm_Policies A)"
    using overlay_Cons [OF K(3)] x by simp
  then show ?case using 1 2 by (simp add: x events_wf_append data_steps_append)
qed


section \<open>Rebuilding the data from a snapshot\<close>

definition stored_identities :: "'k sender \<Rightarrow> sender_identity cmap" where
  "stored_identities s = map (\<lambda>(k, v). (k, the v)) (sn_Identities s)"

lemma overlay_empty: "overlay t g Map.empty = (\<lambda>k. map_option g (map_of t k))"
  by (simp add: overlay_def fun_eq_iff split: option.split)

lemma stored_identities_keyed:
  assumes "sender_wf parsers s"
  shows "\<not> (\<exists>(_, v) \<in> set (sn_Identities s). v = None)" "keyed (\<lambda>w. id_Id (si_Identity w)) (stored_identities s)"
    "map_of (stored_identities s) k = map_option the (map_of (sn_Identities s) k)"
proof -
  have ok: "sender_ok s" "keyed identity_key (sn_Identities s)" using assms by (simp_all add: sender_wf_def)
  have d: "distinct (map fst (sn_Identities s))" using ok(2) by (simp add: keyed_def)
  show "\<not> (\<exists>(_, v) \<in> set (sn_Identities s). v = None)"
  proof
    assume "\<exists>(_, v) \<in> set (sn_Identities s). v = None"
    then obtain k where "(k, None) \<in> set (sn_Identities s)" by auto
    then have "map_of (sn_Identities s) k = Some None" using d by simp
    then show False using ok(1) unfolding sender_ok_def by blast
  qed
  show m: "map_of (stored_identities s) k = map_option the (map_of (sn_Identities s) k)" for k
    by (simp add: stored_identities_def map_of_map_values)
  have "id_Id (si_Identity w) = k" if "map_of (stored_identities s) k = Some w" for k w
  proof -
    obtain v where v: "map_of (sn_Identities s) k = Some v" "w = the v" using \<open>map_of (stored_identities s) k = Some w\<close> m by auto
    then have "v = Some w" using ok(1) by (cases v) (auto simp: sender_ok_def)
    moreover have "identity_key v = k" using ok(2) v(1) unfolding keyed_def by blast
    ultimately show ?thesis by (simp add: identity_key_def)
  qed
  moreover have "map fst (stored_identities s) = map fst (sn_Identities s)" by (simp add: stored_identities_def case_prod_beta comp_def)
  ultimately show "keyed (\<lambda>w. id_Id (si_Identity w)) (stored_identities s)" using d unfolding keyed_def by simp
qed

lemma policy_identities_keys:
  assumes "keyed (\<lambda>w. id_Id (si_Identity w)) t"
  shows "policy_identities t p = map fst (filter (\<lambda>(_, v). p \<in> set (si_ServicePolicies v)) t)"
  using assms
proof (induction t)
  case (Cons x t)
  obtain k v where x: "x = (k, v)" by fastforce
  note K = keyed_ConsD [OF Cons.prems [unfolded x]]
  show ?case using Cons.IH [OF K(2)] K(1) by (simp add: policy_identities_def x)
qed (simp add: policy_identities_def)

lemma policy_identities_members:
  assumes "sender_wf parsers s"
  shows "distinct (policy_identities (stored_identities s) p)" "set (policy_identities (stored_identities s) p) = sender_members s p"
proof -
  note S = stored_identities_keyed [OF assms]
  have d: "distinct (map fst (stored_identities s))" using S(2) by (simp add: keyed_def)
  then show "distinct (policy_identities (stored_identities s) p)" unfolding policy_identities_keys [OF S(2)] by (rule distinct_map_filter)
  have "i \<in> set (policy_identities (stored_identities s) p) \<longleftrightarrow> (\<exists>v. map_of (stored_identities s) i = Some v \<and> p \<in> set (si_ServicePolicies v))" for i
    unfolding policy_identities_keys [OF S(2)] using d by (force simp: map_of_eq_Some_iff)
  moreover have "(\<exists>v. map_of (stored_identities s) i = Some v \<and> p \<in> set (si_ServicePolicies v)) \<longleftrightarrow> i \<in> sender_members s p" for i
  proof -
    have "map_of (sn_Identities s) i \<noteq> Some None" using assms by (simp add: sender_wf_def sender_ok_def)
    then show ?thesis unfolding S(3) sender_members_def by (cases "map_of (sn_Identities s) i") auto
  qed
  ultimately show "set (policy_identities (stored_identities s) p) = sender_members s p" by blast
qed

lemma created_policies:
  assumes "sender_wf parsers s"
  shows "overlay (sn_ServicePolicies s) (created_policy (stored_identities s)) Map.empty =
    (\<lambda>p. map_option (sender_policy_spec s p) (map_of (sn_ServicePolicies s) p))"
proof
  fix p
  have "created_policy (stored_identities s) v = sender_policy_spec s p v" if v: "map_of (sn_ServicePolicies s) p = Some v" for v
  proof -
    have "keyed (\<lambda>v. pol_Id (sp_Policy v)) (sn_ServicePolicies s)" using assms by (simp add: sender_wf_def)
    then have "pol_Id (sp_Policy v) = p" using v unfolding keyed_def by blast
    then show ?thesis by (simp add: created_policy_def sender_policy_spec_def policy_identities_members(2) [OF assms])
  qed
  then show "overlay (sn_ServicePolicies s) (created_policy (stored_identities s)) Map.empty p =
      map_option (sender_policy_spec s p) (map_of (sn_ServicePolicies s) p)"
    by (cases "map_of (sn_ServicePolicies s) p") (simp_all add: overlay_empty)
qed

text \<open>A list of events that is well formed from one value and leads to another.\<close>

definition builds :: "'k key_parsers \<Rightarrow> 'k data_model \<Rightarrow> ds_event list \<Rightarrow> 'k data_model \<Rightarrow> bool" where
  "builds parsers A es B \<longleftrightarrow> events_wf parsers A es \<and> data_steps parsers es A = B"

lemma builds_append: "builds parsers A es B \<Longrightarrow> builds parsers B fs C \<Longrightarrow> builds parsers A (es @ fs) C"
  by (auto simp: builds_def events_wf_append data_steps_append)

definition snapshot_tables :: "'k sender \<Rightarrow> 'k data_model" where
  "snapshot_tables s = empty_data_model\<lparr>dm_ConfigTypes := map_of (sn_ConfigTypes s),
     dm_Identities := (\<lambda>k. map_option (\<lambda>w. plain_identity (si_Identity w)) (map_of (stored_identities s) k)),
     dm_Services := (\<lambda>k. map_option plain_service (map_of (sn_Services s) k)),
     dm_Routers := map_of (sn_Routers s), dm_PostureChecks := map_of (sn_PostureChecks s)\<rparr>"

lemma snapshot_tables_built:
  assumes wf: "sender_wf parsers s"
  shows "builds parsers empty_data_model (map (\<lambda>(_, v). create_event (ConfigTypeModel v)) (sn_ConfigTypes s) @
    map (\<lambda>(_, v). create_event (ConfigModel v)) (sn_Configs s) @
    map (\<lambda>(_, v). create_event (IdentityModel (si_Identity v))) (stored_identities s) @
    map (\<lambda>(_, v). create_event (ServiceModel v)) (sn_Services s) @
    map (\<lambda>(_, v). create_event (RouterModel v)) (sn_Routers s) @
    map (\<lambda>(_, v). create_event (PostureCheckModel v)) (sn_PostureChecks s)) (snapshot_tables s)"
proof -
  have K: "keyed ct_Id (sn_ConfigTypes s)" "keyed svc_Id (sn_Services s)" "keyed rtr_Id (sn_Routers s)" "keyed chk_Id (sn_PostureChecks s)"
    using wf by (simp_all add: sender_wf_def)
  note I = stored_identities_keyed(2) [OF wf]
  note B = builds_def [THEN iffD2]
  show ?thesis
    apply (rule builds_append [OF B [OF create_config_types [OF K(1)]]])
    apply (rule builds_append [OF B [OF create_configs]])
    apply (rule builds_append [OF B [OF create_identities [OF I]]])
    apply (rule builds_append [OF B [OF create_services [OF K(2)]]])
    apply (rule builds_append [OF B [OF create_routers [OF K(3)]]])
    apply (rule back_subst [where P = "builds parsers _ _", OF B [OF create_checks [OF K(4)]]])
    by (simp add: snapshot_tables_def empty_data_model_def overlay_empty option.map_ident)
qed

lemma snapshot_policies_built:
  assumes wf: "sender_wf parsers s"
  shows "builds parsers (snapshot_tables s) (concat (map (\<lambda>(_, v). sender_policy_events (stored_identities s) v) (sn_ServicePolicies s)))
    ((snapshot_tables s)\<lparr>dm_Policies := (\<lambda>p. map_option (sender_policy_spec s p) (map_of (sn_ServicePolicies s) p))\<rparr>)"
proof -
  note W = wf [unfolded sender_wf_def] and S = stored_identities_keyed [OF wf]
  have ident: "dm_Identities (snapshot_tables s) x \<noteq> None" if "x \<in> set (policy_identities (stored_identities s) p)" for x p
    using that unfolding policy_identities_members(2) [OF wf] sender_members_def snapshot_tables_def by (auto simp: S(3))
  have pol: "(pol_PolicyType (sp_Policy v) = DialPolicy \<or> pol_PolicyType (sp_Policy v) = BindPolicy) \<and>
      distinct (sp_Services v) \<and> (\<forall>x \<in> set (sp_Services v). dm_Services (snapshot_tables s) x \<noteq> None) \<and>
      distinct (sp_PostureChecks v) \<and> (\<forall>x \<in> set (sp_PostureChecks v). dm_PostureChecks (snapshot_tables s) x \<noteq> None)"
    if v: "map_of (sn_ServicePolicies s) k = Some v" for k v
  proof -
    have "dm_Policies (sender_spec s) k = Some (sender_policy_spec s k v)" by (simp add: sender_spec_def v)
    then have "policy_in (sender_spec s) k (sender_policy_spec s k v)" using spec_okD W by blast
    then show ?thesis using W v by (auto simp: policy_in_def sender_policy_spec_def sender_spec_def snapshot_tables_def subset_iff)
  qed
  have none: "dm_Policies (snapshot_tables s) = Map.empty" by (simp add: snapshot_tables_def empty_data_model_def)
  show ?thesis
    using create_policies [of "sn_ServicePolicies s" "snapshot_tables s" "stored_identities s" parsers] W pol policy_identities_members(1) [OF wf] ident
    by (simp add: builds_def none created_policies [OF wf])
qed

lemma snapshot_events:
  assumes wf: "sender_wf parsers s"
  shows "\<exists>st. sender_getDataState timeline index s = Some st \<and> ds_EndIndex st = index \<and> ds_TimelineId st = timeline \<and> ds_TerminatorIds st = None \<and>
    events_wf parsers empty_data_model (ds_Events st) \<and> data_steps parsers (ds_Events st) empty_data_model = sender_spec s"
proof -
  note W = wf [unfolded sender_wf_def] and S = stored_identities_keyed [OF wf]
  define A where "A = (snapshot_tables s)\<lparr>dm_Policies := (\<lambda>p. map_option (sender_policy_spec s p) (map_of (sn_ServicePolicies s) p))\<rparr>"
  define B where "B = A\<lparr>dm_PublicKeys := sn_PublicKeys s, dm_Keys := parsed_keys parsers (sn_PublicKeys s)\<rparr>"
  have "dm_PublicKeys A = []" "dm_Keys A = []" by (simp_all add: A_def snapshot_tables_def empty_data_model_def)
  then have keys: "builds parsers A (map (\<lambda>(_, v). (create_event (PublicKeyModel v))\<lparr>ev_IsSynthetic := True\<rparr>) (sn_PublicKeys s)) B"
    using create_keys [of "sn_PublicKeys s" A parsers] W by (simp add: builds_def B_def keyed_def parsed_keys_def)
  have "map_option (\<lambda>w. plain_identity (si_Identity w)) (map_of (stored_identities s) k) =
      (case map_of (sn_Identities s) k of Some (Some v) \<Rightarrow> Some (plain_identity (si_Identity v)) | _ \<Rightarrow> None)" for k
    using W unfolding S(3) sender_ok_def by (auto split: option.split)
  then have "B\<lparr>dm_Revocations := overlay (sn_Revocations s) (\<lambda>v. v) (dm_Revocations B)\<rparr> = sender_spec s"
    using W by (simp add: B_def A_def snapshot_tables_def empty_data_model_def sender_spec_def overlay_empty option.map_ident)
  then have revocations: "builds parsers B (map (\<lambda>(_, v). create_event (RevocationModel v)) (sn_Revocations s)) (sender_spec s)"
    using create_revocations [of "sn_Revocations s" parsers B] W by (simp add: builds_def)
  note all = builds_append [OF snapshot_tables_built [OF wf] builds_append [OF snapshot_policies_built [OF wf, folded A_def] builds_append [OF keys revocations]]]
  show ?thesis
    unfolding sender_getDataState_def Let_def stored_identities_def [symmetric] if_not_P [OF S(1)]
    using all by (simp add: builds_def)
qed


section \<open>Reachable controllers\<close>

inductive sender_reachable :: "'k key_parsers \<Rightarrow> 'k sender \<Rightarrow> bool" for parsers where
  start: "sender_reachable parsers NewRouterDataModelSender"
| event: "sender_reachable parsers s \<Longrightarrow> event_wf (sender_spec s) e \<Longrightarrow> fresh_policy s e \<Longrightarrow> sender_reachable parsers (sender_Handle parsers e s)"

lemma sender_reachable_wf: "sender_reachable parsers s \<Longrightarrow> sender_wf parsers s"
  by (induction rule: sender_reachable.induct) (auto intro: new_sender sender_wf_step)

lemma sender_reachable_events:
  assumes "sender_reachable parsers s" and "events_wf parsers (sender_spec s) es"
    and "guarded fresh_policy (\<lambda>e s. Some (sender_Handle parsers e s)) s es"
  shows "sender_reachable parsers (foldl (\<lambda>s e. sender_Handle parsers e s) s es) \<and>
    sender_spec (foldl (\<lambda>s e. sender_Handle parsers e s) s es) = data_steps parsers es (sender_spec s)"
  using assms
proof (induction es arbitrary: s)
  case (Cons e es)
  have "sender_ok s" using sender_reachable_wf [OF Cons.prems(1)] by (simp add: sender_wf_def)
  then have "sender_spec (sender_Handle parsers e s) = data_step parsers e (sender_spec s)"
    using sender_Handle_step [of s e parsers] Cons.prems by simp
  moreover have "sender_reachable parsers (sender_Handle parsers e s)" using Cons.prems by (auto intro: sender_reachable.event)
  ultimately show ?case using Cons.IH [of "sender_Handle parsers e s"] Cons.prems by simp
qed simp

text \<open>The events of one router differ from the events of all routers only in configs.\<close>

lemma filter_event_configs:
  "filter (\<lambda>e. \<not> config_event e) (filter_event s r b e) = filter (\<lambda>e. \<not> config_event e) [e]"
proof -
  have "filter (\<lambda>e. \<not> config_event e) (router_configs s xs) = []" for xs
    by (induction xs) (auto simp: router_configs_def config_event_def create_event_def split: option.split)
  then show ?thesis by (auto simp: filter_event_def config_event_def split: ds_model.splits)
qed

lemma FilterEventsForRouter_configs:
  "filter (\<lambda>e. \<not> config_event e) (fst (FilterEventsForRouter s r es b)) = filter (\<lambda>e. \<not> config_event e) es"
proof -
  have "filter (\<lambda>e. \<not> config_event e) (concat (map (filter_event s r b) es)) = filter (\<lambda>e. \<not> config_event e) es"
    by (induction es) (simp_all add: filter_event_configs)
  then show ?thesis by (simp add: FilterEventsForRouter_events)
qed

lemma FilterEventsForRouter_data:
  "events_wf parsers A (fst (FilterEventsForRouter s r es b)) = events_wf parsers A es"
  "data_steps parsers (fst (FilterEventsForRouter s r es b)) A = data_steps parsers es A"
  using events_wf_filter [of parsers A "fst (FilterEventsForRouter s r es b)"] events_wf_filter [of parsers A es]
    data_steps_filter [of parsers "fst (FilterEventsForRouter s r es b)" A] data_steps_filter [of parsers es A]
  by (simp_all add: FilterEventsForRouter_configs)

lemma router_snapshot_events:
  assumes wf: "sender_wf parsers s"
  shows "\<exists>st. GetDataStateForRouter timeline index s r = Some st \<and> ds_EndIndex st = index \<and> ds_TimelineId st = timeline \<and> ds_TerminatorIds st = None \<and>
    events_wf parsers empty_data_model (ds_Events st) \<and> data_steps parsers (ds_Events st) empty_data_model = sender_spec s"
proof -
  obtain st where st: "sender_getDataState timeline index s = Some st" "ds_EndIndex st = index" "ds_TimelineId st = timeline" "ds_TerminatorIds st = None"
    "events_wf parsers empty_data_model (ds_Events st)" "data_steps parsers (ds_Events st) empty_data_model = sender_spec s"
    using snapshot_events [OF wf] by blast
  obtain es b where f: "FilterEventsForRouter s r (ds_Events st) False = (es, b)" by fastforce
  then have "events_wf parsers empty_data_model es" "data_steps parsers es empty_data_model = sender_spec s"
    using FilterEventsForRouter_data [where s = s and r = r and es = "ds_Events st" and b = False and parsers = parsers and A = empty_data_model] st by simp_all
  then show ?thesis using st f by (simp add: GetDataStateForRouter_def)
qed

text \<open>A router that starts from a snapshot has the data of the snapshot.\<close>

lemma data_state_loaded:
  fixes parsers :: "'k key_parsers"
  assumes "ds_TerminatorIds st = None" and wf: "events_wf parsers empty_data_model (ds_Events st)"
  shows "\<exists>m :: ('k, 's) rdm. NewReceiverRouterDataModelFromDataState parsers r st = Some m \<and> rdm_reachable parsers m \<and>
    router_spec m = data_steps parsers (ds_Events st) empty_data_model \<and> m_rdmIndex m = ds_EndIndex st \<and> m_timelineId m = ds_TimelineId st"
proof -
  define m0 :: "('k, 's) rdm" where "m0 = (NewReceiverRouterDataModel r)\<lparr>m_timelineId := ds_TimelineId st, m_terminatorIdCache := []\<rparr>"
  have "m0 = (NewReceiverRouterDataModel r)\<lparr>m_rdmIndex := 0, m_timelineId := ds_TimelineId st\<rparr>" by (simp add: m0_def NewReceiverRouterDataModel_def)
  then have r0: "rdm_reachable parsers m0" using rdm_reachable.stored [OF rdm_reachable.start] by simp
  have "view m0 = view (NewReceiverRouterDataModel r :: ('k, 's) rdm)" by (simp add: m0_def)
  from router_spec_view [OF this] have spec0: "router_spec m0 = empty_data_model" by (simp add: new_model(2))
  obtain m where m: "ofold (Handle parsers (ds_EndIndex st)) (ds_Events st) m0 = Some m" "router_spec m = data_steps parsers (ds_Events st) empty_data_model"
    using router.handle_all [of m0 parsers "ds_Events st" "ds_EndIndex st"] reachable_ok [OF r0] wf spec0 by auto
  have "rdm_reachable parsers m" using reachable_events [OF r0, of "ds_Events st" "ds_EndIndex st"] wf m spec0 by simp
  then have "rdm_reachable parsers (m\<lparr>m_rdmIndex := ds_EndIndex st, m_timelineId := m_timelineId m\<rparr>)" by (rule rdm_reachable.stored)
  moreover have "m\<lparr>m_rdmIndex := ds_EndIndex st, m_timelineId := m_timelineId m\<rparr> = m\<lparr>m_rdmIndex := ds_EndIndex st\<rparr>" by simp
  ultimately have "rdm_reachable parsers (m\<lparr>m_rdmIndex := ds_EndIndex st\<rparr>)" by metis
  moreover have "view (m\<lparr>m_rdmIndex := ds_EndIndex st\<rparr>) = view m" by simp
  then have "router_spec (m\<lparr>m_rdmIndex := ds_EndIndex st\<rparr>) = router_spec m" by (rule router_spec_view)
  moreover have "m_timelineId m = ds_TimelineId st" using meta_events [OF m(1)] by (simp add: meta_def m0_def)
  ultimately show ?thesis using m assms(1) by (simp add: NewReceiverRouterDataModelFromDataState_def m0_def)
qed


definition demo_sender :: "string sender" where
  "demo_sender = foldl (\<lambda>s e. sender_Handle demo_parsers e s) NewRouterDataModelSender demo_events"

lemma demo_guarded: "guarded fresh_policy (\<lambda>e s. Some (sender_Handle demo_parsers e s)) NewRouterDataModelSender demo_events"
  by (simp add: demo_defs fresh_policy_def sender_Handle_def NewRouterDataModelSender_def sender_HandleIdentityEvent_def
      sender_HandleServiceEvent_def sender_HandlePostureCheckEvent_def sender_HandleServicePolicyEvent_def cmap_upsert_def Let_def)

lemma demo_sender_reachable: "sender_reachable demo_parsers demo_sender"
  unfolding demo_sender_def
  by (rule sender_reachable_events [OF sender_reachable.start, unfolded new_sender(2), OF demo_wf demo_guarded, THEN conjunct1])



text \<open>
  A change of the identities of a policy that names an identity the controller does not have (it was
  deleted, or its event has not been seen) leaves a nil entry in the table of identities. From then on no
  snapshot can be taken: the goroutine that answers a subscription panics.
\<close>

lemma unknown_identity_panics:
  assumes "ev_Model e = PolicyChangeModel c" and "pc_RelatedEntityType c = RelatedIdentity"
    and "i \<in> set (pc_RelatedEntityIds c)" and "map_of (sn_Identities s) i = None"
  shows "sender_getDataState timeline index (sender_Handle parsers e s) = None"
proof -
  define up :: "sender_identity option cmap \<Rightarrow> string \<Rightarrow> sender_identity option cmap" where "up = (\<lambda>t i. cmap_upsert t i (\<lambda>old. case old of
      Some (Some v) \<Rightarrow> Some (v\<lparr>si_ServicePolicies := change_member (pc_Add c) (pc_PolicyId c) (si_ServicePolicies v)\<rparr>) | _ \<Rightarrow> None))"
  have step: "map_of (up t j) i = (if j = i then Some None else map_of t i)" if "map_of t i = None \<or> map_of t i = Some None" for t j
    using that by (auto simp: up_def cmap_simps)
  have keep: "map_of (foldl up t xs) i = Some None" if "map_of t i = Some None" for t xs
    using that by (induction xs arbitrary: t) (simp_all add: step)
  have "map_of (foldl up t xs) i = Some None" if "map_of t i = None" "i \<in> set xs" for t xs
    using that
  proof (induction xs arbitrary: t)
    case (Cons x xs)
    then show ?case by (cases "x = i") (simp_all add: step keep)
  qed simp
  then have "map_of (foldl up (sn_Identities s) (pc_RelatedEntityIds c)) i = Some None" using assms by blast
  moreover have "sn_Identities (sender_Handle parsers e s) = foldl up (sn_Identities s) (pc_RelatedEntityIds c)"
    using assms(1,2) unfolding up_def sender_Handle_def sender_HandleServicePolicyChange_def by simp
  ultimately have "map_of (sn_Identities (sender_Handle parsers e s)) i = Some None" by metis
  then have "(i, None) \<in> set (sn_Identities (sender_Handle parsers e s))" by (rule map_of_SomeD)
  then show ?thesis unfolding sender_getDataState_def by (intro if_P) auto
qed

lemma unknown_identity_panics_example:
  "map_of (sn_Identities demo_sender) ''deleted'' = None \<and>
   sender_getDataState ''t'' 8 (sender_Handle demo_parsers (change_event ''p'' RelatedIdentity False [''deleted'']) demo_sender) = None"
proof -
  have "map_of (sn_Identities demo_sender) ''deleted'' = None"
    by (simp add: demo_sender_def demo_defs sender_Handle_def NewRouterDataModelSender_def sender_HandleIdentityEvent_def
      sender_HandleServiceEvent_def sender_HandlePostureCheckEvent_def sender_HandleServicePolicyEvent_def
      sender_HandleServicePolicyChange_def sender_applyUpdateServicePolicyEvent_def cmap_upsert_def Let_def)
  then show ?thesis
    using unknown_identity_panics [of "change_event ''p'' RelatedIdentity False [''deleted'']"
      "\<lparr>pc_PolicyId = ''p'', pc_RelatedEntityIds = [''deleted''], pc_RelatedEntityType = RelatedIdentity, pc_Add = False\<rparr>" "''deleted''" demo_sender]
    by (simp add: change_event_def create_event_def)
qed

end
