(* ===== verification/Data_Model_Distribution.thy ===== *)
theory Data_Model_Distribution
  imports Data_Model_Snapshot
begin

text \<open>
  How a router gets the data model: \<^verbatim>\<open>controller/sync_strats/rtx.go\<close> sends change sets or snapshots to one
  router, \<^verbatim>\<open>router/state/dataStateChangeSetEvent.go\<close> and \<^verbatim>\<open>router/state/dataState.go\<close> receive them, and
  \<^verbatim>\<open>router/state/manager.go\<close> subscribes and replaces the model. The theorems show that a router that
  subscribes, and then receives what it is sent, has the data of the controller.

  A call of a handler is one step. Times are seconds. Marshalling a message and sending it succeed or fail
  together; which messages get through is a parameter.
\<close>

section \<open>The controller side\<close>

record sync_request =
  rq_CurrentIndex :: u64
  rq_SubscriptionDurationSeconds :: u32
  rq_Renew :: bool
  rq_TimelineId :: string
  rq_SubscriptionId :: string

datatype rdm_body = ChangeSetBody "ds_event change_set" | DataStateBody data_state

text \<open>The header is \<open>None\<close> when the message has no subscription id.\<close>

record rdm_message =
  msg_SubscriptionId :: "string option"
  msg_Body :: rdm_body

text \<open>\<open>rtx_lastIndexSent\<close> is the last index that the ticker reported.\<close>

record router_sender =
  rtx_RouterId :: string
  rtx_currentIndex :: u64
  rtx_timelineId :: string
  rtx_subscriptionId :: string
  rtx_syncRdmUntil :: nat
  rtx_lastIndexSent :: u64

text \<open>What a sender sees of its controller: the event cache, the data, the timeline and the raft role.\<close>

record 'k controller_view =
  cv_cache :: "ds_event event_cache"
  cv_sender :: "'k sender"
  cv_timelineId :: string
  cv_isLeader :: bool

definition marshal :: "router_sender \<Rightarrow> rdm_body \<Rightarrow> rdm_message" where
  "marshal rtx body =
     \<lparr>msg_SubscriptionId = (if rtx_subscriptionId rtx \<noteq> '''' then Some (rtx_subscriptionId rtx) else None), msg_Body = body\<rparr>"

definition router_change_set :: "'k sender \<Rightarrow> string \<Rightarrow> ds_event change_set \<Rightarrow> ds_event change_set" where
  "router_change_set s routerId event =
     (case FilterEventsForRouter s routerId (cs_Changes event) True of
        (filtered, changed) \<Rightarrow> if changed then event\<lparr>cs_Changes := filtered\<rparr> else event)"

text \<open>
  The loop over the replayed change sets, with the messages that got through and whether all did. A missing
  change set is a nil dereference.
\<close>

fun send_change_sets ::
  "(rdm_message \<Rightarrow> bool) \<Rightarrow> 'k sender \<Rightarrow> ds_event change_set option list \<Rightarrow> router_sender \<Rightarrow>
   (router_sender \<times> rdm_message list \<times> bool) option" where
  "send_change_sets sends s [] rtx = Some (rtx, [], True)"
| "send_change_sets sends s (None # events) rtx = None"
| "send_change_sets sends s (Some event # events) rtx =
     (let msg = marshal rtx (ChangeSetBody (router_change_set s (rtx_RouterId rtx) event))
      in if sends msg
         then map_option (\<lambda>(rtx', sent, ok). (rtx', msg # sent, ok))
                (send_change_sets sends s events (rtx\<lparr>rtx_currentIndex := cs_Index event\<rparr>))
         else Some (rtx, [], False))"

definition send_full_state ::
  "(rdm_message \<Rightarrow> bool) \<Rightarrow> 'k controller_view \<Rightarrow> router_sender \<Rightarrow> (router_sender \<times> rdm_message list) option" where
  "send_full_state sends c rtx =
     (case CurrentIndex (cv_cache c) of
        Inl _ \<Rightarrow> None
      | Inr index \<Rightarrow>
          map_option (\<lambda>st.
            let msg = marshal rtx (DataStateBody st)
            in if sends msg then (rtx\<lparr>rtx_currentIndex := ds_EndIndex st, rtx_timelineId := ds_TimelineId st\<rparr>, [msg])
               else (rtx, []))
            (GetDataStateForRouter (cv_timelineId c) index (cv_sender c) (rtx_RouterId rtx)))"

text \<open>
  The sender's new state and the messages it sent; \<open>None\<close> is a panic or a replay that does not end. The first
  replayed change set is left out: the replay starts at the index the router has.
\<close>

definition handleModelChange ::
  "nat \<Rightarrow> (rdm_message \<Rightarrow> bool) \<Rightarrow> 'k controller_view \<Rightarrow> router_sender \<Rightarrow> (router_sender \<times> rdm_message list) option" where
  "handleModelChange now sends c rtx =
     (if rtx_syncRdmUntil rtx < now then Some (rtx, [])
      else
        case (if rtx_currentIndex rtx > 0 \<and> rtx_timelineId rtx = cv_timelineId c
              then ReplayFrom (cv_cache c) (rtx_currentIndex rtx)
              else Some (Inr ([], ReplayResultFullSyncRequired))) of
          None \<Rightarrow> None
        | Some (Inl _) \<Rightarrow> None
        | Some (Inr (events, result)) \<Rightarrow>
            case (if result = ReplayResultSuccess then send_change_sets sends (cv_sender c) (tl events) rtx
                  else Some (rtx, [], True)) of
              None \<Rightarrow> None
            | Some (rtx', sent, ok) \<Rightarrow>
                if \<not> ok \<or> result = ReplayResultFullSyncRequired \<or> (cv_isLeader c \<and> result = ReplayResultRequestFromFuture)
                then map_option (\<lambda>(rtx'', full). (rtx'', sent @ full)) (send_full_state sends c rtx')
                else Some (rtx', sent))"

definition clamp_duration :: "u32 \<Rightarrow> u32" where
  "clamp_duration d = (let d1 = (if d < 10 then 10 else d) in if d1 > 360 then 360 else d1)"

definition handleSyncRequest ::
  "nat \<Rightarrow> (rdm_message \<Rightarrow> bool) \<Rightarrow> 'k controller_view \<Rightarrow> sync_request \<Rightarrow> router_sender \<Rightarrow> (router_sender \<times> rdm_message list) option" where
  "handleSyncRequest now sends c req rtx =
     (let rtx1 = (if \<not> rq_Renew req \<or> rq_SubscriptionId req \<noteq> rtx_subscriptionId rtx
                  then rtx\<lparr>rtx_currentIndex := rq_CurrentIndex req\<rparr> else rtx);
          timelineChange = (rtx_timelineId rtx1 \<noteq> rq_TimelineId req);
          rtx2 = rtx1\<lparr>rtx_timelineId := rq_TimelineId req, rtx_subscriptionId := rq_SubscriptionId req,
                      rtx_syncRdmUntil := now + unat (clamp_duration (rq_SubscriptionDurationSeconds req))\<rparr>
      in case CurrentIndex (cv_cache c) of
           Inl _ \<Rightarrow> None
         | Inr index \<Rightarrow>
             if index > rtx_currentIndex rtx2 \<or> timelineChange then handleModelChange now sends c rtx2 else Some (rtx2, []))"

text \<open>The ticker reports the index of the controller when it has grown.\<close>

definition sendRouterDataModelIndex :: "bool \<Rightarrow> 'k controller_view \<Rightarrow> router_sender \<Rightarrow> (router_sender \<times> u64 option) option" where
  "sendRouterDataModelIndex sent c rtx =
     (case CurrentIndex (cv_cache c) of
        Inl _ \<Rightarrow> None
      | Inr index \<Rightarrow>
          Some (if index \<le> rtx_lastIndexSent rtx then (rtx, None)
                else if sent then (rtx\<lparr>rtx_lastIndexSent := index\<rparr>, Some index) else (rtx, None)))"

section \<open>The router side\<close>

record data_model_subscription =
  sub_CtrlId :: string
  sub_SubscriptionId :: string

definition IsCurrentController :: "data_model_subscription \<Rightarrow> string \<Rightarrow> bool" where
  "IsCurrentController sub controllerId \<longleftrightarrow> sub_CtrlId sub \<noteq> '''' \<and> sub_CtrlId sub = controllerId"

definition no_subscription :: data_model_subscription where
  "no_subscription = \<lparr>sub_CtrlId = '''', sub_SubscriptionId = ''''\<rparr>"

text \<open>
  The part of the router's state manager that holds the data model. \<open>mg_pool\<close> is the queue of the worker pool,
  which has a single worker; \<open>mg_modelChanged\<close> is a channel with room for one element; \<open>mg_indexResets\<close> counts
  the calls to the index watchers.
\<close>

record ('k, 's) manager =
  mg_routerId :: string
  mg_routerDataModel :: "('k, 's) rdm option"
  mg_dataModelSubscription :: data_model_subscription
  mg_dataModelSubTimeout :: nat
  mg_resyncRouterDataModel :: bool
  mg_modelChanged :: bool
  mg_routerConfigSubscriber :: bool
  mg_indexResets :: nat
  mg_pool :: "rdm_body list"

definition ResyncRouterDataModel :: "('k, 's) manager \<Rightarrow> ('k, 's) manager" where
  "ResyncRouterDataModel mg =
     mg\<lparr>mg_resyncRouterDataModel := True, mg_dataModelSubscription := no_subscription, mg_modelChanged := True\<rparr>"

definition ResubscribeRouterDataModel :: "('k, 's) manager \<Rightarrow> ('k, 's) manager" where
  "ResubscribeRouterDataModel mg = mg\<lparr>mg_dataModelSubscription := no_subscription, mg_modelChanged := True\<rparr>"

definition collectRouterConfigTypes :: "('k, 's) rdm option \<Rightarrow> string cmap" where
  "collectRouterConfigTypes rdm =
     (case rdm of
        None \<Rightarrow> []
      | Some m \<Rightarrow>
          foldl (\<lambda>types (_, cfg). case map_of (m_ConfigTypes m) (cfg_TypeId (c_Data cfg)) of
              None \<Rightarrow> types
            | Some t \<Rightarrow> if ct_Target (t_Data t) = ConfigTypeTargetRouter
                        then AList.update (ct_Name (t_Data t)) (cfg_DataJson (c_Data cfg)) types else types)
            [] (m_Configs m))"

definition dispatchRouterConfigDiff :: "('k, 's) rdm option \<Rightarrow> ('k, 's) rdm option \<Rightarrow> router_config_event list" where
  "dispatchRouterConfigDiff old new =
     (let oldTypes = collectRouterConfigTypes old; newTypes = collectRouterConfigTypes new
      in map (\<lambda>(name, _). OnRouterConfigRemoved name) (filter (\<lambda>(name, _). map_of newTypes name = None) oldTypes) @
         map (\<lambda>(name, data). OnRouterConfigApplied name data) (filter (\<lambda>(name, data). map_of oldTypes name \<noteq> Some data) newTypes))"

definition SetRouterDataModel :: "bool \<Rightarrow> ('k, 's) rdm \<Rightarrow> ('k, 's) manager \<Rightarrow> ('k, 's) manager" where
  "SetRouterDataModel resetSubscription model mg =
     (let mg1 = (if resetSubscription then mg\<lparr>mg_dataModelSubscription := no_subscription\<rparr> else mg);
          existing = mg_routerDataModel mg;
          model1 = (case existing of Some m \<Rightarrow> InheritLocalData m model | None \<Rightarrow> model);
          existingIndex = (case existing of Some m \<Rightarrow> m_rdmIndex m | None \<Rightarrow> 0);
          subscriber = mg_routerConfigSubscriber mg;
          model2 = (if subscriber then model1\<lparr>m_configSubscriber := True\<rparr> else model1);
          mg2 = (if m_rdmIndex model < existingIndex then mg1\<lparr>mg_indexResets := mg_indexResets mg1 + 1\<rparr> else mg1);
          model3 = SyncAllSubscribers model2;
          model4 = (if subscriber
                    then model3\<lparr>m_dispatched := (case existing of Some m \<Rightarrow> m_dispatched m | None \<Rightarrow> []) @ m_dispatched model3 @
                           dispatchRouterConfigDiff existing (Some model3)\<rparr>
                    else model3);
          mg3 = mg2\<lparr>mg_routerDataModel := Some model4\<rparr>
      in if resetSubscription then mg3\<lparr>mg_modelChanged := True\<rparr> else mg3)"

text \<open>
  A message is checked when it is received and processed when the worker gets to it. \<open>queued\<close> is whether the
  pool takes the work.
\<close>

definition HandleReceive :: "string \<Rightarrow> bool \<Rightarrow> rdm_message \<Rightarrow> ('k, 's) manager \<Rightarrow> ('k, 's) manager" where
  "HandleReceive ctrlId queued msg mg =
     (let sub = mg_dataModelSubscription mg;
          synthetic = (case msg_Body msg of ChangeSetBody event \<Rightarrow> cs_IsSynthetic event | DataStateBody _ \<Rightarrow> False)
      in if \<not> IsCurrentController sub ctrlId \<and> \<not> synthetic then mg
         else if msg_SubscriptionId msg \<noteq> None \<and> msg_SubscriptionId msg \<noteq> Some (sub_SubscriptionId sub) then mg
         else if queued then mg\<lparr>mg_pool := mg_pool mg @ [msg_Body msg]\<rparr>
         else ResyncRouterDataModel mg)"

definition process_body :: "'k key_parsers \<Rightarrow> rdm_body \<Rightarrow> ('k, 's) manager \<Rightarrow> ('k, 's) manager option" where
  "process_body parsers body mg =
     (case body of
        ChangeSetBody event \<Rightarrow>
          (case mg_routerDataModel mg of
             None \<Rightarrow> None
           | Some m \<Rightarrow>
               (case ApplyChangeSet parsers event m of
                  None \<Rightarrow> None
                | Some (Inr m') \<Rightarrow> Some (mg\<lparr>mg_routerDataModel := Some m'\<rparr>)
                | Some (Inl (GapDetected _ _ _)) \<Rightarrow> Some (ResubscribeRouterDataModel mg)
                | Some (Inl (OutOfOrder _ _)) \<Rightarrow> Some mg))
      | DataStateBody st \<Rightarrow>
          map_option (\<lambda>m. SetRouterDataModel False m mg) (NewReceiverRouterDataModelFromDataState parsers (mg_routerId mg) st))"

text \<open>The worker runs until its queue is empty.\<close>

definition drain_pool :: "'k key_parsers \<Rightarrow> ('k, 's) manager \<Rightarrow> ('k, 's) manager option" where
  "drain_pool parsers mg = ofold (process_body parsers) (mg_pool mg) (mg\<lparr>mg_pool := []\<rparr>)"

definition DefaultSubscriptionTimeout :: nat where
  "DefaultSubscriptionTimeout = 300"

definition subscribeToDataModelUpdates ::
  "nat \<Rightarrow> string \<Rightarrow> bool \<Rightarrow> string \<Rightarrow> ('k, 's) manager \<Rightarrow> sync_request \<times> ('k, 's) manager" where
  "subscribeToDataModelUpdates now newId sent ctrlId mg =
     (let current = mg_dataModelSubscription mg; resync = mg_resyncRouterDataModel mg;
          renew = (\<not> resync \<and> sub_CtrlId current = ctrlId \<and> sub_CtrlId current \<noteq> '''');
          sub = (if renew then current else \<lparr>sub_CtrlId = ctrlId, sub_SubscriptionId = newId\<rparr>);
          mg1 = mg\<lparr>mg_dataModelSubscription := sub\<rparr>;
          req = \<lparr>rq_CurrentIndex = (if resync then 0 else case mg_routerDataModel mg of Some m \<Rightarrow> m_rdmIndex m | None \<Rightarrow> 0),
                 rq_SubscriptionDurationSeconds = of_nat DefaultSubscriptionTimeout, rq_Renew = renew,
                 rq_TimelineId = (case mg_routerDataModel mg of Some m \<Rightarrow> m_timelineId m | None \<Rightarrow> ''''),
                 rq_SubscriptionId = sub_SubscriptionId sub\<rparr>
      in (req, if sent then mg1\<lparr>mg_dataModelSubTimeout := now + DefaultSubscriptionTimeout, mg_resyncRouterDataModel := False\<rparr>
               else mg1\<lparr>mg_dataModelSubscription := no_subscription\<rparr>))"

text \<open>The state of a controller connection, as far as the choice of a controller depends on it.\<close>

record ctrl_connection =
  cc_IsConnected :: bool
  cc_TimeSinceLastContact :: nat

text \<open>The controller to subscribe to, if a new subscription is due.\<close>

definition checkRouterDataModelSubscription ::
  "bool \<Rightarrow> nat \<Rightarrow> (string \<Rightarrow> ctrl_connection option) \<Rightarrow> string option \<Rightarrow> ('k, 's) manager \<Rightarrow> string option" where
  "checkRouterDataModelSubscription required now controllers anyChannel mg =
     (if \<not> required then None
      else
        let ctrlId = sub_CtrlId (mg_dataModelSubscription mg)
        in case controllers ctrlId of
             None \<Rightarrow> anyChannel
           | Some ctrl \<Rightarrow>
               if ctrlId = '''' \<or> mg_dataModelSubTimeout mg < now then anyChannel
               else if \<not> cc_IsConnected ctrl \<or> cc_TimeSinceLastContact ctrl > 30
               then (case anyChannel of Some best \<Rightarrow> if best \<noteq> ctrlId then Some best else None | None \<Rightarrow> None)
               else None)"

definition endpoint_changed :: "string \<Rightarrow> ('k, 's) manager \<Rightarrow> ('k, 's) manager" where
  "endpoint_changed ctrlId mg =
     (if IsCurrentController (mg_dataModelSubscription mg) ctrlId then mg\<lparr>mg_dataModelSubscription := no_subscription\<rparr> else mg)"


section \<open>Replacing a model\<close>

text \<open>What the subscriber of router configs knows after a sequence of calls.\<close>

definition apply_config_event :: "(string \<rightharpoonup> string) \<Rightarrow> router_config_event \<Rightarrow> string \<rightharpoonup> string" where
  "apply_config_event known e =
     (case e of OnRouterConfigApplied name data \<Rightarrow> known(name \<mapsto> data) | OnRouterConfigRemoved name \<Rightarrow> known(name := None))"

lemma distinct_collect: "distinct (map fst (collectRouterConfigTypes rdm))"
proof -
  have "distinct (map fst (foldl (\<lambda>types (_, cfg). case map_of ct (cfg_TypeId (c_Data cfg)) of
      None \<Rightarrow> types
    | Some t \<Rightarrow> if ct_Target (t_Data t) = ConfigTypeTargetRouter
                then AList.update (ct_Name (t_Data t)) (cfg_DataJson (c_Data cfg)) types else types) types xs))"
    if "distinct (map fst types)" for types and xs :: "(string \<times> config) list" and ct :: "config_type cmap"
    using that by (induction xs arbitrary: types) (auto simp: distinct_update split: option.split)
  then show ?thesis by (simp add: collectRouterConfigTypes_def split: option.split)
qed

lemma apply_removed:
  "foldl apply_config_event known (map (\<lambda>(name, _). OnRouterConfigRemoved name) xs) = (\<lambda>k. if k \<in> fst ` set xs then None else known k)"
  by (induction xs arbitrary: known) (auto simp: apply_config_event_def fun_eq_iff)

lemma apply_applied:
  "distinct (map fst xs) \<Longrightarrow> foldl apply_config_event known (map (\<lambda>(name, data). OnRouterConfigApplied name data) xs) =
     (\<lambda>k. case map_of xs k of Some d \<Rightarrow> Some d | None \<Rightarrow> known k)"
proof (induction xs arbitrary: known)
  case (Cons x xs)
  obtain k d where x: "x = (k, d)" by fastforce
  have "map_of xs k = None" using Cons.prems by (simp add: x map_of_eq_None_iff)
  then show ?case using Cons by (auto simp: x apply_config_event_def fun_eq_iff split: option.split)
qed simp

lemma map_of_filter_pairs: "distinct (map fst xs) \<Longrightarrow> map_of (filter (\<lambda>(k, d). P k d) xs) k = (case map_of xs k of Some d \<Rightarrow> if P k d then Some d else None | None \<Rightarrow> None)"
  by (induction xs) (auto split: option.split simp: map_of_eq_None_iff rev_image_eqI)

text \<open>
  When a snapshot replaces the data model of a router, the subscriber of router configs is told exactly what
  changed: the calls lead from the configs of the old model to the configs of the new one.
\<close>

lemma config_diff_complete:
  "foldl apply_config_event (map_of (collectRouterConfigTypes old)) (dispatchRouterConfigDiff old new) = map_of (collectRouterConfigTypes new)"
proof -
  define xs where "xs = collectRouterConfigTypes old"
  define ys where "ys = collectRouterConfigTypes new"
  have d: "distinct (map fst xs)" "distinct (map fst ys)" by (simp_all add: xs_def ys_def distinct_collect)
  have "fst ` set (filter (\<lambda>(name, _). map_of ys name = None) xs) = {k. map_of ys k = None \<and> map_of xs k \<noteq> None}"
    by (force simp: map_of_eq_None_iff)
  then show ?thesis
    unfolding dispatchRouterConfigDiff_def Let_def foldl_append xs_def [symmetric] ys_def [symmetric] apply_removed
      apply_applied [OF distinct_map_filter [OF d(2)]] map_of_filter_pairs [OF d(2)]
    by (auto simp: fun_eq_iff split: option.split)
qed

lemma reachable_inherited:
  fixes other m :: "('k, 's) rdm"
  assumes "rdm_reachable parsers m"
  shows "rdm_reachable parsers (InheritLocalData other m)" "router_spec (InheritLocalData other m) = router_spec m"
    "m_rdmIndex (InheritLocalData other m) = m_rdmIndex m" "m_timelineId (InheritLocalData other m) = m_timelineId m"
proof -
  define R :: "('k, 's) rdm \<Rightarrow> bool" where "R = (\<lambda>m'. rdm_reachable parsers m' \<and> router_spec m' = router_spec m \<and> m_rdmIndex m' = m_rdmIndex m \<and> m_timelineId m' = m_timelineId m)"
  have track: "R (EnableServiceAccessTracking i m')" if "R m'" for i m'
  proof -
    have "m_rdmIndex (EnableServiceAccessTracking i m') = m_rdmIndex m'" "m_timelineId (EnableServiceAccessTracking i m') = m_timelineId m'"
      by (simp_all add: EnableServiceAccessTracking_def split: option.split)
    then show ?thesis using that rdm_reachable.track tracking_step(2) [OF reachable_ok] unfolding R_def by metis
  qed
  have subs: "R (m'\<lparr>m_subscriptions := xs\<rparr>)" if "R m'" for xs m'
  proof -
    have "m'\<lparr>m_subscriptions := xs\<rparr> = m'\<lparr>m_subscriptions := xs, m_updatedIdentities := m_updatedIdentities m', m_events := m_events m', m_scanSubs := m_scanSubs m'\<rparr>" by simp
    then have "rdm_reachable parsers (m'\<lparr>m_subscriptions := xs\<rparr>)" using that rdm_reachable.subscribers unfolding R_def by metis
    moreover have "router_spec (m'\<lparr>m_subscriptions := xs\<rparr>) = router_spec m'" by (rule router_spec_view) simp
    ultimately show ?thesis using that by (simp add: R_def)
  qed
  have terms: "R (m'\<lparr>m_terminatorIdCache := xs\<rparr>)" if "R m'" for xs m'
  proof -
    have "m'\<lparr>m_terminatorIdCache := xs\<rparr> = m'\<lparr>m_terminatorIdCache := xs, m_configSubscriber := m_configSubscriber m', m_dispatched := m_dispatched m'\<rparr>" by simp
    then have "rdm_reachable parsers (m'\<lparr>m_terminatorIdCache := xs\<rparr>)" using that rdm_reachable.attached unfolding R_def by metis
    moreover have "router_spec (m'\<lparr>m_terminatorIdCache := xs\<rparr>) = router_spec m'" by (rule router_spec_view) simp
    ultimately show ?thesis using that by (simp add: R_def)
  qed
  have fold: "R (foldl f m' xs)" if "R m'" "\<And>m x. R m \<Longrightarrow> R (f m x)" for f m' and xs :: "(string \<times> 'x) list"
    using that(1) by (induction xs arbitrary: m') (simp_all add: that(2))
  have "R m" using assms by (simp add: R_def)
  then have "R (InheritLocalData other m)"
    unfolding InheritLocalData_def Let_def by (intro fold) (auto intro: track subs terms)
  then show "rdm_reachable parsers (InheritLocalData other m)" "router_spec (InheritLocalData other m) = router_spec m"
    "m_rdmIndex (InheritLocalData other m) = m_rdmIndex m" "m_timelineId (InheritLocalData other m) = m_timelineId m"
    by (simp_all add: R_def)
qed


text \<open>The data of a model, its index and its timeline.\<close>

definition synced :: "'k key_parsers \<Rightarrow> 'k data_model \<Rightarrow> u64 \<Rightarrow> string \<Rightarrow> ('k, 's) rdm \<Rightarrow> bool" where
  "synced parsers A index timeline m \<longleftrightarrow> rdm_reachable parsers m \<and> router_spec m = A \<and> m_rdmIndex m = index \<and> m_timelineId m = timeline"

lemma SetRouterDataModel_synced:
  assumes "synced parsers A index timeline m"
  shows "\<exists>m' resets. SetRouterDataModel False m mg = mg\<lparr>mg_routerDataModel := Some m', mg_indexResets := resets\<rparr> \<and> synced parsers A index timeline m'"
proof -
  define m1 where "m1 = (case mg_routerDataModel mg of Some e \<Rightarrow> InheritLocalData e m | None \<Rightarrow> m)"
  have s1: "synced parsers A index timeline m1"
    using assms reachable_inherited by (auto simp: m1_def synced_def split: option.split)
  have s2: "synced parsers A index timeline (m1\<lparr>m_configSubscriber := b, m_events := ev, m_dispatched := tr\<rparr>)" for b ev tr
  proof -
    let ?m = "m1\<lparr>m_configSubscriber := b, m_events := ev, m_dispatched := tr\<rparr>"
    have "?m = (m1\<lparr>m_subscriptions := m_subscriptions m1, m_updatedIdentities := m_updatedIdentities m1, m_events := ev, m_scanSubs := m_scanSubs m1\<rparr>)
        \<lparr>m_terminatorIdCache := m_terminatorIdCache m1, m_configSubscriber := b, m_dispatched := tr\<rparr>" by simp
    then have "rdm_reachable parsers ?m" using s1 rdm_reachable.attached rdm_reachable.subscribers unfolding synced_def by metis
    moreover have "router_spec ?m = router_spec m1" by (rule router_spec_view) (simp add: view_defs)
    ultimately show ?thesis using s1 by (simp add: synced_def)
  qed
  have s3: "synced parsers A index timeline (m1\<lparr>m_events := ev\<rparr>)" for ev
    using s2 [where b = "m_configSubscriber m1" and ev = ev and tr = "m_dispatched m1"] by simp
  let ?ev = "m_events m1 @ [syncAllSubscribersEvent]" let ?m2 = "m1\<lparr>m_configSubscriber := True, m_events := ?ev\<rparr>"
  define tr where "tr = (case mg_routerDataModel mg of Some m \<Rightarrow> m_dispatched m | None \<Rightarrow> []) @ m_dispatched m1 @ dispatchRouterConfigDiff (mg_routerDataModel mg) (Some ?m2)"
  define m4 where "m4 = (if mg_routerConfigSubscriber mg then m1\<lparr>m_configSubscriber := True, m_events := ?ev, m_dispatched := tr\<rparr> else m1\<lparr>m_events := ?ev\<rparr>)"
  define r where "r = (if m_rdmIndex m < (case mg_routerDataModel mg of Some m \<Rightarrow> m_rdmIndex m | None \<Rightarrow> 0) then mg_indexResets mg + 1 else mg_indexResets mg)"
  have "synced parsers A index timeline m4" using s2 s3 by (simp add: m4_def)
  moreover have "SetRouterDataModel False m mg = mg\<lparr>mg_routerDataModel := Some m4, mg_indexResets := r\<rparr>"
    unfolding SetRouterDataModel_def Let_def m1_def [symmetric] SyncAllSubscribers_def by (simp add: m4_def r_def tr_def)
  ultimately show ?thesis by blast
qed

section \<open>Reachable controllers\<close>

text \<open>
  A controller starts with the data it has read, at the index \<open>base\<close>, and applies change sets. The list is the
  change sets that its event cache accepted. An index of all ones is never reached.
\<close>

inductive ctrl_reachable ::
  "'k key_parsers \<Rightarrow> u64 \<Rightarrow> 'k sender \<Rightarrow> ds_event change_set list \<Rightarrow> ds_event event_cache \<times> 'k sender \<Rightarrow> bool"
  for parsers base s0 where
  start: "0 < n \<Longrightarrow> SetCurrentIndex (NewLoggingEventCache n) base = Inr c \<Longrightarrow> base \<noteq> - 1 \<Longrightarrow> sender_reachable parsers s0 \<Longrightarrow>
    ctrl_reachable parsers base s0 [] (c, s0)"
| change: "ctrl_reachable parsers base s0 acc (c, s) \<Longrightarrow> \<not> cs_IsSynthetic e \<Longrightarrow> cs_Index e \<noteq> - 1 \<Longrightarrow>
    events_wf parsers (sender_spec s) (cs_Changes e) \<Longrightarrow> guarded fresh_policy (\<lambda>e s. Some (sender_Handle parsers e s)) s (cs_Changes e) \<Longrightarrow>
    sender_ApplyChangeSet parsers e (c, s) = Some (cs', out) \<Longrightarrow> ctrl_reachable parsers base s0 (acc @ out) cs'"

definition all_changes :: "ds_event change_set list \<Rightarrow> ds_event list" where
  "all_changes acc = concat (map cs_Changes acc)"

lemma all_changes_append [simp]: "all_changes (xs @ ys) = all_changes xs @ all_changes ys" "all_changes [] = []" "all_changes (e # xs) = cs_Changes e @ all_changes xs"
  by (simp_all add: all_changes_def)

lemma linked_append: "linked p (xs @ ys) \<longleftrightarrow> linked p xs \<and> linked (last (p # map cs_Index xs)) ys"
  by (induction xs arbitrary: p) auto

definition ctrl_inv :: "'k key_parsers \<Rightarrow> u64 \<Rightarrow> 'k sender \<Rightarrow> ds_event change_set list \<Rightarrow> ds_event event_cache \<times> 'k sender \<Rightarrow> bool" where
  "ctrl_inv parsers base s0 acc cs \<longleftrightarrow>
     replayable base acc (fst cs) \<and> last (ring (fst cs)) \<noteq> - 1 \<and> linked base acc \<and> last (ring (fst cs)) = last (base # map cs_Index acc) \<and>
     (\<forall>e \<in> set acc. \<not> cs_IsSynthetic e) \<and>
     sender_reachable parsers (snd cs) \<and> events_wf parsers (sender_spec s0) (all_changes acc) \<and>
     sender_spec (snd cs) = data_steps parsers (all_changes acc) (sender_spec s0)"

lemma ctrl_step:
  assumes inv: "ctrl_inv parsers base s0 acc (c, s)" and e: "\<not> cs_IsSynthetic e" "cs_Index e \<noteq> - 1"
    and wf: "events_wf parsers (sender_spec s) (cs_Changes e)" "guarded fresh_policy (\<lambda>e s. Some (sender_Handle parsers e s)) s (cs_Changes e)"
    and ap: "sender_ApplyChangeSet parsers e (c, s) = Some (cs', out)"
  shows "ctrl_inv parsers base s0 (acc @ out) cs'"
proof -
  note I = inv [unfolded ctrl_inv_def, simplified]
  have ci: "cache_inv c" using I by (simp add: replayable_def)
  show ?thesis
  proof (cases "last (ring c) < cs_Index e")
    case False
    then have "Store c e = Inl (OutOfOrderEvent (last (ring c)) (cs_Index e))"
      using e(1) currentIndex_ring [OF ci] by (simp add: Store_def storeLocked_def not_less)
    then show ?thesis using ap inv by (simp add: sender_ApplyChangeSet_def)
  next
    case True
    define e' where "e' = e\<lparr>cs_PreviousIndex := last (ring c)\<rparr>"
    obtain c1 where st: "storeLocked c e = Inr (c1, cs_Index e, e')" and ow: "ring_overwrite c e' c1"
      unfolding e'_def using storeLocked_accepts [OF ci e(1) True] by blast
    have e': "cs_Index e' = cs_Index e" "cs_Changes e' = cs_Changes e" "cs_PreviousIndex e' = last (ring c)" "\<not> cs_IsSynthetic e'"
      using e by (simp_all add: e'_def)
    define s1 where "s1 = foldl (\<lambda>s e. sender_Handle parsers e s) s (cs_Changes e)"
    have r: "cs' = (c1, s1)" "out = [e']" using ap st e' by (auto simp: sender_ApplyChangeSet_def Store_def s1_def)
    have "replayable base (acc @ [e']) c1" using replayable_overwrite [OF _ _ ow] I True e' by simp
    moreover have "last (ring c1) = cs_Index e" using ring_overwrite_last [OF ow] e' by simp
    moreover have "sender_reachable parsers s1 \<and> sender_spec s1 = data_steps parsers (cs_Changes e) (sender_spec s)"
      unfolding s1_def using sender_reachable_events [OF _ wf] I by simp
    ultimately show ?thesis
      using I True e e' wf(1) by (auto simp: ctrl_inv_def r linked_append events_wf_append data_steps_append)
  qed
qed

lemma ctrl_reachable_inv: "ctrl_reachable parsers base s0 acc cs \<Longrightarrow> ctrl_inv parsers base s0 acc cs"
proof (induction rule: ctrl_reachable.induct)
  case (start n c)
  note S = replayable_start [OF start(1,2)]
  show ?case using S start(3,4) by (simp add: ctrl_inv_def)
next
  case (change acc c s e cs' out)
  then show ?case by (intro ctrl_step)
qed


section \<open>A router follows its controller\<close>

definition change_message :: "'k sender \<Rightarrow> router_sender \<Rightarrow> ds_event change_set \<Rightarrow> rdm_message" where
  "change_message s rtx e = marshal rtx (ChangeSetBody (router_change_set s (rtx_RouterId rtx) e))"

lemma marshal_index [simp]: "marshal (rtx\<lparr>rtx_currentIndex := i\<rparr>) = marshal rtx"
  by (simp add: marshal_def fun_eq_iff)

lemma send_change_sets_all:
  assumes "\<forall>msg. sends msg"
  shows "send_change_sets sends s (map Some es) rtx =
    Some (rtx\<lparr>rtx_currentIndex := last (rtx_currentIndex rtx # map cs_Index es)\<rparr>, map (change_message s rtx) es, True)"
proof (induction es arbitrary: rtx)
  case (Cons e es)
  have "change_message s (rtx\<lparr>rtx_currentIndex := i\<rparr>) = change_message s rtx" for i by (simp add: change_message_def fun_eq_iff)
  then show ?case using Cons assms by (simp add: change_message_def)
qed simp

lemma router_change_set_fields [simp]:
  "cs_Index (router_change_set s r e) = cs_Index e" "cs_PreviousIndex (router_change_set s r e) = cs_PreviousIndex e"
  "cs_IsSynthetic (router_change_set s r e) = cs_IsSynthetic e"
  by (simp_all add: router_change_set_def split: prod.split)

lemma router_change_set_changes: "cs_Changes (router_change_set s r e) = fst (FilterEventsForRouter s r (cs_Changes e) True)"
  by (auto simp: router_change_set_def FilterEventsForRouter_def split: prod.split)

text \<open>A change set that follows the index of the model is applied.\<close>

lemma change_set_applied:
  assumes m: "synced parsers A k timeline m" and e: "\<not> cs_IsSynthetic e" "cs_PreviousIndex e = k" "k < cs_Index e"
    and wf: "events_wf parsers A (cs_Changes e)"
  shows "\<exists>m'. ApplyChangeSet parsers (router_change_set s r e) m = Some (Inr m') \<and>
    synced parsers (data_steps parsers (cs_Changes e) A) (cs_Index e) timeline m'"
proof -
  define m1 where "m1 = m\<lparr>m_rdmIndex := cs_Index e\<rparr>"
  let ?es = "cs_Changes (router_change_set s r e)"
  have "m1 = m\<lparr>m_rdmIndex := cs_Index e, m_timelineId := m_timelineId m\<rparr>" by (simp add: m1_def)
  then have r1: "rdm_reachable parsers m1" using m rdm_reachable.stored unfolding synced_def by metis
  have A: "router_spec m1 = A" using m router_spec_view [of m1 m] by (simp add: m1_def synced_def)
  have wf': "events_wf parsers (router_spec m1) ?es" "data_steps parsers ?es A = data_steps parsers (cs_Changes e) A"
    using wf by (simp_all add: A router_change_set_changes FilterEventsForRouter_data)
  obtain m' where m': "ofold (Handle parsers (cs_Index e)) ?es m1 = Some m'" "router_spec m' = data_steps parsers ?es A"
    using router.handle_all [OF reachable_ok [OF r1] wf'(1) guarded_True, of "cs_Index e"] A by auto
  have "rdm_reachable parsers m'" using reachable_events [OF r1 wf'(1), of "cs_Index e"] m' by simp
  moreover have "m_rdmIndex m' = cs_Index e" "m_timelineId m' = timeline"
    using meta_events [OF m'(1)] m by (simp_all add: meta_def m1_def synced_def)
  moreover have "rdm_Store (router_change_set s r e) m = Inr m1" using m e by (simp add: rdm_Store_def Let_def m1_def synced_def not_le)
  ultimately show ?thesis using m' wf'(2) by (simp add: ApplyChangeSet_def synced_def)
qed

lemma change_sets_processed:
  assumes "mg_routerDataModel mg = Some m" and "synced parsers A k timeline m" and "linked k es"
    and "\<forall>e \<in> set es. \<not> cs_IsSynthetic e" and "events_wf parsers A (all_changes es)"
  shows "\<exists>m'. ofold (process_body parsers) (map (\<lambda>e. ChangeSetBody (router_change_set s r e)) es) mg = Some (mg\<lparr>mg_routerDataModel := Some m'\<rparr>) \<and>
    synced parsers (data_steps parsers (all_changes es) A) (last (k # map cs_Index es)) timeline m'"
  using assms
proof (induction es arbitrary: mg m A k)
  case Nil
  then show ?case by (intro exI [of _ m]) simp
next
  case (Cons e es)
  obtain m1 where m1: "ApplyChangeSet parsers (router_change_set s r e) m = Some (Inr m1)"
    "synced parsers (data_steps parsers (cs_Changes e) A) (cs_Index e) timeline m1"
    using change_set_applied [OF Cons.prems(2), of e s r] Cons.prems by (auto simp: events_wf_append)
  have "mg_routerDataModel (mg\<lparr>mg_routerDataModel := Some m1\<rparr>) = Some m1" by simp
  from Cons.IH [OF this m1(2)] obtain m' where
    "ofold (process_body parsers) (map (\<lambda>e. ChangeSetBody (router_change_set s r e)) es) (mg\<lparr>mg_routerDataModel := Some m1\<rparr>) = Some (mg\<lparr>mg_routerDataModel := Some m'\<rparr>)"
    "synced parsers (data_steps parsers (all_changes es) (data_steps parsers (cs_Changes e) A)) (last (cs_Index e # map cs_Index es)) timeline m'"
    using Cons.prems by (auto simp: events_wf_append)
  moreover have "process_body parsers (ChangeSetBody (router_change_set s r e)) mg = Some (mg\<lparr>mg_routerDataModel := Some m1\<rparr>)"
    using m1(1) Cons.prems(1) by (simp add: process_body_def)
  ultimately show ?case by (auto simp: data_steps_append)
qed

text \<open>The messages of a sender are received in order and then processed.\<close>

definition deliver :: "'k key_parsers \<Rightarrow> string \<Rightarrow> rdm_message list \<Rightarrow> ('k, 's) manager \<Rightarrow> ('k, 's) manager option" where
  "deliver parsers ctrlId msgs mg = drain_pool parsers (foldl (\<lambda>mg msg. HandleReceive ctrlId True msg mg) mg msgs)"

definition subscribed :: "router_sender \<Rightarrow> string \<Rightarrow> ('k, 's) manager \<Rightarrow> bool" where
  "subscribed rtx ctrlId mg \<longleftrightarrow> ctrlId \<noteq> '''' \<and> mg_dataModelSubscription mg = \<lparr>sub_CtrlId = ctrlId, sub_SubscriptionId = rtx_subscriptionId rtx\<rparr> \<and>
     mg_routerId mg = rtx_RouterId rtx \<and> mg_pool mg = []"

lemma deliver_subscribed:
  assumes "subscribed rtx ctrlId mg"
  shows "deliver parsers ctrlId (map (marshal rtx) bodies) mg = ofold (process_body parsers) bodies mg"
proof -
  have "foldl (\<lambda>mg msg. HandleReceive ctrlId True msg mg) mg' (map (marshal rtx) bodies) = mg'\<lparr>mg_pool := mg_pool mg' @ bodies\<rparr>"
    if "mg_dataModelSubscription mg' = mg_dataModelSubscription mg" for mg'
    using that
  proof (induction bodies arbitrary: mg')
    case (Cons b bodies)
    have "HandleReceive ctrlId True (marshal rtx b) mg' = mg'\<lparr>mg_pool := mg_pool mg' @ [b]\<rparr>"
      using Cons.prems assms by (simp add: HandleReceive_def marshal_def subscribed_def IsCurrentController_def Let_def)
    then show ?case using Cons by simp
  qed simp
  from this [OF refl] have "foldl (\<lambda>mg msg. HandleReceive ctrlId True msg mg) mg (map (marshal rtx) bodies) = mg\<lparr>mg_pool := bodies\<rparr>"
    using assms by (simp add: subscribed_def)
  moreover have "mg\<lparr>mg_pool := []\<rparr> = mg" using assms by (simp add: subscribed_def)
  ultimately show ?thesis by (simp add: deliver_def drain_pool_def)
qed


text \<open>
  The model of a router is in step with a controller when it has the data and the index that the controller had
  at its start or after one of the change sets it accepted.
\<close>

definition in_step ::
  "'k key_parsers \<Rightarrow> u64 \<Rightarrow> 'k sender \<Rightarrow> ds_event change_set list \<Rightarrow> string \<Rightarrow> ('k, 's) rdm \<Rightarrow> bool" where
  "in_step parsers base s0 acc timeline m \<longleftrightarrow>
     (\<exists>old new. acc = old @ new \<and> synced parsers (data_steps parsers (all_changes old) (sender_spec s0)) (last (base # map cs_Index old)) timeline m)"

lemma linked_last_le: "linked p es \<Longrightarrow> p \<le> last (p # map cs_Index es) \<and> (\<forall>e \<in> set es. p < cs_Index e \<and> cs_Index e \<le> last (p # map cs_Index es))"
  by (induction es arbitrary: p) (force+)

lemma linked_last_less: "linked p es \<Longrightarrow> es \<noteq> [] \<Longrightarrow> p < last (p # map cs_Index es)"
  using linked_last_le [of p es] by (cases es) force+

text \<open>The replay from the index of a prefix starts with the last change set of that prefix.\<close>

lemma replay_prefix:
  assumes "linked base (old @ new)" and "old \<noteq> []"
  shows "filter (\<lambda>e. last (base # map cs_Index old) \<le> cs_Index e) (old @ new) = last old # new"
proof -
  obtain xs e where old: "old = xs @ [e]" using assms(2) by (metis rev_exhaust)
  have l: "linked base xs" "last (base # map cs_Index xs) < cs_Index e" "linked (cs_Index e) new"
    using assms(1) by (simp_all add: old linked_append)
  have "\<forall>x \<in> set xs. cs_Index x < cs_Index e" using linked_last_le [OF l(1)] l(2) by (metis order_le_less_trans)
  then have "filter (\<lambda>x. cs_Index e \<le> cs_Index x) xs = []" by (force simp: filter_empty_conv)
  moreover have "\<forall>x \<in> set new. cs_Index e \<le> cs_Index x" using linked_last_le [OF l(3)] by force
  then have "filter (\<lambda>x. cs_Index e \<le> cs_Index x) new = new" by simp
  ultimately show ?thesis by (simp add: old)
qed

lemma full_state_delivered:
  fixes parsers :: "'k key_parsers" and mg :: "('k, 's) manager"
  assumes c: "ctrl_reachable parsers base s0 acc (cv_cache c, cv_sender c)" and sub: "subscribed rtx ctrlId mg" and sends: "\<forall>msg. sends msg"
  shows "\<exists>rtx' msgs mg' m'. send_full_state sends c rtx = Some (rtx', msgs) \<and> deliver parsers ctrlId msgs mg = Some mg' \<and>
    mg_routerDataModel mg' = Some m' \<and> synced parsers (sender_spec (cv_sender c)) (last (base # map cs_Index acc)) (cv_timelineId c) m' \<and>
    rtx_currentIndex rtx' = m_rdmIndex m' \<and> rtx_timelineId rtx' = cv_timelineId c \<and> subscribed rtx' ctrlId mg'"
proof -
  note I = ctrl_reachable_inv [OF c, unfolded ctrl_inv_def, simplified]
  let ?k = "last (base # map cs_Index acc)"
  have "cache_inv (cv_cache c)" using I by (simp add: replayable_def)
  then have cur: "CurrentIndex (cv_cache c) = Inr ?k" using I by (simp add: CurrentIndex_def currentIndex_ring)
  have "sender_wf parsers (cv_sender c)" using I sender_reachable_wf by blast
  then obtain st where st: "GetDataStateForRouter (cv_timelineId c) ?k (cv_sender c) (rtx_RouterId rtx) = Some st" "ds_EndIndex st = ?k"
    "ds_TimelineId st = cv_timelineId c" "ds_TerminatorIds st = None"
    "events_wf parsers empty_data_model (ds_Events st)" "data_steps parsers (ds_Events st) empty_data_model = sender_spec (cv_sender c)"
    using router_snapshot_events [of parsers "cv_sender c" "cv_timelineId c" ?k "rtx_RouterId rtx"] by blast
  obtain m :: "('k, 's) rdm" where m: "NewReceiverRouterDataModelFromDataState parsers (mg_routerId mg) st = Some m"
    "synced parsers (sender_spec (cv_sender c)) ?k (cv_timelineId c) m"
    using data_state_loaded [where 's = 's, OF st(4,5), of "mg_routerId mg"] st by (auto simp: synced_def)
  obtain m' r where m': "SetRouterDataModel False m mg = mg\<lparr>mg_routerDataModel := Some m', mg_indexResets := r\<rparr>"
    "synced parsers (sender_spec (cv_sender c)) ?k (cv_timelineId c) m'"
    using SetRouterDataModel_synced [OF m(2), of mg] by blast
  have "deliver parsers ctrlId [marshal rtx (DataStateBody st)] mg = Some (mg\<lparr>mg_routerDataModel := Some m', mg_indexResets := r\<rparr>)"
    using deliver_subscribed [OF sub, of parsers "[DataStateBody st]"] m(1) m'(1) by (simp add: process_body_def)
  then show ?thesis
    using cur st m'(2) sends sub by (simp add: send_full_state_def synced_def subscribed_def Let_def)
qed

lemma model_change_delivered:
  assumes c: "ctrl_reachable parsers base s0 acc (cv_cache c, cv_sender c)" and sub: "subscribed rtx ctrlId mg" and sends: "\<forall>msg. sends msg"
    and now: "now \<le> rtx_syncRdmUntil rtx" and m: "mg_routerDataModel mg = Some m"
    and step: "rtx_currentIndex rtx > 0 \<Longrightarrow> rtx_timelineId rtx = cv_timelineId c \<Longrightarrow> rtx_currentIndex rtx = m_rdmIndex m \<and> in_step parsers base s0 acc (cv_timelineId c) m"
  shows "\<exists>rtx' msgs mg' m'. handleModelChange now sends c rtx = Some (rtx', msgs) \<and> deliver parsers ctrlId msgs mg = Some mg' \<and>
    mg_routerDataModel mg' = Some m' \<and> synced parsers (sender_spec (cv_sender c)) (last (base # map cs_Index acc)) (cv_timelineId c) m' \<and>
    rtx_currentIndex rtx' = m_rdmIndex m' \<and> rtx_timelineId rtx' = cv_timelineId c \<and> subscribed rtx' ctrlId mg'"
proof (cases "rtx_currentIndex rtx > 0 \<and> rtx_timelineId rtx = cv_timelineId c")
  case False
  then have "handleModelChange now sends c rtx = map_option (\<lambda>(rtx'', full). (rtx'', full)) (send_full_state sends c rtx)"
    using now by (auto simp: handleModelChange_def)
  then show ?thesis using full_state_delivered [OF c sub sends] by auto
next
  case True
  note I = ctrl_reachable_inv [OF c, unfolded ctrl_inv_def, simplified]
  obtain old new where acc: "acc = old @ new" and k: "rtx_currentIndex rtx = last (base # map cs_Index old)"
    and s: "synced parsers (data_steps parsers (all_changes old) (sender_spec s0)) (rtx_currentIndex rtx) (cv_timelineId c) m"
    using step True by (auto simp: in_step_def synced_def)
  let ?k = "rtx_currentIndex rtx" let ?h = "last (ring (cv_cache c))"
  have l: "linked base old" "linked ?k new" using I by (simp_all add: acc linked_append k)
  have h: "?h = last (?k # map cs_Index new)" using I by (auto simp: acc k)
  have lt: "\<not> ?h < ?k" using linked_last_le [OF l(2)] by (simp add: h not_less)
  have rp: "replayable base acc (cv_cache c)" "?h \<noteq> - 1" using I by blast+
  have R: "ReplayFrom (cv_cache c) ?k = Some (Inr (if acc = [] \<or> ?k < MinEntryIndex (cv_cache c) then ([], ReplayResultFullSyncRequired)
      else (map Some (filter (\<lambda>e. ?k \<le> cs_Index e) acc), ReplayResultSuccess)))"
    by (rule ReplayFrom_exact [OF rp, of ?k, unfolded if_not_P [OF lt]])
  show ?thesis
  proof (cases "acc = [] \<or> ?k < MinEntryIndex (cv_cache c)")
    case full: True
    then have "ReplayFrom (cv_cache c) ?k = Some (Inr ([], ReplayResultFullSyncRequired))" using R by simp
    then have "handleModelChange now sends c rtx = map_option (\<lambda>(rtx'', full). (rtx'', full)) (send_full_state sends c rtx)"
      using now True by (auto simp: handleModelChange_def)
    then show ?thesis using full_state_delivered [OF c sub sends] by auto
  next
    case part: False
    have "base < MinEntryIndex (cv_cache c)" using I part by (simp add: replayable_def)
    then have "old \<noteq> []" using part k by auto
    then have "ReplayFrom (cv_cache c) ?k = Some (Inr (map Some (last old # new), ReplayResultSuccess))"
      using R part replay_prefix [of base old new, folded acc k] I by simp
    then have hm: "handleModelChange now sends c rtx = Some (rtx\<lparr>rtx_currentIndex := last (?k # map cs_Index new)\<rparr>, map (change_message (cv_sender c) rtx) new)"
      using now True send_change_sets_all [OF sends, of "cv_sender c" new rtx] by (simp add: handleModelChange_def)
    have "events_wf parsers (data_steps parsers (all_changes old) (sender_spec s0)) (all_changes new)" "\<forall>e \<in> set new. \<not> cs_IsSynthetic e"
      using I by (simp_all add: acc events_wf_append)
    from change_sets_processed [OF m s l(2) this(2,1), of "cv_sender c" "rtx_RouterId rtx"]
    obtain m' where m': "ofold (process_body parsers) (map (\<lambda>e. ChangeSetBody (router_change_set (cv_sender c) (rtx_RouterId rtx) e)) new) mg = Some (mg\<lparr>mg_routerDataModel := Some m'\<rparr>)"
      "synced parsers (sender_spec (cv_sender c)) (last (?k # map cs_Index new)) (cv_timelineId c) m'"
      using I by (auto simp: acc data_steps_append)
    have "map (change_message (cv_sender c) rtx) new = map (marshal rtx) (map (\<lambda>e. ChangeSetBody (router_change_set (cv_sender c) (rtx_RouterId rtx) e)) new)"
      by (simp add: change_message_def)
    then have "deliver parsers ctrlId (map (change_message (cv_sender c) rtx) new) mg = Some (mg\<lparr>mg_routerDataModel := Some m'\<rparr>)"
      using deliver_subscribed [OF sub] m'(1) by metis
    moreover have "last (?k # map cs_Index new) = last (base # map cs_Index acc)" by (simp add: acc k)
    ultimately show ?thesis using hm m'(2) True sub by (simp add: synced_def subscribed_def)
  qed
qed


section \<open>Properties\<close>



text \<open>
  C34. A lost change set. If the index of a router lies strictly between the indexes of two accepted change sets
  that are still in the cache, as it does after a snapshot of a controller that started at a raft index without
  a change of the data model, then the later of the two is never sent: the sender drops the first change set of
  the replay, which it takes for the one the router has. If it is the newest one, nothing is sent at all;
  otherwise the router refuses the first one it is sent, since there is a gap.
\<close>

theorem skipped_change_set:
  assumes c: "ctrl_reachable parsers base s0 (old @ e # new) (cv_cache c, cv_sender c)" and sends: "\<forall>msg. sends msg"
    and now: "now \<le> rtx_syncRdmUntil rtx" and tl: "rtx_timelineId rtx = cv_timelineId c"
    and k: "last (base # map cs_Index old) < rtx_currentIndex rtx" "rtx_currentIndex rtx < cs_Index e"
      "MinEntryIndex (cv_cache c) \<le> rtx_currentIndex rtx" and m: "m_rdmIndex m = rtx_currentIndex rtx"
  shows "handleModelChange now sends c rtx =
      Some (rtx\<lparr>rtx_currentIndex := last (rtx_currentIndex rtx # map cs_Index new)\<rparr>, map (change_message (cv_sender c) rtx) new) \<and>
    (\<forall>e2 new2. new = e2 # new2 \<longrightarrow> ApplyChangeSet parsers (router_change_set (cv_sender c) (rtx_RouterId rtx) e2) m =
      Some (Inl (GapDetected (rtx_currentIndex rtx) (cs_Index e) (cs_Index e2))))"
proof -
  note I = ctrl_reachable_inv [OF c, unfolded ctrl_inv_def, simplified]
  let ?k = "rtx_currentIndex rtx" let ?acc = "old @ e # new" let ?h = "last (ring (cv_cache c))"
  have l: "linked base old" "cs_PreviousIndex e = last (base # map cs_Index old)" "linked (cs_Index e) new"
    using I by (simp_all add: linked_append)
  have h: "?h = last (cs_Index e # map cs_Index new)" using I by auto
  have "cs_Index e \<le> ?h" using linked_last_le [OF l(3)] by (simp add: h)
  then have lt: "\<not> ?h < ?k" using k(2) by simp
  have rp: "replayable base ?acc (cv_cache c)" "?h \<noteq> - 1" using I by blast+
  have "\<forall>x \<in> set old. cs_Index x < ?k" using linked_last_le [OF l(1)] k(1) by (metis order_le_less_trans)
  moreover have "\<forall>x \<in> set new. ?k \<le> cs_Index x" using linked_last_le [OF l(3)] k(2) by force
  ultimately have "filter (\<lambda>x. ?k \<le> cs_Index x) ?acc = e # new" using k(2) by (force simp: filter_empty_conv)
  then have "ReplayFrom (cv_cache c) ?k = Some (Inr (map Some (e # new), ReplayResultSuccess))"
    using ReplayFrom_exact [OF rp, of ?k, unfolded if_not_P [OF lt]] k(3) by simp
  moreover have k0: "?k > 0" using k(1) by (metis word_gt_0 word_not_simps(1))
  ultimately have "handleModelChange now sends c rtx = Some (rtx\<lparr>rtx_currentIndex := last (?k # map cs_Index new)\<rparr>, map (change_message (cv_sender c) rtx) new)"
    using now tl send_change_sets_all [OF sends, of "cv_sender c" new rtx] by (simp add: handleModelChange_def)
  moreover have "ApplyChangeSet parsers (router_change_set (cv_sender c) (rtx_RouterId rtx) e2) m = Some (Inl (GapDetected ?k (cs_Index e) (cs_Index e2)))"
    if "new = e2 # new2" for e2 new2
  proof -
    have "cs_PreviousIndex e2 = cs_Index e" "cs_Index e < cs_Index e2" "\<not> cs_IsSynthetic e2" using l(3) I that by simp_all
    moreover from this have "\<not> cs_Index e2 \<le> ?k" "cs_Index e > 0" using k(2) k0 by (auto simp: word_gt_0)
    ultimately show ?thesis using k(2) k0 by (simp add: ApplyChangeSet_def rdm_Store_def m Let_def)
  qed
  ultimately show ?thesis by blast
qed


section \<open>An example\<close>

text \<open>
  A controller with room for four change sets starts at index 10 without data and accepts changes at 11, 14 and
  15; the one at 14 has the example data. The router has index 11, or 12 where it loses a change set.
\<close>

definition demo_change :: "u64 \<Rightarrow> u64 \<Rightarrow> ds_event list \<Rightarrow> ds_event change_set" where
  "demo_change prev i es = \<lparr>cs_Index = i, cs_PreviousIndex = prev, cs_IsSynthetic = False, cs_Changes = es\<rparr>"

definition demo_cache :: "nat \<Rightarrow> u64 list \<Rightarrow> (u64 \<rightharpoonup> ds_event change_set) \<Rightarrow> ds_event event_cache" where
  "demo_cache n log events = \<lparr>HeadLogIndex = n, MinEntryIndex = (if n = 0 then 0 else 11), LogSize = 4, Log = log, Events = events\<rparr>"

definition demo_final_cache :: "ds_event event_cache" where
  "demo_final_cache = demo_cache 3 [10, 11, 14, 15] [11 \<mapsto> demo_change 10 11 [], 14 \<mapsto> demo_change 11 14 demo_events, 15 \<mapsto> demo_change 14 15 []]"

lemma demo_store:
  "Store (demo_cache 0 [10, 0, 0, 0] Map.empty) (demo_change 0 11 es) = Inr (demo_cache 1 [10, 11, 0, 0] [11 \<mapsto> demo_change 10 11 es], 11, demo_change 10 11 es)"
  "Store (demo_cache 1 [10, 11, 0, 0] ev) (demo_change 0 14 es) = Inr (demo_cache 2 [10, 11, 14, 0] (ev(14 \<mapsto> demo_change 11 14 es)), 14, demo_change 11 14 es)"
  "Store (demo_cache 2 [10, 11, 14, 0] ev) (demo_change 0 15 es) = Inr (demo_cache 3 [10, 11, 14, 15] (ev(15 \<mapsto> demo_change 14 15 es)), 15, demo_change 14 15 es)"
  by (simp_all add: Store_def storeLocked_def currentIndex_def demo_cache_def demo_change_def Let_def)

definition demo_view :: "string controller_view" where
  "demo_view = \<lparr>cv_cache = demo_final_cache, cv_sender = demo_sender, cv_timelineId = ''t'', cv_isLeader = True\<rparr>"

definition demo_acc :: "ds_event change_set list" where
  "demo_acc = [demo_change 10 11 [], demo_change 11 14 demo_events, demo_change 14 15 []]"

lemma demo_controller: "ctrl_reachable demo_parsers 10 NewRouterDataModelSender demo_acc (cv_cache demo_view, cv_sender demo_view)"
proof -
  let ?s = "NewRouterDataModelSender :: string sender" and ?c0 = "demo_cache 0 [10, 0, 0, 0] Map.empty"
  have "SetCurrentIndex (NewLoggingEventCache 4) 10 = Inr ?c0"
    by (simp add: SetCurrentIndex_def NewLoggingEventCache_def demo_cache_def Let_def numeral_eq_Suc)
  from ctrl_reachable.start [OF _ this _ sender_reachable.start, of demo_parsers] have c0: "ctrl_reachable demo_parsers 10 ?s [] (?c0, ?s)" by simp
  have fields: "\<not> cs_IsSynthetic (demo_change p i es)" "cs_Changes (demo_change p i es) = es" "cs_Index (demo_change p i es) = i" for p i es
    by (simp_all add: demo_change_def)
  have "sender_ApplyChangeSet demo_parsers (demo_change 0 11 []) (?c0, ?s) =
      Some ((demo_cache 1 [10, 11, 0, 0] [11 \<mapsto> demo_change 10 11 []], ?s), [demo_change 10 11 []])"
    by (simp add: sender_ApplyChangeSet_def demo_store fields)
  from ctrl_reachable.change [OF c0 _ _ _ _ this]
  have c1: "ctrl_reachable demo_parsers 10 ?s [demo_change 10 11 []] (demo_cache 1 [10, 11, 0, 0] [11 \<mapsto> demo_change 10 11 []], ?s)"
    by (simp add: fields)
  have "sender_ApplyChangeSet demo_parsers (demo_change 0 14 demo_events) (demo_cache 1 [10, 11, 0, 0] [11 \<mapsto> demo_change 10 11 []], ?s) =
      Some ((demo_cache 2 [10, 11, 14, 0] [11 \<mapsto> demo_change 10 11 [], 14 \<mapsto> demo_change 11 14 demo_events], demo_sender), [demo_change 11 14 demo_events])"
    by (simp add: sender_ApplyChangeSet_def demo_store fields demo_sender_def del: One_nat_def)
  from ctrl_reachable.change [OF c1 _ _ _ _ this]
  have c2: "ctrl_reachable demo_parsers 10 ?s [demo_change 10 11 [], demo_change 11 14 demo_events]
      (demo_cache 2 [10, 11, 14, 0] [11 \<mapsto> demo_change 10 11 [], 14 \<mapsto> demo_change 11 14 demo_events], demo_sender)"
    using demo_wf demo_guarded by (simp add: fields new_sender(2))
  have "sender_ApplyChangeSet demo_parsers (demo_change 0 15 []) (demo_cache 2 [10, 11, 14, 0] [11 \<mapsto> demo_change 10 11 [], 14 \<mapsto> demo_change 11 14 demo_events], demo_sender) =
      Some ((demo_final_cache, demo_sender), [demo_change 14 15 []])"
    by (simp add: sender_ApplyChangeSet_def demo_store fields demo_final_cache_def)
  from ctrl_reachable.change [OF c2 _ _ _ _ this] show ?thesis by (simp add: fields demo_acc_def demo_view_def)
qed

definition demo_router_model :: "u64 \<Rightarrow> (string, unit) rdm" where
  "demo_router_model i = (NewReceiverRouterDataModel ''r'')\<lparr>m_rdmIndex := i, m_timelineId := ''t''\<rparr>"

lemma demo_in_step: "in_step demo_parsers 10 NewRouterDataModelSender demo_acc ''t'' (demo_router_model 11)"
proof -
  have "view (demo_router_model 11) = view (NewReceiverRouterDataModel ''r'' :: (string, unit) rdm)" by (simp add: demo_router_model_def)
  from router_spec_view [OF this] have "router_spec (demo_router_model 11) = empty_data_model" by (simp add: new_model)
  moreover have "rdm_reachable demo_parsers (demo_router_model 11)" unfolding demo_router_model_def by (intro rdm_reachable.stored rdm_reachable.start)
  ultimately have "synced demo_parsers (data_steps demo_parsers (all_changes [demo_change 10 11 []]) (sender_spec NewRouterDataModelSender)) 11 ''t'' (demo_router_model 11)"
    by (simp add: synced_def demo_router_model_def demo_change_def new_sender(2))
  then show ?thesis unfolding in_step_def demo_acc_def
    by (intro exI [of _ "[demo_change 10 11 []]"] exI [of _ "[demo_change 11 14 demo_events, demo_change 14 15 []]"]) (simp add: demo_change_def)
qed

definition demo_rtx :: "u64 \<Rightarrow> router_sender" where
  "demo_rtx i = \<lparr>rtx_RouterId = ''r'', rtx_currentIndex = i, rtx_timelineId = ''t'', rtx_subscriptionId = ''x'', rtx_syncRdmUntil = 400, rtx_lastIndexSent = 0\<rparr>"

definition demo_manager :: "u64 \<Rightarrow> string \<Rightarrow> (string, unit) manager" where
  "demo_manager i ctrlId = \<lparr>mg_routerId = ''r'', mg_routerDataModel = Some (demo_router_model i),
     mg_dataModelSubscription = \<lparr>sub_CtrlId = ctrlId, sub_SubscriptionId = ''x''\<rparr>, mg_dataModelSubTimeout = 400,
     mg_resyncRouterDataModel = False, mg_modelChanged = False, mg_routerConfigSubscriber = True, mg_indexResets = 0, mg_pool = []\<rparr>"

lemma demo_fields:
  "subscribed (demo_rtx i) ''c'' (demo_manager i ''c'')" "mg_routerDataModel (demo_manager i x) = Some (demo_router_model i)"
  "rtx_currentIndex (demo_rtx i) = m_rdmIndex (demo_router_model i)" "rtx_timelineId (demo_rtx i) = m_timelineId (demo_router_model i)"
  "m_timelineId (demo_router_model i) = cv_timelineId demo_view" "rtx_syncRdmUntil (demo_rtx i) = 400" "m_rdmIndex (demo_router_model i) = i"
  "CurrentIndex (cv_cache demo_view) = Inr 15" "cv_timelineId demo_view = ''t''" "cv_sender demo_view = demo_sender"
  by (simp_all add: subscribed_def demo_rtx_def demo_manager_def demo_router_model_def demo_view_def demo_final_cache_def demo_cache_def CurrentIndex_def currentIndex_def)



theorem skipped_change_set_witness:
  "handleModelChange 100 (\<lambda>_. True) demo_view (demo_rtx 12) = Some (demo_rtx 15, [change_message demo_sender (demo_rtx 12) (demo_change 14 15 [])]) \<and>
   ApplyChangeSet demo_parsers (router_change_set demo_sender ''r'' (demo_change 14 15 [])) (demo_router_model 12) = Some (Inl (GapDetected 12 14 15))"
proof -
  have "ctrl_reachable demo_parsers 10 NewRouterDataModelSender ([demo_change 10 11 []] @ demo_change 11 14 demo_events # [demo_change 14 15 []])
      (cv_cache demo_view, cv_sender demo_view)" using demo_controller by (simp add: demo_acc_def)
  from skipped_change_set [OF this, of "\<lambda>_. True" 100 "demo_rtx 12" "demo_router_model 12"] show ?thesis
    by (simp add: demo_rtx_def demo_router_model_def demo_view_def demo_final_cache_def demo_cache_def demo_change_def)
qed

end
