(* ===== verification/Spec2Isabelle.thy ===== *)
theory Spec2Isabelle
  imports Event_Cache Data_Plane Data_Model_Distribution
begin

text \<open>
  A verification library for the controller and the router of OpenZiti. File names below are relative to
  \<^verbatim>\<open>src/\<close>; definitions have the names of the functions they model wherever Isabelle allows it.

  \<^bold>\<open>The program.\<close> A controller knows routers, the links between them, services and the terminators that host
  the services. To create a circuit it selects a terminator and a path of routers, sends each router of the
  path a route message and waits for the answers. Routers dial the terminator, keep forwarding tables and move
  payloads along the path. When links fail or costs change, circuits are rerouted or removed. Besides, the
  controller keeps a data model of identities, services and policies, and sends it to the routers as change
  sets or snapshots, so that routers can decide on access by themselves.

  \<^bold>\<open>Network and path search.\<close>

  \<^item> \<^verbatim>\<open>Link_Manager\<close> models \<^verbatim>\<open>controller/model/link_model.go\<close>, \<^verbatim>\<open>link_manager.go\<close>, the connections of
    \<^verbatim>\<open>router_manager.go\<close>, and the handlers that change them (\<^verbatim>\<open>controller/network/network.go\<close>, \<^verbatim>\<open>assembly.go\<close>,
    \<^verbatim>\<open>controller/handler_ctrl/router_link.go\<close>, \<^verbatim>\<open>fault.go\<close>). Routers and links are objects in a heap (\<open>net\<close>), since the link
    table, the index of each router and circuits share them. \<open>net_step\<close> is one operation on the network; the
    invariant \<open>net_inv\<close> holds in every state that operations lead to: the index of each connected router has
    exactly the links of the table that touch it. The theory also shows that costs are current and that the
    selected link is a cheapest one, seen from both ends.
  \<^item> \<^verbatim>\<open>Shortest_Path\<close> models \<open>shortestPath\<close> and \<open>minCost\<close> of \<^verbatim>\<open>controller/network\<close>, for every order in which Go visits a
    map (the rank functions). The locale \<open>weighted_graph\<close> holds the theory of the search; it is interpreted on
    the network. With link costs between 0 and 2 ^ 62 the search ends and finds a cheapest route.
  \<^item> \<^verbatim>\<open>Route_Messages\<close> models \<^verbatim>\<open>controller/model/path.go\<close>, \<open>CreatePathWithNodes\<close>, \<open>setLinks\<close>, \<open>UpdatePath\<close> and
    \<open>CreateRouteMessages\<close>: paths are complete and the messages of a path form one chain in both directions.

  \<^bold>\<open>Terminators.\<close>

  \<^item> \<^verbatim>\<open>Terminator_Costs\<close> models \<^verbatim>\<open>controller/xt/costs.go\<close>, \<^verbatim>\<open>events.go\<close> and \<^verbatim>\<open>controller/xt_common/cost_visitor.go\<close>. The costs
    that routing reads refine a specification that has one pair of numbers per terminator; the bands of the
    precedences do not overlap. Powers of two in floating point are a parameter.
  \<^item> \<^verbatim>\<open>Terminator_Strategies\<close> models \<^verbatim>\<open>controller/xt_random\<close>, \<^verbatim>\<open>xt_smartrouting\<close>, \<^verbatim>\<open>xt_sticky\<close>, \<^verbatim>\<open>xt_weighted\<close> and the registry.
    The locale \<open>terminator_strategy\<close> is the contract of a strategy; every strategy interprets it. Random draws and
    the rounding of floating point operations are parameters.

  \<^bold>\<open>Circuits.\<close>

  \<^item> \<^verbatim>\<open>Forwarder\<close> models \<^verbatim>\<open>router/forwarder\<close>: tables, destinations, routing, unrouting, forwarding, fault reports and
    idle scans. No sequence of operations panics, as long as links and circuits use different addresses.
  \<^item> \<^verbatim>\<open>Route_Handler\<close> models \<^verbatim>\<open>router/handler_ctrl/route.go\<close>, \<^verbatim>\<open>unroute.go\<close> and the transport dialers. The locale \<open>dialer\<close>
    is the contract of a dialer, interpreted on both transport dialers.
  \<^item> \<^verbatim>\<open>Route_Sender\<close> models \<^verbatim>\<open>controller/network/routesender.go\<close> and \<^verbatim>\<open>controller/handler_ctrl/route_result.go\<close>. An attempt is
    given the answers that arrive before its deadline. Its success needs the confirmation of every router.
  \<^item> \<^verbatim>\<open>Circuit_Creation\<close> models \<open>CreateCircuit\<close> and \<open>selectPath\<close> of \<^verbatim>\<open>controller/network/network.go\<close> and the circuit table. The
    environment of an attempt has three states of the network, since no lock is held: at the selection of the
    path, at the choice of its links, and at the clean-up.
  \<^item> \<^verbatim>\<open>Circuit_Rerouting\<close> models the rest of the life of a circuit: removal, rerouting, \<^verbatim>\<open>smart.go\<close>, fault reports and
    idle confirmations. The network does not change during one try to reroute a circuit.
  \<^item> \<^verbatim>\<open>Data_Plane\<close> models the handlers around the forwarder (\<^verbatim>\<open>router/handler_link\<close>, \<^verbatim>\<open>router/handler_xgress\<close>) and joins the
    parts: the messages the controller makes for a path, handled by the routers, deliver payloads from one end of
    the circuit to the other, and back.

  \<^bold>\<open>Router data model.\<close>

  \<^item> \<^verbatim>\<open>Event_Cache\<close> models \<^verbatim>\<open>common/event_cache.go\<close>, the log of the last change sets of a controller. Replays are exact.
  \<^item> \<^verbatim>\<open>Data_State\<close> has the messages of \<^verbatim>\<open>common/pb/edge_ctrl_pb\<close>; \<^verbatim>\<open>Data_Model_Sender\<close> models
    \<^verbatim>\<open>common/router_data_model_sender.go\<close>, the controller's side; \<^verbatim>\<open>Router_Data_Model\<close> models
    \<^verbatim>\<open>common/router_data_model.go\<close>, the router's side, with its indexes and counters.
  \<^item> \<^verbatim>\<open>Data_Model_Spec\<close> is the common specification: entities, and the sets of members of each policy. The locale
    \<open>replica\<close> says that a handler of events refines the steps of the specification; it is interpreted on both sides
    (\<open>controller\<close> in \<^verbatim>\<open>Data_Model_Sender\<close>, \<open>router\<close> in \<^verbatim>\<open>Data_Model_Sync\<close>).
  \<^item> \<^verbatim>\<open>Data_Model_Access\<close>, \<^verbatim>\<open>Data_Model_Changes\<close>, \<^verbatim>\<open>Data_Model_Sync\<close> and \<^verbatim>\<open>Data_Model_Frame\<close> show the invariant of the router's
    model (\<open>rdm_ok\<close>) step by step: well-formed events do not panic, keep it, and refine the specification.
    \<^verbatim>\<open>Data_Model_Services\<close> draws the conclusions for access; \<open>rdm_reachable\<close> are the states of a router's model.
  \<^item> \<^verbatim>\<open>Data_Model_Snapshot\<close> shows that snapshots rebuild the data; \<^verbatim>\<open>Data_Model_Distribution\<close> models
    \<^verbatim>\<open>controller/sync_strats/rtx.go\<close> and the subscription in \<^verbatim>\<open>router/state\<close>, and shows that a router follows its
    controller.

  \<^bold>\<open>Conventions.\<close> \<^verbatim>\<open>Ziti_Prelude\<close> has the integer widths, the concurrent maps of the source as association lists (locale
  \<open>concurrent_map\<close>) and the order of map loops as rank functions. Integers that can overflow are words or have the
  wrap-around written out; counters of policies and times are unbounded. A result \<open>None\<close> of an operation is a
  panic, or a loop that does not end; errors are values of sum types. Random ids, clocks, answers, database reads
  and whether a message gets through are inputs. The only loops that could run forever are those of
  \<open>ReplayFrom\<close>; they are partial functions, and the result on reachable caches is shown to exist. Other loops are
  structural, or have a measure, such as the number of retries of \<open>CreateCircuit\<close>; no fuel is used. Concurrency is the
  interleaving of whole operations, apart from \<open>CreateCircuit\<close>, where the network may change inside of an attempt.

  \<^bold>\<open>Not modelled.\<close> The database, the raft library and the code that turns database changes into events; REST and
  management interfaces, enrolment, authentication and sessions; the edge listener, tunnelling and DNS; the
  establishment of links between routers; the evaluation of posture checks; the notification of data model
  subscribers; metrics, events and command line tools. They are input and output, generated code, or calls of
  libraries, and what the modelled parts need of them is an input of the model. Message encoding belongs to the
  message library and is left out.
\<close>

end
